(* ===== verification/Prelude.thy ===== *)
theory Prelude
  imports Complex_Main "HOL-Library.Sublist" "HOL-Library.AList"
begin

text \<open>
  Shared vocabulary of the development: the type synonyms for Python values, the Python string
  operations the code uses, keyed tables, sliding windows of time stamps and partial step
  functions, each with the lemmas the component theories rest on.

  Python values are read as follows. A \<^verbatim>\<open>str\<close> or a \<^verbatim>\<open>bytes\<close> is a list of 8-bit characters (code
  points above 255 are outside the model); an \<^verbatim>\<open>int\<close> is an \<open>int\<close>; a \<^verbatim>\<open>datetime\<close> and a
  \<^verbatim>\<open>timedelta\<close> are whole microseconds, which is their exact resolution; a \<^verbatim>\<open>float\<close> used as a
  duration or a clock reading is a rational number (binary rounding is not modelled); an
  exception is the left side of a sum.
\<close>

section \<open>Names and collections of rules\<close>

named_theorems py_simps \<open>characteristic equations of the Python operations\<close>

named_theorems inv_intros \<open>preservation lemmas of component invariants\<close>

type_synonym pystr = string

type_synonym bytes = string

type_synonym datetime = int

type_synonym timedelta = int

abbreviation seconds :: "int \<Rightarrow> timedelta" where
  "seconds n \<equiv> n * 1000000"

abbreviation minutes :: "int \<Rightarrow> timedelta" where
  "minutes n \<equiv> seconds (60 * n)"

text \<open>A \<^verbatim>\<open>float\<close> that comes out of parsing text can also be infinite or not a number.\<close>

datatype pyfloat = Fin rat | PosInf | NegInf | NaN

section \<open>Results\<close>

text \<open>\<open>is_ok\<close> and \<open>ok_value\<close> read a result whose left side is an exception.\<close>

abbreviation is_ok :: "'e + 'a \<Rightarrow> bool" where
  "is_ok r \<equiv> \<not> isl r"

text \<open>\<^verbatim>\<open>ValueError\<close> with its message.\<close>

datatype value_error = ValueError pystr

definition catch :: "'e + 'a \<Rightarrow> 'a \<Rightarrow> 'a" where
  "catch r d = (case r of Inl _ \<Rightarrow> d | Inr v \<Rightarrow> v)"

lemma catch_simps [simp]: "catch (Inl e) d = d" "catch (Inr v) d = v"
  by (simp_all add: catch_def)

section \<open>Python string and bytes operations\<close>

text \<open>\<open>find_char c s\<close>: the part before the first \<open>c\<close> and the part after it, as
  \<^verbatim>\<open>s.find(c)\<close> with the two slices gives them.\<close>

fun find_char :: "'c \<Rightarrow> 'c list \<Rightarrow> ('c list \<times> 'c list) option" where
  "find_char c [] = None"
| "find_char c (x # xs) =
     (if x = c then Some ([], xs)
      else map_option (\<lambda>(a, b). (x # a, b)) (find_char c xs))"

lemma find_char_None [simp]: "find_char c s = None \<longleftrightarrow> c \<notin> set s"
  by (induction s) auto

lemma find_char_Some: "find_char c s = Some (a, b) \<longleftrightarrow> s = a @ c # b \<and> c \<notin> set a"
proof (induction s arbitrary: a)
  case Nil
  then show ?case by simp
next
  case (Cons x xs)
  show ?case
  proof (cases "x = c")
    case True
    then show ?thesis by (cases a) auto
  next
    case False
    then show ?thesis using Cons by (cases a) auto
  qed
qed

lemma find_char_append_fresh:
  "c \<notin> set a \<Longrightarrow> find_char c (a @ c # b) = Some (a, b)"
  by (simp add: find_char_Some)

lemma find_char_length: "find_char c s = Some (a, b) \<Longrightarrow> length b < length s"
  by (auto simp: find_char_Some)

lemma find_char_more: "find_char c s = Some (a, b) \<Longrightarrow> find_char c (s @ t) = Some (a, b @ t)"
  by (simp add: find_char_Some)

text \<open>\<^verbatim>\<open>s.rstrip(c)\<close> for one character.\<close>

definition rstrip_char :: "'c \<Rightarrow> 'c list \<Rightarrow> 'c list" where
  "rstrip_char c s = rev (dropWhile (\<lambda>x. x = c) (rev s))"

lemma rstrip_char_snoc [simp]:
  "rstrip_char c (s @ [x]) = (if x = c then rstrip_char c s else s @ [x])"
  by (simp add: rstrip_char_def)

lemma rstrip_char_Nil [simp]: "rstrip_char c [] = []"
  by (simp add: rstrip_char_def)

lemma rstrip_char_prefix: "prefix (rstrip_char c s) s"
proof -
  have "suffix (dropWhile (\<lambda>x. x = c) (rev s)) (rev s)"
    by (simp add: suffix_dropWhile)
  then show ?thesis
    by (simp add: rstrip_char_def suffix_to_prefix)
qed

lemma rstrip_char_last: "rstrip_char c s \<noteq> [] \<Longrightarrow> last (rstrip_char c s) \<noteq> c"
  by (induction s rule: rev_induct) auto

lemma rstrip_char_id: "s = [] \<or> last s \<noteq> c \<Longrightarrow> rstrip_char c s = s"
  by (induction s rule: rev_induct) auto

lemma rstrip_char_replicate [simp]: "rstrip_char c (s @ replicate n c) = rstrip_char c s"
proof (induction n)
  case 0
  then show ?case by simp
next
  case (Suc n)
  have "s @ replicate (Suc n) c = (s @ replicate n c) @ [c]"
    by (simp add: replicate_append_same)
  then show ?case using Suc by (simp only: rstrip_char_snoc) simp
qed

text \<open>\<^verbatim>\<open>s.replace(pat, rep, n)\<close> for a non-empty pattern: leftmost, non-overlapping. With
  \<open>budget = None\<close> every occurrence is replaced. The character after a match is scanned next.\<close>

fun replace_from :: "'c list \<Rightarrow> 'c list \<Rightarrow> nat \<Rightarrow> 'c list \<Rightarrow> 'c list" where
  "replace_from pat rep skip [] = []"
| "replace_from pat rep (Suc k) (x # xs) = replace_from pat rep k xs"
| "replace_from pat rep 0 (x # xs) =
     (if prefix pat (x # xs) \<and> pat \<noteq> [] then rep @ replace_from pat rep (length pat - 1) xs
      else x # replace_from pat rep 0 xs)"

definition replace_all :: "'c list \<Rightarrow> 'c list \<Rightarrow> 'c list \<Rightarrow> 'c list" where
  "replace_all pat rep s = replace_from pat rep 0 s"

fun replace_first :: "'c list \<Rightarrow> 'c list \<Rightarrow> 'c list \<Rightarrow> 'c list" where
  "replace_first pat rep [] = (if pat = [] then rep else [])"
| "replace_first pat rep (x # xs) =
     (if prefix pat (x # xs) then rep @ drop (length pat) (x # xs)
      else x # replace_first pat rep xs)"

lemma replace_first_absent: "\<not> sublist pat s \<Longrightarrow> replace_first pat rep s = s"
proof (induction s)
  case Nil
  then show ?case by simp
next
  case (Cons x xs)
  then have "\<not> prefix pat (x # xs)" "\<not> sublist pat xs"
    by (auto simp: sublist_Cons_right)
  then show ?case using Cons.IH by simp
qed

lemma prefix_append_fresh:
  "c \<notin> set pat \<Longrightarrow> prefix pat (s @ replicate n c) \<longleftrightarrow> prefix pat s"
proof (induction pat arbitrary: s)
  case Nil
  then show ?case by simp
next
  case (Cons p pat)
  show ?case
  proof (cases s)
    case Nil
    then show ?thesis using Cons.prems by (cases n) auto
  next
    case (Cons x xs)
    then show ?thesis using Cons.IH [of xs] Cons.prems by auto
  qed
qed

text \<open>Padding with a character the pattern does not contain commutes with the replacement.\<close>

lemma replace_first_pad:
  assumes "c \<notin> set pat" "pat \<noteq> []"
  shows "replace_first pat rep (s @ replicate n c) = replace_first pat rep s @ replicate n c"
proof (induction s)
  case Nil
  have "replace_first pat rep (replicate n c) = replicate n c"
  proof (induction n)
    case (Suc n)
    have "\<not> prefix pat (c # replicate n c)"
      using assms by (cases pat) auto
    then show ?case using Suc by simp
  qed (use assms in simp)
  then show ?case using assms by simp
next
  case (Cons x xs)
  have "prefix pat ((x # xs) @ replicate n c) \<longleftrightarrow> prefix pat (x # xs)"
    using assms by (intro prefix_append_fresh)
  moreover have "drop (length pat) ((x # xs) @ replicate n c) =
      drop (length pat) (x # xs) @ replicate n c" if "prefix pat (x # xs)"
    using prefix_length_le [OF that] by (simp only: drop_append) simp
  ultimately show ?case using Cons by auto
qed

text \<open>A replacement leaves a prefix that shares no first character with the pattern.\<close>

lemma replace_first_prefix:
  "pat \<noteq> [] \<Longrightarrow> hd pat \<notin> set s \<Longrightarrow>
    replace_first pat rep (s @ t) = s @ replace_first pat rep t"
proof (induction s)
  case (Cons x s)
  then have "\<not> prefix pat (x # s @ t)" by (cases pat) auto
  then show ?case using Cons by simp
qed simp

text \<open>\<^verbatim>\<open>s.split(sep)\<close> for a one-character separator.\<close>

fun split_char :: "'c \<Rightarrow> 'c list \<Rightarrow> 'c list list" where
  "split_char c [] = [[]]"
| "split_char c (x # xs) =
     (if x = c then [] # split_char c xs
      else (case split_char c xs of [] \<Rightarrow> [[x]] | w # ws \<Rightarrow> (x # w) # ws))"

lemma split_char_nonempty [simp]: "split_char c s \<noteq> []"
  by (induction s) (auto split: list.splits)

lemma split_char_Some: "find_char c s = Some (a, b) \<Longrightarrow> split_char c s = a # split_char c b"
  by (induction s arbitrary: a) (auto split: if_splits)

lemma split_char_None: "find_char c s = None \<Longrightarrow> split_char c s = [s]"
  by (induction s) auto

lemma split_char_fresh: "w \<in> set (split_char c s) \<Longrightarrow> c \<notin> set w"
  by (induction s arbitrary: w) (fastforce split: if_splits list.splits)+

text \<open>\<^verbatim>\<open>str.strip()\<close>: the white space of \<^verbatim>\<open>str\<close> below code point 256; \<^verbatim>\<open>bytes\<close> white space is
  the ASCII part.\<close>

definition str_space :: "char \<Rightarrow> bool" where
  "str_space c \<longleftrightarrow> (let n = (of_char c :: nat) in
     (9 \<le> n \<and> n \<le> 13) \<or> (28 \<le> n \<and> n \<le> 32) \<or> n = 133 \<or> n = 160)"

definition byte_space :: "char \<Rightarrow> bool" where
  "byte_space c \<longleftrightarrow> (let n = (of_char c :: nat) in (9 \<le> n \<and> n \<le> 13) \<or> n = 32)"

definition strip_by :: "('c \<Rightarrow> bool) \<Rightarrow> 'c list \<Rightarrow> 'c list" where
  "strip_by p s = rev (dropWhile p (rev (dropWhile p s)))"

abbreviation py_strip :: "pystr \<Rightarrow> pystr" where
  "py_strip \<equiv> strip_by str_space"

lemma dropWhile_head: "dropWhile p s \<noteq> [] \<Longrightarrow> \<not> p (hd (dropWhile p s))"
  by (rule hd_dropWhile)

lemma strip_by_sublist: "sublist (strip_by p s) s"
proof -
  have "prefix (rev (dropWhile p (rev (dropWhile p s)))) (dropWhile p s)"
    using suffix_dropWhile [of p "rev (dropWhile p s)"] by (simp add: suffix_to_prefix)
  moreover have "suffix (dropWhile p s) s" by (rule suffix_dropWhile)
  ultimately show ?thesis
    unfolding strip_by_def by (meson prefix_imp_sublist sublist_order.order.trans suffix_imp_sublist)
qed

text \<open>\<^verbatim>\<open>s[-n:]\<close>: the last \<open>n\<close> characters, all of them when there are fewer.\<close>

definition tail_slice :: "nat \<Rightarrow> 'c list \<Rightarrow> 'c list" where
  "tail_slice n s = drop (length s - n) s"

lemma length_tail_slice [simp]: "length (tail_slice n s) = min n (length s)"
  by (simp add: tail_slice_def)

lemma tail_slice_suffix: "suffix (tail_slice n s) s"
  by (simp add: tail_slice_def suffix_drop)

text \<open>\<^verbatim>\<open>str(n)\<close>.\<close>

fun show_nat :: "nat \<Rightarrow> pystr" where
  "show_nat n = (if n < 10 then [char_of (48 + n)] else show_nat (n div 10) @ [char_of (48 + n mod 10)])"

declare show_nat.simps [simp del]

definition show_int :: "int \<Rightarrow> pystr" where
  "show_int n = (if n < 0 then ''-'' @ show_nat (nat (- n)) else show_nat (nat n))"

text \<open>UTF-8 for the code points of the model: \<^verbatim>\<open>s.encode("utf-8")\<close>, and \<^verbatim>\<open>b.decode("utf-8")\<close> with
  \<open>None\<close> where strict decoding raises (or leaves the 8-bit range).\<close>

definition char_code :: "char \<Rightarrow> nat" where
  "char_code c = of_char c"

lemma char_code_less [simp]: "char_code c < 256"
  by (simp add: char_code_def)

lemma char_of_code [simp]: "char_of (char_code c) = c"
  by (simp add: char_code_def)

lemma char_code_of [simp]: "n < 256 \<Longrightarrow> char_code (char_of n) = n"
  by (simp add: char_code_def)

definition utf8_char :: "char \<Rightarrow> bytes" where
  "utf8_char c =
     (let n = char_code c
      in if n < 128 then [c] else [char_of (192 + n div 64), char_of (128 + n mod 64)])"

definition utf8_encode :: "pystr \<Rightarrow> bytes" where
  "utf8_encode s = concat (map utf8_char s)"

fun utf8_decode :: "bytes \<Rightarrow> pystr option" where
  "utf8_decode [] = Some []"
| "utf8_decode [b] = (if char_code b < 128 then Some [b] else None)"
| "utf8_decode (b # c # bs) =
     (if char_code b < 128 then map_option (Cons b) (utf8_decode (c # bs))
      else if (char_code b = 194 \<or> char_code b = 195) \<and> 128 \<le> char_code c \<and> char_code c < 192
      then map_option (Cons (char_of ((char_code b - 192) * 64 + (char_code c - 128)))) (utf8_decode bs)
      else None)"

lemma utf8_decode_ascii:
  "char_code b < 128 \<Longrightarrow> utf8_decode (b # bs) = map_option (Cons b) (utf8_decode bs)"
  by (cases bs) simp_all

lemma utf8_decode_encode [simp]: "utf8_decode (utf8_encode s) = Some s"
proof (induction s)
  case Nil
  then show ?case by (simp add: utf8_encode_def)
next
  case (Cons c s)
  have enc: "utf8_encode (c # s) = utf8_char c @ utf8_encode s" by (simp add: utf8_encode_def)
  show ?case
  proof (cases "char_code c < 128")
    case True
    then show ?thesis using Cons by (simp add: enc utf8_char_def utf8_decode_ascii)
  next
    case False
    have n: "char_code c < 256" by (rule char_code_less)
    then have d: "char_code c div 64 = 2 \<or> char_code c div 64 = 3" using False by linarith
    have m: "char_code c mod 64 < 64" by simp
    have b: "char_code (char_of (192 + char_code c div 64)) = 192 + char_code c div 64"
      using d by (intro char_code_of) auto
    have k: "char_code (char_of (128 + char_code c mod 64)) = 128 + char_code c mod 64"
      using m by (intro char_code_of) linarith
    have "char_code c div 64 * 64 + char_code c mod 64 = char_code c" by simp
    then show ?thesis using Cons False d m b k by (auto simp: enc utf8_char_def Let_def)
  qed
qed

lemma utf8_encode_Nil [simp]: "utf8_encode s = [] \<longleftrightarrow> s = []"
  by (cases s) (auto simp: utf8_encode_def utf8_char_def Let_def)

lemma utf8_encode_inj: "utf8_encode s = utf8_encode t \<longleftrightarrow> s = t"
  by (metis option.inject utf8_decode_encode)

section \<open>Dictionaries from pairs\<close>

text \<open>A dictionary comprehension, or the pairs of a JSON object: a later pair with the same key replaces the earlier one.\<close>

definition dict_of :: "('k \<times> 'v) list \<Rightarrow> ('k \<times> 'v) list" where
  "dict_of kvs = foldl (\<lambda>d (k, v). AList.update k v d) [] kvs"

lemma update_new_key: "k \<notin> fst ` set d \<Longrightarrow> AList.update k v d = d @ [(k, v)]"
  by (induction d) auto

lemma dict_of_distinct: "distinct (map fst kvs) \<Longrightarrow> dict_of kvs = kvs"
proof (induction kvs rule: rev_induct)
  case (snoc kv kvs)
  then have "AList.update (fst kv) (snd kv) kvs = kvs @ [kv]" using update_new_key [of "fst kv" kvs "snd kv"] by simp
  then show ?case using snoc by (simp add: dict_of_def case_prod_unfold)
qed (simp add: dict_of_def)

end
