(* ===== verification/Interfaces.thy ===== *)
theory Interfaces
  imports Prelude
begin

text \<open>
  The contracts several components share, each a locale: a partial step function and its runs
  (the run-state and worker-state machines), a sliding window over time stamps (the circuit
  breaker and the login limiter), and a store of rows under a key (the repositories and the
  reprompt store). The lemmas clients need are proved once here; the providing theories
  interpret the locales on the model's own operations.
\<close>

section \<open>Partial step functions\<close>

text \<open>A machine refuses an action by returning no state. A run performs a list of actions and
  stops at the first refusal.\<close>

locale step_machine =
  fixes stp :: "'s \<Rightarrow> 'a \<Rightarrow> 's option"
    and run_all :: "'s \<Rightarrow> 'a list \<Rightarrow> 's option"
  assumes run_Nil: "run_all s [] = Some s"
    and run_Cons: "run_all s (a # as) =
      (case stp s a of None \<Rightarrow> None | Some t \<Rightarrow> run_all t as)"
begin

lemma run_append: "run_all s (xs @ ys) =
   (case run_all s xs of None \<Rightarrow> None | Some t \<Rightarrow> run_all t ys)"
proof (induction xs arbitrary: s)
  case Nil
  then show ?case by (simp add: run_Nil)
next
  case (Cons a xs)
  then show ?case by (cases "stp s a") (simp_all add: run_Cons)
qed

lemma run_snoc: "run_all s (xs @ [a]) = Some u \<longleftrightarrow>
   (\<exists>t. run_all s xs = Some t \<and> stp t a = Some u)"
  by (auto simp: run_append run_Cons run_Nil split: option.splits)

text \<open>An invariant of single steps holds along every run.\<close>

lemma run_invariant:
  assumes ret: "run_all s as = Some t"
    and init: "I s"
    and pres: "\<And>u a v. I u \<Longrightarrow> stp u a = Some v \<Longrightarrow> I v"
  shows "I t"
  using ret init
proof (induction as arbitrary: s)
  case Nil
  then show ?case by (simp add: run_Nil)
next
  case (Cons a as)
  then obtain u where "stp s a = Some u" "run_all u as = Some t"
    by (auto simp: run_Cons split: option.splits)
  then show ?case using Cons.IH Cons.prems(2) pres by blast
qed

text \<open>A run that changes a property of the state has a step that changes it.\<close>

lemma run_crosses:
  assumes "run_all s as = Some t" "\<not> P s" "P t"
  shows "\<exists>xs a ys u v. as = xs @ a # ys \<and> run_all s xs = Some u \<and> \<not> P u \<and>
    stp u a = Some v \<and> P v"
  using assms
proof (induction as arbitrary: t rule: rev_induct)
  case Nil
  then show ?case by (simp add: run_Nil)
next
  case (snoc a as)
  then obtain u where u: "run_all s as = Some u" "stp u a = Some t"
    by (auto simp: run_snoc)
  show ?case
  proof (cases "P u")
    case True
    then obtain xs b ys v w where "as = xs @ b # ys" "run_all s xs = Some v" "\<not> P v"
      "stp v b = Some w" "P w"
      using snoc.IH u(1) snoc.prems(2) by blast
    then show ?thesis by (metis append.assoc append_Cons)
  next
    case False
    then show ?thesis using u snoc.prems(3) by (metis append.right_neutral)
  qed
qed

end

section \<open>Sliding windows\<close>

text \<open>\<open>expired now t\<close>: the stamp \<open>t\<close> has left the window that ends at \<open>now\<close>. A window is a
  list of stamps, oldest first; \<open>evict\<close> pops expired stamps from its front.\<close>

locale sliding_window =
  fixes expired :: "'t::linorder \<Rightarrow> 't \<Rightarrow> bool"
    and evict :: "'t \<Rightarrow> 't list \<Rightarrow> 't list"
  assumes expired_older: "expired now t \<Longrightarrow> u \<le> t \<Longrightarrow> expired now u"
    and expired_later: "expired now t \<Longrightarrow> now \<le> later \<Longrightarrow> expired later t"
    and evict_Nil: "evict now [] = []"
    and evict_Cons: "evict now (t # ts) = (if expired now t then evict now ts else t # ts)"
begin

lemma evict_dropWhile: "evict now ts = dropWhile (expired now) ts"
  by (induction ts) (simp_all add: evict_Nil evict_Cons)

lemma evict_filter: "sorted ts \<Longrightarrow> evict now ts = filter (\<lambda>t. \<not> expired now t) ts"
proof (induction ts)
  case Nil
  then show ?case by (simp add: evict_Nil)
next
  case (Cons t ts)
  show ?case
  proof (cases "expired now t")
    case True
    then show ?thesis using Cons by (simp add: evict_Cons)
  next
    case False
    then have "\<forall>u\<in>set ts. \<not> expired now u"
      using Cons.prems expired_older by (auto simp: sorted_wrt.simps)
    then show ?thesis using False by (simp add: evict_Cons)
  qed
qed

lemma evict_sorted: "sorted ts \<Longrightarrow> sorted (evict now ts)"
  by (simp add: evict_filter sorted_wrt_filter)

lemma evict_subset: "set (evict now ts) \<subseteq> set ts"
  by (simp add: evict_dropWhile set_dropWhileD subsetI)

lemma evict_length: "length (evict now ts) \<le> length ts"
  by (simp add: evict_dropWhile length_dropWhile_le)

lemma evict_fresh: "sorted ts \<Longrightarrow> t \<in> set (evict now ts) \<Longrightarrow> \<not> expired now t"
  by (simp add: evict_filter)

text \<open>Evicting late gives the same window as evicting early and late.\<close>

lemma evict_evict: "sorted ts \<Longrightarrow> now \<le> later \<Longrightarrow> evict later (evict now ts) = evict later ts"
proof -
  assume s: "sorted ts" and le: "now \<le> later"
  have "filter (\<lambda>t. \<not> expired later t) (filter (\<lambda>t. \<not> expired now t) ts) =
        filter (\<lambda>t. \<not> expired later t) ts"
    using le expired_later by (induction ts) auto
  then show ?thesis using s by (simp add: evict_filter sorted_wrt_filter)
qed

lemma sorted_evict_snoc:
  "sorted ts \<Longrightarrow> \<forall>t\<in>set ts. t \<le> now \<Longrightarrow> sorted (evict now ts @ [now])"
  using evict_subset [of now ts] by (auto simp: sorted_append evict_sorted)

text \<open>The window a client keeps after recording a stamp: what a complete log of all stamps
  would show of the window.\<close>

lemma evict_log_snoc:
  assumes "sorted hist" "\<forall>t\<in>set hist. t \<le> now" "\<not> expired now now"
  shows "evict now (hist @ [now]) = evict now hist @ [now]"
proof -
  have "sorted (hist @ [now])" using assms by (simp add: sorted_append)
  then show ?thesis using assms by (simp add: evict_filter)
qed

end

section \<open>Rows under a key\<close>

text \<open>The observable contract of a repository or an in-memory dictionary: what a lookup returns
  after an insert or a delete. \<open>entry k v\<close> is the row an insert of \<open>v\<close> under \<open>k\<close> stores.\<close>

locale keyed_store =
  fixes lookup :: "'st \<Rightarrow> 'k \<Rightarrow> 'r option"
    and entry :: "'k \<Rightarrow> 'v \<Rightarrow> 'r"
    and insert_row :: "'k \<Rightarrow> 'v \<Rightarrow> 'st \<Rightarrow> 'st"
    and delete_row :: "'k \<Rightarrow> 'st \<Rightarrow> 'st"
    and wf :: "'st \<Rightarrow> bool"
  assumes lookup_insert: "wf st \<Longrightarrow> lookup (insert_row k v st) j = (if j = k then Some (entry k v) else lookup st j)"
    and lookup_delete: "wf st \<Longrightarrow> lookup (delete_row k st) j = (if j = k then None else lookup st j)"
    and wf_insert: "wf st \<Longrightarrow> wf (insert_row k v st)"
    and wf_delete: "wf st \<Longrightarrow> wf (delete_row k st)"
begin

lemma delete_idempotent:
  "wf st \<Longrightarrow> lookup (delete_row k (delete_row k st)) j = lookup (delete_row k st) j"
  by (simp add: lookup_delete wf_delete)

lemma delete_insert:
  "wf st \<Longrightarrow> lookup st k = None \<Longrightarrow> lookup (delete_row k (insert_row k v st)) j = lookup st j"
  by (simp add: lookup_delete lookup_insert wf_insert)

lemma insert_overwrites:
  "wf st \<Longrightarrow> lookup (insert_row k w (insert_row k v st)) j = lookup (insert_row k w st) j"
  by (simp add: lookup_insert wf_insert)

fun delete_rows :: "'k list \<Rightarrow> 'st \<Rightarrow> 'st" where
  "delete_rows [] st = st"
| "delete_rows (k # ks) st = delete_rows ks (delete_row k st)"

lemma delete_rows_lookup:
  "wf st \<Longrightarrow> wf (delete_rows ks st) \<and>
    lookup (delete_rows ks st) j = (if j \<in> set ks then None else lookup st j)"
  by (induction ks arbitrary: st) (auto simp: lookup_delete wf_delete)

end

end
