(* ===== verification/Circuit_Breaker.thy ===== *)
theory Circuit_Breaker
  imports Interfaces
begin

text \<open>
  The per-worker circuit breaker, \<^verbatim>\<open>app/domain/circuit_breaker.py\<close>: a deque of failure times
  with a sliding window and a healthy timer. The breaker is a record returned updated by each
  operation; \<open>should_open\<close> and \<open>failure_count_in_window\<close> evict, so they return the breaker as
  well. The abstract specification keeps every failure since the last clear; the window the
  breaker keeps is shown to answer exactly as that log does.
\<close>

datatype breaker_verdict = CLOSED | OPEN

fun verdict_value :: "breaker_verdict \<Rightarrow> pystr" where
  "verdict_value CLOSED = ''closed''"
| "verdict_value OPEN = ''open''"

record breaker_policy =
  max_failures :: int
  window :: timedelta
  healthy_reset_after :: timedelta

definition default_breaker_policy :: breaker_policy where
  "default_breaker_policy =
     \<lparr>max_failures = 30, window = minutes 5, healthy_reset_after = seconds 60\<rparr>"

record breaker =
  policy :: breaker_policy
  failures :: "datetime list"
  last_healthy_since :: "datetime option"

definition new_breaker :: "breaker_policy \<Rightarrow> breaker" where
  "new_breaker p = \<lparr>policy = p, failures = [], last_healthy_since = None\<rparr>"

section \<open>Operations\<close>

fun evict_before :: "datetime \<Rightarrow> datetime list \<Rightarrow> datetime list" where
  "evict_before cutoff [] = []"
| "evict_before cutoff (t # ts) = (if t < cutoff then evict_before cutoff ts else t # ts)"

definition evict_old :: "breaker \<Rightarrow> datetime \<Rightarrow> breaker" where
  "evict_old b now = b\<lparr>failures := evict_before (now - window (policy b)) (failures b)\<rparr>"

definition record_failure :: "breaker \<Rightarrow> datetime \<Rightarrow> breaker" where
  "record_failure b now =
     (let b1 = evict_old b now
      in b1\<lparr>failures := failures b1 @ [now], last_healthy_since := None\<rparr>)"

definition record_healthy :: "breaker \<Rightarrow> datetime \<Rightarrow> breaker" where
  "record_healthy b now =
     (case last_healthy_since b of
        None \<Rightarrow> b\<lparr>last_healthy_since := Some now\<rparr>
      | Some since \<Rightarrow>
          (if now - since \<ge> healthy_reset_after (policy b) then b\<lparr>failures := []\<rparr> else b))"

definition should_open :: "breaker \<Rightarrow> datetime \<Rightarrow> breaker \<times> breaker_verdict" where
  "should_open b now =
     (let b1 = evict_old b now
      in (b1, if int (length (failures b1)) \<ge> max_failures (policy b1) then OPEN else CLOSED))"

definition failure_count_in_window :: "breaker \<Rightarrow> datetime \<Rightarrow> breaker \<times> int" where
  "failure_count_in_window b now =
     (let b1 = evict_old b now in (b1, int (length (failures b1))))"

definition breaker_reset :: "breaker \<Rightarrow> breaker" where
  "breaker_reset b = b\<lparr>failures := [], last_healthy_since := None\<rparr>"

lemmas breaker_defs = evict_old_def record_failure_def record_healthy_def should_open_def
  failure_count_in_window_def breaker_reset_def Let_def

section \<open>The window is a sliding window\<close>

interpretation cbw: sliding_window "\<lambda>now t. t < now - w" "\<lambda>now. evict_before (now - w)"
  for w :: int
  by unfold_locales auto

section \<open>The log the breaker stands for\<close>

text \<open>An operation of the breaker at a wall-clock time.\<close>

datatype breaker_op = Fail | Healthy | Ask | Count | Reset

fun breaker_do :: "breaker \<Rightarrow> breaker_op \<times> datetime \<Rightarrow> breaker" where
  "breaker_do b (Fail, now) = record_failure b now"
| "breaker_do b (Healthy, now) = record_healthy b now"
| "breaker_do b (Ask, now) = fst (should_open b now)"
| "breaker_do b (Count, now) = fst (failure_count_in_window b now)"
| "breaker_do b (Reset, now) = breaker_reset b"

text \<open>The specification: all failures since the last clear, and when the healthy stretch began.\<close>

record breaker_log =
  all_failures :: "datetime list"
  healthy_since :: "datetime option"

fun log_do :: "timedelta \<Rightarrow> breaker_log \<Rightarrow> breaker_op \<times> datetime \<Rightarrow> breaker_log" where
  "log_do h l (Fail, now) = l\<lparr>all_failures := all_failures l @ [now], healthy_since := None\<rparr>"
| "log_do h l (Healthy, now) =
     (case healthy_since l of
        None \<Rightarrow> l\<lparr>healthy_since := Some now\<rparr>
      | Some s \<Rightarrow> if now - s \<ge> h then l\<lparr>all_failures := []\<rparr> else l)"
| "log_do h l (Ask, now) = l"
| "log_do h l (Count, now) = l"
| "log_do h l (Reset, now) = l\<lparr>all_failures := [], healthy_since := None\<rparr>"

text \<open>The simulation relation at time \<open>cur\<close>: breaker and log give the same window at every
  later time.\<close>

definition breaker_sim :: "datetime \<Rightarrow> breaker \<Rightarrow> breaker_log \<Rightarrow> bool" where
  "breaker_sim cur b l \<longleftrightarrow>
     sorted (failures b) \<and> sorted (all_failures l) \<and>
     (\<forall>t\<in>set (failures b). t \<le> cur) \<and> (\<forall>t\<in>set (all_failures l). t \<le> cur) \<and>
     last_healthy_since b = healthy_since l \<and> 0 \<le> window (policy b) \<and>
     (\<forall>now \<ge> cur. evict_before (now - window (policy b)) (failures b) =
                  evict_before (now - window (policy b)) (all_failures l))"

lemma breaker_sim_later: "breaker_sim cur b l \<Longrightarrow> cur \<le> now \<Longrightarrow> breaker_sim now b l"
  by (fastforce simp: breaker_sim_def)

lemma breaker_sim_evict: "breaker_sim now b l \<Longrightarrow> breaker_sim now (evict_old b now) l"
  unfolding breaker_sim_def evict_old_def
  using cbw.evict_subset [where now = now and w = "window (policy b)" and ts = "failures b"]
  by (auto simp: cbw.evict_sorted cbw.evict_evict)

lemma breaker_sim_fail:
  assumes sim: "breaker_sim now b l"
  shows "breaker_sim now (record_failure b now) (log_do h l (Fail, now))"
proof -
  let ?w = "window (policy b)" and ?fs = "evict_before (now - window (policy b)) (failures b)"
  have e: "breaker_sim now (evict_old b now) l" by (rule breaker_sim_evict [OF sim])
  have snoc: "evict_before (later - ?w) (fs @ [now]) =
      evict_before (later - ?w) fs @ (if now < later - ?w then [] else [now])"
    if "sorted fs" "\<forall>t\<in>set fs. t \<le> now" for fs later
  proof -
    have "sorted (fs @ [now])" using that by (simp add: sorted_append)
    then show ?thesis using that by (simp add: cbw.evict_filter)
  qed
  show ?thesis
    using e sim snoc by (auto simp: breaker_sim_def breaker_defs sorted_append)
qed

lemma breaker_sim_do:
  assumes "breaker_sim cur b l" "cur \<le> now" "healthy_reset_after (policy b) = h"
  shows "breaker_sim now (breaker_do b (x, now)) (log_do h l (x, now))"
proof -
  have sim: "breaker_sim now b l" using assms by (blast intro: breaker_sim_later)
  show ?thesis
  proof (cases x)
    case Fail
    then show ?thesis using breaker_sim_fail [OF sim] by simp
  next
    case Healthy
    then show ?thesis using sim assms(3)
      by (auto simp: breaker_sim_def record_healthy_def split: option.splits)
  next
    case Reset
    then show ?thesis using sim by (simp add: breaker_sim_def breaker_reset_def)
  qed (use breaker_sim_evict [OF sim] in \<open>simp_all add: should_open_def failure_count_in_window_def Let_def\<close>)
qed

lemma policy_breaker_do [simp]: "policy (breaker_do b e) = policy b"
  by (cases e; cases "fst e") (auto simp: breaker_defs split: option.splits)

lemma policy_breaker_run [simp]: "policy (foldl breaker_do b es) = policy b"
  by (induction es arbitrary: b) simp_all

text \<open>A run of operations at non-decreasing times.\<close>

lemma breaker_sim_run:
  assumes "sorted (cur # map snd es)" "breaker_sim cur b l" "healthy_reset_after (policy b) = h"
  shows "breaker_sim (last (cur # map snd es)) (foldl breaker_do b es) (foldl (log_do h) l es)"
  using assms
proof (induction es arbitrary: cur b l)
  case Nil
  then show ?case by simp
next
  case (Cons e es)
  obtain x now where e: "e = (x, now)" by (cases e)
  have "breaker_sim now (breaker_do b e) (log_do h l e)"
    using Cons.prems e by (auto intro: breaker_sim_do)
  then show ?case
    using Cons.IH [of now "breaker_do b e" "log_do h l e"] Cons.prems e by auto
qed

definition new_log :: breaker_log where
  "new_log = \<lparr>all_failures = [], healthy_since = None\<rparr>"

lemma breaker_sim_new: "0 \<le> window p \<Longrightarrow> breaker_sim cur (new_breaker p) new_log"
  by (simp add: breaker_sim_def new_breaker_def new_log_def)

definition logged_in_window :: "breaker_policy \<Rightarrow> (breaker_op \<times> datetime) list \<Rightarrow> datetime \<Rightarrow> datetime list" where
  "logged_in_window p es now =
     filter (\<lambda>t. now - window p \<le> t) (all_failures (foldl (log_do (healthy_reset_after p)) new_log es))"

lemma breaker_window_log:
  assumes times: "sorted (map snd es @ [now])" and w: "0 \<le> window p"
  shows "failures (evict_old (foldl breaker_do (new_breaker p) es) now) = logged_in_window p es now"
proof -
  let ?cur = "hd (map snd es @ [now])"
  let ?b = "foldl breaker_do (new_breaker p) es"
    and ?l = "foldl (log_do (healthy_reset_after p)) new_log es"
  have s: "sorted (?cur # map snd es)" "last (?cur # map snd es) \<le> now"
    using times by (cases es; auto simp: sorted_append last_conv_nth)+
  have "breaker_sim (last (?cur # map snd es)) ?b ?l"
    using breaker_sim_run [OF s(1) breaker_sim_new [OF w]] by (simp add: new_breaker_def)
  then have "breaker_sim now ?b ?l" using s(2) by (rule breaker_sim_later)
  moreover have "policy ?b = p" by (simp add: new_breaker_def)
  ultimately show ?thesis
    by (auto simp: breaker_sim_def evict_old_def logged_in_window_def cbw.evict_filter not_less)
qed

text \<open>C26: for operations at non-decreasing times, the breaker opens exactly when
  the failures since the last clear that lie in the window number at least \<^verbatim>\<open>max_failures\<close>, and
  the count it reports is their number.\<close>

theorem breaker_refines_log:
  assumes "sorted (map snd es @ [now])" "0 \<le> window p"
  shows "(snd (should_open (foldl breaker_do (new_breaker p) es) now) = OPEN) =
      (max_failures p \<le> int (length (logged_in_window p es now))) \<and>
    snd (failure_count_in_window (foldl breaker_do (new_breaker p) es) now) =
      int (length (logged_in_window p es now))"
proof -
  let ?b = "foldl breaker_do (new_breaker p) es"
  have "failures (evict_old ?b now) = logged_in_window p es now"
    using assms by (rule breaker_window_log)
  moreover have "policy (evict_old ?b now) = p" by (simp add: evict_old_def new_breaker_def)
  ultimately show ?thesis by (simp add: should_open_def failure_count_in_window_def Let_def)
qed

definition two_strikes :: breaker_policy where
  "two_strikes = \<lparr>max_failures = 2, window = 10, healthy_reset_after = 5\<rparr>"

theorem breaker_refines_log_witness:
  "snd (should_open (foldl breaker_do (new_breaker two_strikes) [(Fail, 1), (Fail, 20), (Fail, 25)]) 26) = OPEN"
proof -
  have h: "sorted (map snd [(Fail, 1), (Fail, 20), (Fail, 25)] @ [26 :: int])" "0 \<le> window two_strikes"
    by (simp_all add: two_strikes_def)
  show ?thesis
    using breaker_refines_log [OF h]
    by (simp add: logged_in_window_def two_strikes_def new_log_def)
qed

text \<open>A fresh failure restarts the healthy timer, and only two healthy reports that far apart
  with no failure between them clear the count.\<close>

lemma healthy_clears_only_after_reset:
  assumes "failures b \<noteq> []" "failures (record_healthy b now) = []"
  shows "\<exists>since. last_healthy_since b = Some since \<and> since + healthy_reset_after (policy b) \<le> now"
  using assms by (auto simp: record_healthy_def split: option.splits if_splits)

lemma failure_rearms_timer: "last_healthy_since (record_failure b now) = None"
  by (simp add: breaker_defs)

lemma failure_then_healthy_keeps:
  "failures (record_healthy (record_failure b now) later) \<noteq> []"
  by (simp add: breaker_defs)

lemma breaker_reset_closes:
  "0 < max_failures (policy b) \<Longrightarrow> snd (should_open (breaker_reset b) now) = CLOSED"
  by (simp add: breaker_defs)

end
