(* ===== verification/Worker_State.thy ===== *)
theory Worker_State
  imports Circuit_Breaker
begin

text \<open>
  The worker-state machine of \<^verbatim>\<open>app/domain/worker_state.py\<close>: roles, states, actions, the
  transition table with the RECONNECT routing by the breaker's verdict, and the snapshot value
  objects the supervisor reads.
\<close>

datatype worker_role = PRIMARY | BACKUP

datatype worker_state = W_IDLE | W_STARTING | W_RUNNING | W_RECONNECTING | W_FAILED_OPEN | W_STOPPING

datatype worker_action =
  W_START | PROCESS_HEALTHY | PROCESS_EXITED | RECONNECT | W_STOP_REQUESTED | STOPPED | USER_RESET

datatype worker_error = IllegalWorkerStateTransitionError worker_state worker_action

fun role_value :: "worker_role \<Rightarrow> pystr" where
  "role_value PRIMARY = ''primary''"
| "role_value BACKUP = ''backup''"

fun worker_state_value :: "worker_state \<Rightarrow> pystr" where
  "worker_state_value W_IDLE = ''idle''"
| "worker_state_value W_STARTING = ''starting''"
| "worker_state_value W_RUNNING = ''running''"
| "worker_state_value W_RECONNECTING = ''reconnecting''"
| "worker_state_value W_FAILED_OPEN = ''failed_open''"
| "worker_state_value W_STOPPING = ''stopping''"

fun worker_action_value :: "worker_action \<Rightarrow> pystr" where
  "worker_action_value W_START = ''start''"
| "worker_action_value PROCESS_HEALTHY = ''process_healthy''"
| "worker_action_value PROCESS_EXITED = ''process_exited''"
| "worker_action_value RECONNECT = ''reconnect''"
| "worker_action_value W_STOP_REQUESTED = ''stop_requested''"
| "worker_action_value STOPPED = ''stopped''"
| "worker_action_value USER_RESET = ''user_reset''"

definition worker_TRANSITIONS :: "((worker_state \<times> worker_action) \<times> worker_state) list" where
  "worker_TRANSITIONS =
    [((W_IDLE, W_START), W_STARTING),
     ((W_STARTING, PROCESS_HEALTHY), W_RUNNING),
     ((W_STARTING, PROCESS_EXITED), W_RECONNECTING),
     ((W_STARTING, W_STOP_REQUESTED), W_STOPPING),
     ((W_RUNNING, PROCESS_EXITED), W_RECONNECTING),
     ((W_RUNNING, W_STOP_REQUESTED), W_STOPPING),
     ((W_RECONNECTING, PROCESS_HEALTHY), W_RUNNING),
     ((W_RECONNECTING, W_STOP_REQUESTED), W_STOPPING),
     ((W_STOPPING, STOPPED), W_IDLE),
     ((W_FAILED_OPEN, USER_RESET), W_STARTING),
     ((W_FAILED_OPEN, W_STOP_REQUESTED), W_STOPPING)]"

definition worker_transition ::
    "worker_state \<Rightarrow> worker_action \<Rightarrow> breaker_verdict option \<Rightarrow> worker_error + worker_state" where
  "worker_transition st ac verdict =
     (if ac = RECONNECT then
        (if st \<noteq> W_RECONNECTING \<or> verdict = None then Inl (IllegalWorkerStateTransitionError st ac)
         else Inr (if verdict = Some OPEN then W_FAILED_OPEN else W_RECONNECTING))
      else (case map_of worker_TRANSITIONS (st, ac) of
              Some t \<Rightarrow> Inr t
            | None \<Rightarrow> Inl (IllegalWorkerStateTransitionError st ac)))"

definition worker_is_legal :: "worker_state \<Rightarrow> worker_action \<Rightarrow> bool" where
  "worker_is_legal st ac \<longleftrightarrow>
     (if ac = RECONNECT then st = W_RECONNECTING else (st, ac) \<in> set (map fst worker_TRANSITIONS))"

definition worker_legal_actions :: "worker_state \<Rightarrow> worker_action set" where
  "worker_legal_actions st =
     set (map (\<lambda>((s, a), t). a) (filter (\<lambda>((s, a), t). s = st) worker_TRANSITIONS)) \<union>
     (if st = W_RECONNECTING then {RECONNECT} else {})"

record progress_snapshot =
  ps_bitrate_kbps :: pyfloat
  ps_fps :: pyfloat
  ps_drop_frames :: int
  ps_speed :: pyfloat
  ps_at :: datetime

record worker_snapshot =
  ws_role :: worker_role
  ws_state :: worker_state
  ws_last_event_at :: datetime
  ws_last_error :: "pystr option"
  ws_breaker_failures_in_window :: int
  ws_last_progress :: "progress_snapshot option"

section \<open>Reading the table\<close>

lemma worker_transition_simps [simp]:
  "worker_transition W_IDLE a v =
     (if a = W_START then Inr W_STARTING else Inl (IllegalWorkerStateTransitionError W_IDLE a))"
  "worker_transition W_STARTING a v =
     (case a of PROCESS_HEALTHY \<Rightarrow> Inr W_RUNNING | PROCESS_EXITED \<Rightarrow> Inr W_RECONNECTING
      | W_STOP_REQUESTED \<Rightarrow> Inr W_STOPPING | _ \<Rightarrow> Inl (IllegalWorkerStateTransitionError W_STARTING a))"
  "worker_transition W_RUNNING a v =
     (case a of PROCESS_EXITED \<Rightarrow> Inr W_RECONNECTING
      | W_STOP_REQUESTED \<Rightarrow> Inr W_STOPPING | _ \<Rightarrow> Inl (IllegalWorkerStateTransitionError W_RUNNING a))"
  "worker_transition W_RECONNECTING a v =
     (case a of PROCESS_HEALTHY \<Rightarrow> Inr W_RUNNING | W_STOP_REQUESTED \<Rightarrow> Inr W_STOPPING
      | RECONNECT \<Rightarrow> (case v of None \<Rightarrow> Inl (IllegalWorkerStateTransitionError W_RECONNECTING a)
          | Some OPEN \<Rightarrow> Inr W_FAILED_OPEN | Some CLOSED \<Rightarrow> Inr W_RECONNECTING)
      | _ \<Rightarrow> Inl (IllegalWorkerStateTransitionError W_RECONNECTING a))"
  "worker_transition W_FAILED_OPEN a v =
     (case a of USER_RESET \<Rightarrow> Inr W_STARTING
      | W_STOP_REQUESTED \<Rightarrow> Inr W_STOPPING | _ \<Rightarrow> Inl (IllegalWorkerStateTransitionError W_FAILED_OPEN a))"
  "worker_transition W_STOPPING a v =
     (if a = STOPPED then Inr W_IDLE else Inl (IllegalWorkerStateTransitionError W_STOPPING a))"
  by (cases a; simp add: worker_transition_def worker_TRANSITIONS_def split: option.split breaker_verdict.split)+

lemma worker_is_legal_iff:
  "worker_is_legal st ac \<longleftrightarrow> (\<exists>v t. worker_transition st ac v = Inr t)"
proof -
  have "worker_is_legal st ac \<longleftrightarrow> (\<exists>t. worker_transition st ac (Some CLOSED) = Inr t)"
    by (cases st; cases ac; simp add: worker_is_legal_def worker_TRANSITIONS_def)
  moreover have "worker_transition st ac v = Inr t \<Longrightarrow> worker_is_legal st ac" for v t
    by (cases st; cases ac; simp add: worker_is_legal_def worker_TRANSITIONS_def)
  ultimately show ?thesis by blast
qed

lemma worker_legal_actions_iff: "ac \<in> worker_legal_actions st \<longleftrightarrow> worker_is_legal st ac"
  by (cases st; cases ac; simp add: worker_is_legal_def worker_legal_actions_def worker_TRANSITIONS_def)

text \<open>The legality check of the worker machine says exactly whether some
  verdict makes the transition succeed; the one pair it accepts that can still be refused is
  RECONNECT without a verdict, and every refusal carries its state and action.\<close>

theorem worker_readers_agree:
  "(ac \<in> worker_legal_actions st) = worker_is_legal st ac \<and>
   worker_is_legal st ac = (\<exists>v t. worker_transition st ac v = Inr t) \<and>
   (\<exists>t. worker_transition st ac v = Inr t) =
     (worker_is_legal st ac \<and> \<not> (ac = RECONNECT \<and> v = None)) \<and>
   (\<exists>e. worker_transition st ac v = Inl e) =
     (worker_transition st ac v = Inl (IllegalWorkerStateTransitionError st ac))"
proof (intro conjI)
  show "(ac \<in> worker_legal_actions st) = worker_is_legal st ac"
    by (rule worker_legal_actions_iff)
  show "worker_is_legal st ac = (\<exists>v t. worker_transition st ac v = Inr t)"
    by (rule worker_is_legal_iff)
  show "(\<exists>t. worker_transition st ac v = Inr t) =
      (worker_is_legal st ac \<and> \<not> (ac = RECONNECT \<and> v = None))"
    by (cases st; cases ac; cases v; auto simp: worker_is_legal_def worker_TRANSITIONS_def
        split: breaker_verdict.split)
  show "(\<exists>e. worker_transition st ac v = Inl e) =
      (worker_transition st ac v = Inl (IllegalWorkerStateTransitionError st ac))"
    by (cases st; cases ac; cases v; auto split: breaker_verdict.splits)
qed

section \<open>Runs\<close>

text \<open>An action with the verdict it is called with.\<close>

type_synonym worker_call = "worker_action \<times> breaker_verdict option"

definition worker_step :: "worker_state \<Rightarrow> worker_call \<Rightarrow> worker_state option" where
  "worker_step st c = (case worker_transition st (fst c) (snd c) of Inl _ \<Rightarrow> None | Inr t \<Rightarrow> Some t)"

fun worker_actions :: "worker_state \<Rightarrow> worker_call list \<Rightarrow> worker_state option" where
  "worker_actions st [] = Some st"
| "worker_actions st (c # cs) =
     (case worker_step st c of None \<Rightarrow> None | Some t \<Rightarrow> worker_actions t cs)"

interpretation wsm: step_machine worker_step worker_actions
  by unfold_locales auto

lemma worker_step_into_FAILED_OPEN:
  "worker_step st c = Some W_FAILED_OPEN \<Longrightarrow> st = W_RECONNECTING \<and> c = (RECONNECT, Some OPEN)"
  by (cases st; cases c; cases "fst c"; auto simp: worker_step_def split: option.splits breaker_verdict.splits)

lemma worker_step_out_of_FAILED_OPEN:
  "worker_step W_FAILED_OPEN c = Some t \<Longrightarrow>
    (fst c = USER_RESET \<and> t = W_STARTING) \<or> (fst c = W_STOP_REQUESTED \<and> t = W_STOPPING)"
  by (cases c; cases "fst c"; auto simp: worker_step_def)

text \<open>A worker that was not failed open and now is got there by
  a RECONNECT with verdict OPEN from RECONNECTING, and it leaves only by a user reset or a stop.\<close>

theorem worker_failed_open_needs_verdict:
  assumes "worker_actions W_IDLE cs = Some W_FAILED_OPEN"
  shows "(RECONNECT, Some OPEN) \<in> set cs \<and>
    (\<forall>c t. worker_step W_FAILED_OPEN c = Some t \<longrightarrow> fst c = USER_RESET \<or> fst c = W_STOP_REQUESTED)"
proof -
  obtain xs c ys u where "cs = xs @ c # ys" "worker_step u c = Some W_FAILED_OPEN"
    using wsm.run_crosses [OF assms, of "\<lambda>s. s = W_FAILED_OPEN"] by auto
  then have "(RECONNECT, Some OPEN) \<in> set cs"
    using worker_step_into_FAILED_OPEN by fastforce
  then show ?thesis using worker_step_out_of_FAILED_OPEN by blast
qed

theorem worker_failed_open_needs_verdict_witness:
  "(RECONNECT, Some OPEN) \<in> set [(W_START, None), (PROCESS_EXITED, None), (RECONNECT, Some OPEN)]"
proof -
  have h: "worker_actions W_IDLE [(W_START, None), (PROCESS_EXITED, None), (RECONNECT, Some OPEN)] = Some W_FAILED_OPEN"
    by (simp add: worker_step_def)
  show ?thesis using worker_failed_open_needs_verdict [OF h] by blast
qed

text \<open>Every state but IDLE and STOPPING accepts a stop, and a stop then drains to IDLE.\<close>

lemma worker_stop_path:
  "st \<noteq> W_IDLE \<Longrightarrow> st \<noteq> W_STOPPING \<Longrightarrow>
    worker_actions st [(W_STOP_REQUESTED, None), (STOPPED, None)] = Some W_IDLE"
  by (cases st; simp add: worker_step_def)

end
