(* ===== verification/Target_Model.thy ===== *)
theory Target_Model
  imports Worker_State
begin

text \<open>
  The target aggregate: the platform catalogue (\<^verbatim>\<open>app/domain/target_types.py\<close>,
  \<^verbatim>\<open>app/domain/credential_policy.py\<close>), the \<^verbatim>\<open>Target\<close> value with its worker snapshots and the
  dashboard state ladder (\<^verbatim>\<open>app/domain/target.py\<close>), and the health aggregation
  (\<^verbatim>\<open>app/domain/health.py\<close>). A frozen set of roles is a set; a dictionary of snapshots is a map
  from roles.
\<close>

section \<open>Target types and credential lifetimes\<close>

datatype target_type = TWITCH | YOUTUBE | KICK | VK_LIVE | CUSTOM

datatype credential_lifetime = PERSISTENT | PER_SESSION | REFRESH_TOKEN

datatype form_field = F_URL | F_LABEL | F_STREAM_KEY | F_BACKUP | F_REGION

fun target_type_value :: "target_type \<Rightarrow> pystr" where
  "target_type_value TWITCH = ''twitch''"
| "target_type_value YOUTUBE = ''youtube''"
| "target_type_value KICK = ''kick''"
| "target_type_value VK_LIVE = ''vk_live''"
| "target_type_value CUSTOM = ''custom''"

fun lifetime_value :: "credential_lifetime \<Rightarrow> pystr" where
  "lifetime_value PERSISTENT = ''persistent''"
| "lifetime_value PER_SESSION = ''per_session''"
| "lifetime_value REFRESH_TOKEN = ''refresh_token''"

text \<open>\<^verbatim>\<open>TargetType(value)\<close>: the enum's constructor from a string, \<open>None\<close> where Python raises
  \<^verbatim>\<open>ValueError\<close>.\<close>

definition parse_target_type :: "pystr \<Rightarrow> target_type option" where
  "parse_target_type s = find (\<lambda>t. target_type_value t = s) [TWITCH, YOUTUBE, KICK, VK_LIVE, CUSTOM]"

record target_type_spec =
  sp_type :: target_type
  sp_display_label :: pystr
  sp_default_url :: pystr
  sp_backup_supported :: bool
  sp_credential_lifetime :: credential_lifetime
  sp_settings_fields :: "form_field set"
  sp_notes :: pystr

fun spec_for :: "target_type \<Rightarrow> target_type_spec" where
  "spec_for TWITCH = \<lparr>sp_type = TWITCH, sp_display_label = ''Twitch'',
     sp_default_url = ''rtmp://live.twitch.tv/app'', sp_backup_supported = False,
     sp_credential_lifetime = PERSISTENT,
     sp_settings_fields = {F_URL, F_LABEL, F_STREAM_KEY, F_REGION},
     sp_notes = ''H.264 only, up to 6000 kbps video, 2 s keyframe interval.''\<rparr>"
| "spec_for YOUTUBE = \<lparr>sp_type = YOUTUBE, sp_display_label = ''YouTube Live'',
     sp_default_url = ''rtmps://a.rtmps.youtube.com:443/live2'', sp_backup_supported = True,
     sp_credential_lifetime = PERSISTENT,
     sp_settings_fields = {F_URL, F_LABEL, F_STREAM_KEY, F_BACKUP},
     sp_notes = ''Backup ingest at rtmps://b.rtmps.youtube.com:443/live2 with the same key. When enabled we run two workers concurrently (hot failover).''\<rparr>"
| "spec_for KICK = \<lparr>sp_type = KICK, sp_display_label = ''Kick'',
     sp_default_url = ''rtmps://fa723fc1b171.global-contribute.live-video.net:443/app'',
     sp_backup_supported = False, sp_credential_lifetime = PERSISTENT,
     sp_settings_fields = {F_URL, F_LABEL, F_STREAM_KEY},
     sp_notes = ''Hosted on AWS IVS; the unbranded hostname is the official endpoint.''\<rparr>"
| "spec_for VK_LIVE = \<lparr>sp_type = VK_LIVE, sp_display_label = ''VK Video Live'',
     sp_default_url = ''rtmp://ovsu.okcdn.ru/input/'', sp_backup_supported = False,
     sp_credential_lifetime = PER_SESSION,
     sp_settings_fields = {F_URL, F_LABEL},
     sp_notes = ''VK requires a fresh stream key per broadcast. Paste it on the Dashboard before pressing START.''\<rparr>"
| "spec_for CUSTOM = \<lparr>sp_type = CUSTOM, sp_display_label = ''Custom RTMP'',
     sp_default_url = '''', sp_backup_supported = False,
     sp_credential_lifetime = PERSISTENT,
     sp_settings_fields = {F_URL, F_LABEL, F_STREAM_KEY},
     sp_notes = ''Any RTMP/RTMPS endpoint. URL and key are your responsibility.''\<rparr>"

definition lifetime_for :: "target_type \<Rightarrow> credential_lifetime" where
  "lifetime_for ty = sp_credential_lifetime (spec_for ty)"

lemma lifetime_for_simps [simp]:
  "lifetime_for ty = (if ty = VK_LIVE then PER_SESSION else PERSISTENT)"
  by (cases ty) (simp_all add: lifetime_for_def)

lemma parse_target_type_value [simp]: "parse_target_type (target_type_value t) = Some t"
  by (cases t) (simp_all add: parse_target_type_def)

lemma parse_target_type_Some: "parse_target_type s = Some t \<longleftrightarrow> s = target_type_value t"
proof
  assume "parse_target_type s = Some t"
  then show "s = target_type_value t"
    by (auto simp: parse_target_type_def split: if_splits)
qed simp

text \<open>Every entry of the catalogue is filed under its own type; the backup
  control is offered exactly for the types that support a backup ingest, and the stream-key
  control exactly for the types whose credential outlives a session.\<close>

theorem catalogue_consistent:
  "sp_type (spec_for ty) = ty \<and>
   (F_BACKUP \<in> sp_settings_fields (spec_for ty)) = sp_backup_supported (spec_for ty) \<and>
   (F_STREAM_KEY \<in> sp_settings_fields (spec_for ty)) = (lifetime_for ty \<noteq> PER_SESSION)"
  by (cases ty) simp_all

section \<open>The target aggregate\<close>

record target =
  tg_id :: pystr
  tg_type :: target_type
  tg_label :: pystr
  tg_url :: pystr
  tg_enabled :: bool
  tg_backup_enabled :: bool
  tg_has_active_credential :: bool
  tg_snapshots :: "worker_role \<Rightarrow> worker_snapshot option"

definition worker_set_role :: "target \<Rightarrow> worker_role \<Rightarrow> worker_snapshot option" where
  "worker_set_role t r = tg_snapshots t r"

definition ingest_snapshot :: "target \<Rightarrow> worker_snapshot \<Rightarrow> target" where
  "ingest_snapshot t s = t\<lparr>tg_snapshots := (tg_snapshots t)(ws_role s \<mapsto> s)\<rparr>"

definition expected_worker_roles :: "target \<Rightarrow> worker_role set" where
  "expected_worker_roles t =
     (if tg_type t = YOUTUBE \<and> tg_backup_enabled t then {PRIMARY, BACKUP} else {PRIMARY})"

definition credentials_satisfied :: "target \<Rightarrow> bool" where
  "credentials_satisfied t = tg_has_active_credential t"

datatype target_ui_state =
  UI_DISABLED | UI_DISABLED_MISCONFIGURED | UI_IDLE | UI_STARTING | UI_RUNNING | UI_DEGRADED
| UI_ERRORED | UI_FAILED_OPEN

fun ui_state_value :: "target_ui_state \<Rightarrow> pystr" where
  "ui_state_value UI_DISABLED = ''disabled''"
| "ui_state_value UI_DISABLED_MISCONFIGURED = ''disabled_misconfigured''"
| "ui_state_value UI_IDLE = ''idle''"
| "ui_state_value UI_STARTING = ''starting''"
| "ui_state_value UI_RUNNING = ''running''"
| "ui_state_value UI_DEGRADED = ''degraded''"
| "ui_state_value UI_ERRORED = ''errored''"
| "ui_state_value UI_FAILED_OPEN = ''failed_open''"

text \<open>The state of a role: a missing snapshot counts as IDLE.\<close>

definition role_state :: "target \<Rightarrow> worker_role \<Rightarrow> worker_state" where
  "role_state t r = (case worker_set_role t r of None \<Rightarrow> W_IDLE | Some s \<Rightarrow> ws_state s)"

definition compute_ui_state :: "target \<Rightarrow> target_ui_state" where
  "compute_ui_state t =
     (if \<not> tg_enabled t then UI_DISABLED
      else if \<not> credentials_satisfied t then UI_DISABLED_MISCONFIGURED
      else (let expected = expected_worker_roles t
        in if \<forall>r\<in>expected. worker_set_role t r = None then UI_IDLE
           else if \<exists>r\<in>expected. role_state t r = W_FAILED_OPEN then UI_FAILED_OPEN
           else if \<exists>r\<in>expected. role_state t r = W_STARTING then UI_STARTING
           else (let healthy = {r \<in> expected. role_state t r = W_RUNNING}
             in if healthy = expected then UI_RUNNING
                else if tg_type t = YOUTUBE \<and> tg_backup_enabled t \<and> healthy \<noteq> {} then UI_DEGRADED
                else UI_ERRORED)))"

section \<open>Health aggregation\<close>

datatype health_level = HEALTHY | DEGRADED | UNHEALTHY

record target_health =
  th_level :: health_level
  th_healthy_roles :: "worker_role set"
  th_unhealthy_roles :: "worker_role set"

definition is_live :: "target_health \<Rightarrow> bool" where
  "is_live h \<longleftrightarrow> th_level h \<noteq> UNHEALTHY"

definition aggregate_target_health :: "target \<Rightarrow> target_health" where
  "aggregate_target_health t =
     (let expected = expected_worker_roles t;
          healthy = {r \<in> expected. \<exists>s. worker_set_role t r = Some s \<and> ws_state s = W_RUNNING};
          unhealthy = expected - healthy
      in \<lparr>th_level = (if healthy = {} then UNHEALTHY
                      else if healthy = expected then HEALTHY else DEGRADED),
          th_healthy_roles = healthy, th_unhealthy_roles = unhealthy\<rparr>)"

lemma role_state_RUNNING:
  "role_state t r = W_RUNNING \<longleftrightarrow> (\<exists>s. worker_set_role t r = Some s \<and> ws_state s = W_RUNNING)"
  by (auto simp: role_state_def split: option.splits)

lemma expected_nonempty [simp]: "expected_worker_roles t \<noteq> {}" "PRIMARY \<in> expected_worker_roles t"
  by (simp_all add: expected_worker_roles_def)

lemma healthy_roles_def2:
  "th_healthy_roles (aggregate_target_health t) = {r \<in> expected_worker_roles t. role_state t r = W_RUNNING}"
  by (simp add: aggregate_target_health_def role_state_RUNNING Let_def)

lemma level_healthy_iff:
  "th_level (aggregate_target_health t) = HEALTHY \<longleftrightarrow>
    (\<forall>r\<in>expected_worker_roles t. role_state t r = W_RUNNING)"
  by (auto simp: aggregate_target_health_def role_state_RUNNING Let_def)

lemma level_unhealthy_iff:
  "th_level (aggregate_target_health t) = UNHEALTHY \<longleftrightarrow>
    (\<forall>r\<in>expected_worker_roles t. role_state t r \<noteq> W_RUNNING)"
  by (auto simp: aggregate_target_health_def role_state_RUNNING Let_def)

lemma level_degraded_iff:
  "th_level (aggregate_target_health t) = DEGRADED \<longleftrightarrow>
    (\<exists>r\<in>expected_worker_roles t. role_state t r = W_RUNNING) \<and>
    (\<exists>r\<in>expected_worker_roles t. role_state t r \<noteq> W_RUNNING)"
  using level_healthy_iff [of t] level_unhealthy_iff [of t]
  by (cases "th_level (aggregate_target_health t)") auto

text \<open>The healthy and unhealthy roles split the expected roles; a target is live
  exactly when one of them runs, and only a YouTube target with its backup on can be degraded,
  with exactly one of the two workers running.\<close>

theorem health_partition:
  "th_healthy_roles (aggregate_target_health t) \<union> th_unhealthy_roles (aggregate_target_health t) =
     expected_worker_roles t \<and>
   th_healthy_roles (aggregate_target_health t) \<inter> th_unhealthy_roles (aggregate_target_health t) = {} \<and>
   is_live (aggregate_target_health t) = (\<exists>r\<in>expected_worker_roles t. role_state t r = W_RUNNING) \<and>
   (th_level (aggregate_target_health t) = DEGRADED) =
     (tg_type t = YOUTUBE \<and> tg_backup_enabled t \<and>
      (role_state t PRIMARY = W_RUNNING) \<noteq> (role_state t BACKUP = W_RUNNING))"
proof (intro conjI)
  show "is_live (aggregate_target_health t) = (\<exists>r\<in>expected_worker_roles t. role_state t r = W_RUNNING)"
    by (auto simp: is_live_def level_unhealthy_iff)
  show "(th_level (aggregate_target_health t) = DEGRADED) =
     (tg_type t = YOUTUBE \<and> tg_backup_enabled t \<and>
      (role_state t PRIMARY = W_RUNNING) \<noteq> (role_state t BACKUP = W_RUNNING))"
    by (auto simp: level_degraded_iff expected_worker_roles_def)
qed (auto simp: aggregate_target_health_def Let_def)

lemma None_IDLE: "worker_set_role t r = None \<Longrightarrow> role_state t r = W_IDLE"
  by (simp add: role_state_def)

lemma expected_pair:
  "tg_type t = YOUTUBE \<and> tg_backup_enabled t \<Longrightarrow> expected_worker_roles t = {PRIMARY, BACKUP}"
  by (simp add: expected_worker_roles_def)

lemma expected_single:
  "\<not> (tg_type t = YOUTUBE \<and> tg_backup_enabled t) \<Longrightarrow> expected_worker_roles t = {PRIMARY}"
  by (auto simp: expected_worker_roles_def)

text \<open>The ladder for a target with one worker, and with two.\<close>

lemma compute_ui_state_single:
  assumes "tg_enabled t" "tg_has_active_credential t" "\<not> (tg_type t = YOUTUBE \<and> tg_backup_enabled t)"
  shows "compute_ui_state t =
    (let p = role_state t PRIMARY
     in if worker_set_role t PRIMARY = None then UI_IDLE
        else if p = W_FAILED_OPEN then UI_FAILED_OPEN else if p = W_STARTING then UI_STARTING
        else if p = W_RUNNING then UI_RUNNING else UI_ERRORED)"
proof -
  have "({r. r = PRIMARY \<and> Q r} = {PRIMARY}) = Q PRIMARY" for Q by auto
  then show ?thesis
    using assms by (simp add: compute_ui_state_def credentials_satisfied_def expected_single Let_def)
qed

lemma compute_ui_state_pair:
  assumes "tg_enabled t" "tg_has_active_credential t" "tg_type t = YOUTUBE \<and> tg_backup_enabled t"
  shows "compute_ui_state t =
    (let p = role_state t PRIMARY; b = role_state t BACKUP
     in if worker_set_role t PRIMARY = None \<and> worker_set_role t BACKUP = None then UI_IDLE
        else if p = W_FAILED_OPEN \<or> b = W_FAILED_OPEN then UI_FAILED_OPEN
        else if p = W_STARTING \<or> b = W_STARTING then UI_STARTING
        else if p = W_RUNNING \<and> b = W_RUNNING then UI_RUNNING
        else if p = W_RUNNING \<or> b = W_RUNNING then UI_DEGRADED else UI_ERRORED)"
proof -
  have all_iff: "({r. (r = PRIMARY \<or> r = BACKUP) \<and> Q r} = {PRIMARY, BACKUP}) = (Q PRIMARY \<and> Q BACKUP)"
    and any_iff: "(\<exists>r. (r = PRIMARY \<or> r = BACKUP) \<and> Q r) = (Q PRIMARY \<or> Q BACKUP)"
    for Q by auto
  show ?thesis
    using assms by (simp add: compute_ui_state_def credentials_satisfied_def expected_pair Let_def all_iff any_iff)
qed

text \<open>For an enabled target with a credential the dashboard shows RUNNING
  exactly when it is healthy, and DEGRADED exactly when it is degraded and no expected worker is
  starting or failed open; IDLE and ERRORED are never shown for a live target.\<close>

theorem ui_state_matches_health:
  assumes "tg_enabled t" "tg_has_active_credential t"
  shows "(compute_ui_state t = UI_RUNNING) = (th_level (aggregate_target_health t) = HEALTHY) \<and>
    (compute_ui_state t = UI_DEGRADED) =
      (th_level (aggregate_target_health t) = DEGRADED \<and>
       (\<forall>r\<in>expected_worker_roles t. role_state t r \<noteq> W_STARTING \<and> role_state t r \<noteq> W_FAILED_OPEN)) \<and>
    (compute_ui_state t \<in> {UI_IDLE, UI_ERRORED} \<longrightarrow> \<not> is_live (aggregate_target_health t))"
proof (cases "tg_type t = YOUTUBE \<and> tg_backup_enabled t")
  case True
  show ?thesis
    unfolding is_live_def level_unhealthy_iff level_degraded_iff level_healthy_iff
      expected_pair [OF True] compute_ui_state_pair [OF assms True] Let_def
    using None_IDLE [of t PRIMARY] None_IDLE [of t BACKUP] by (auto split: if_splits)
next
  case False
  show ?thesis
    unfolding is_live_def level_unhealthy_iff level_degraded_iff level_healthy_iff
      expected_single [OF False] compute_ui_state_single [OF assms False] Let_def
    using None_IDLE [of t PRIMARY] by (auto split: if_splits)
qed

definition sample_snapshot :: "worker_role \<Rightarrow> worker_state \<Rightarrow> worker_snapshot" where
  "sample_snapshot r st = \<lparr>ws_role = r, ws_state = st, ws_last_event_at = 0, ws_last_error = None,
     ws_breaker_failures_in_window = 0, ws_last_progress = None\<rparr>"

definition sample_target :: target where
  "sample_target = \<lparr>tg_id = ''t1'', tg_type = YOUTUBE, tg_label = ''yt'',
     tg_url = ''rtmps://a.rtmps.youtube.com:443/live2'', tg_enabled = True, tg_backup_enabled = True,
     tg_has_active_credential = True,
     tg_snapshots = [PRIMARY \<mapsto> sample_snapshot PRIMARY W_RUNNING]\<rparr>"

theorem ui_state_matches_health_witness:
  "tg_enabled sample_target \<and> tg_has_active_credential sample_target \<and>
   (compute_ui_state sample_target = UI_RUNNING) = (th_level (aggregate_target_health sample_target) = HEALTHY)"
proof -
  have h: "tg_enabled sample_target" "tg_has_active_credential sample_target"
    by (simp_all add: sample_target_def)
  show ?thesis using h ui_state_matches_health [OF h] by blast
qed

lemma sample_target_degraded: "compute_ui_state sample_target = UI_DEGRADED"
  by (simp add: compute_ui_state_def sample_target_def sample_snapshot_def credentials_satisfied_def
      expected_worker_roles_def worker_set_role_def role_state_def Let_def)

text \<open>The first two rungs of the ladder and the frame of a snapshot.\<close>

lemma ui_state_disabled: "\<not> tg_enabled t \<Longrightarrow> compute_ui_state t = UI_DISABLED"
  by (simp add: compute_ui_state_def)

lemma ui_state_misconfigured:
  "tg_enabled t \<Longrightarrow> \<not> tg_has_active_credential t \<Longrightarrow> compute_ui_state t = UI_DISABLED_MISCONFIGURED"
  by (simp add: compute_ui_state_def credentials_satisfied_def)

lemma ingest_snapshot_role [simp]:
  "worker_set_role (ingest_snapshot t s) r = (if r = ws_role s then Some s else worker_set_role t r)"
  by (simp add: ingest_snapshot_def worker_set_role_def)

lemma ingest_snapshot_frame [simp]:
  "tg_id (ingest_snapshot t s) = tg_id t" "tg_type (ingest_snapshot t s) = tg_type t"
  "tg_enabled (ingest_snapshot t s) = tg_enabled t"
  "tg_backup_enabled (ingest_snapshot t s) = tg_backup_enabled t"
  "tg_has_active_credential (ingest_snapshot t s) = tg_has_active_credential t"
  "expected_worker_roles (ingest_snapshot t s) = expected_worker_roles t"
  by (simp_all add: ingest_snapshot_def expected_worker_roles_def)

end
