(* ===== verification/Database.thy ===== *)
theory Database
  imports Target_Model "HOL-Library.List_Lexorder"
begin

text \<open>
  The persistence layer: the tables of \<^verbatim>\<open>app/db/models.py\<close>, the time column type of
  \<^verbatim>\<open>app/db/types.py\<close>, the repositories of \<^verbatim>\<open>app/repositories/\<close> and the conversion to the domain in
  \<^verbatim>\<open>_converters.py\<close>. A table is the list of its rows in insertion order; a statement is a
  filter, an update of the matching rows, or a deletion. A JSON column holds its object (its text
  and the round trip are in \<open>Json_Columns\<close>). Fresh identifiers and the time of a
  call are arguments. An \<^verbatim>\<open>ORDER BY\<close> is a stable sort, so ties come in insertion order. The
  database file, transactions and the write-ahead log are not modelled: a repository call takes
  effect as a whole.
\<close>

section \<open>Columns and rows\<close>

datatype json = JNull | JBool bool | JInt int | JString pystr | JArray "json list" | JObject "(pystr \<times> json) list"

text \<open>\<^verbatim>\<open>UTCEpochSeconds\<close>: a bound time is truncated to whole seconds, and read back as such.\<close>

definition bind_seconds :: "datetime \<Rightarrow> int" where
  "bind_seconds t = (if t \<ge> 0 then t div 1000000 else - ((- t) div 1000000))"

definition result_time :: "int \<Rightarrow> datetime" where
  "result_time n = seconds n"

definition stored_time :: "datetime \<Rightarrow> datetime" where
  "stored_time t = result_time (bind_seconds t)"

record user_row =
  us_id :: pystr
  us_username :: pystr
  us_password_hash :: pystr
  us_created_at :: datetime
  us_last_login_at :: "datetime option"

record session_row =
  hs_token_hash :: bytes
  hs_user_id :: pystr
  hs_created_at :: datetime
  hs_expires_at :: datetime
  hs_last_seen_at :: datetime
  hs_user_agent :: "pystr option"
  hs_ip :: "pystr option"

record api_token_row =
  at_id :: pystr
  at_user_id :: pystr
  at_token_hash :: bytes
  at_label :: pystr
  at_created_at :: datetime
  at_last_used_at :: "datetime option"
  at_revoked_at :: "datetime option"

record target_row =
  tr_id :: pystr
  tr_type :: pystr
  tr_label :: pystr
  tr_url :: pystr
  tr_enabled :: bool
  tr_settings :: "(pystr \<times> json) list"
  tr_created_at :: datetime
  tr_updated_at :: datetime

record credential_row =
  cr_id :: pystr
  cr_target_id :: pystr
  cr_lifetime :: pystr
  cr_ciphertext :: bytes
  cr_nonce :: bytes
  cr_salt :: bytes
  cr_last4 :: pystr
  cr_created_at :: datetime
  cr_expires_at :: "datetime option"

record audit_row =
  al_id :: int
  al_at :: datetime
  al_event_type :: pystr
  al_actor :: "pystr option"
  al_target_id :: "pystr option"
  al_data :: "(pystr \<times> json) list"

record run_row =
  rh_id :: pystr
  rh_started_at :: datetime
  rh_ended_at :: "datetime option"
  rh_end_reason :: "pystr option"
  rh_notes :: "(pystr \<times> json) list"

record settings_row =
  se_first_run_complete :: bool
  se_idle_timeout_seconds :: int
  se_log_retention_days :: int
  se_ingest_key_current :: pystr
  se_ingest_key_previous :: "pystr option"
  se_ingest_key_rotated_at :: "datetime option"
  se_ingest_key_grace_until :: "datetime option"
  se_updated_at :: datetime

record system_row =
  sy_value_text :: "pystr option"
  sy_value_int :: "int option"
  sy_value_blob :: "bytes option"
  sy_updated_at :: datetime

record database =
  db_users :: "user_row list"
  db_sessions :: "session_row list"
  db_api_tokens :: "api_token_row list"
  db_targets :: "target_row list"
  db_credentials :: "credential_row list"
  db_audit_log :: "audit_row list"
  db_next_audit_id :: int
  db_history :: "run_row list"
  db_settings :: "settings_row option"
  db_system :: "pystr \<Rightarrow> system_row option"

datatype db_error = IntegrityError | DbValueError pystr | BadEndReason pystr | SettingsMissing

section \<open>Statements\<close>

definition update_where :: "('r \<Rightarrow> bool) \<Rightarrow> ('r \<Rightarrow> 'r) \<Rightarrow> 'r list \<Rightarrow> 'r list" where
  "update_where p f rows = map (\<lambda>r. if p r then f r else r) rows"

definition delete_where :: "('r \<Rightarrow> bool) \<Rightarrow> 'r list \<Rightarrow> 'r list" where
  "delete_where p rows = filter (\<lambda>r. \<not> p r) rows"

definition rowcount :: "('r \<Rightarrow> bool) \<Rightarrow> 'r list \<Rightarrow> int" where
  "rowcount p rows = int (length (filter p rows))"

definition one_or_none :: "('r \<Rightarrow> bool) \<Rightarrow> 'r list \<Rightarrow> 'r option" where
  "one_or_none p rows = find p rows"

lemma one_or_none_delete_key:
  "one_or_none (\<lambda>r. f r = j) (delete_where (\<lambda>r. f r = k) rows) =
    (if j = k then None else one_or_none (\<lambda>r. f r = j) rows)"
  unfolding one_or_none_def delete_where_def by (induction rows) auto

lemma set_delete_where [simp]: "set (delete_where p rows) = {r \<in> set rows. \<not> p r}"
  by (auto simp: delete_where_def)

lemma distinct_delete: "distinct (map f rows) \<Longrightarrow> distinct (map f (delete_where p rows))"
  by (simp add: delete_where_def distinct_map_filter)

lemma one_or_none_None: "one_or_none p rows = None \<longleftrightarrow> (\<forall>r\<in>set rows. \<not> p r)"
  unfolding one_or_none_def by (auto simp: find_None_iff)

lemma one_or_none_SomeD: "one_or_none p rows = Some r \<Longrightarrow> r \<in> set rows \<and> p r"
  unfolding one_or_none_def by (auto simp: find_Some_iff)

lemma one_or_none_snoc [simp]:
  "one_or_none p (rows @ [r]) = (case one_or_none p rows of Some x \<Rightarrow> Some x | None \<Rightarrow> if p r then Some r else None)"
  unfolding one_or_none_def by (induction rows) auto

lemma one_or_none_unique:
  "distinct (map f rows) \<Longrightarrow> r \<in> set rows \<Longrightarrow> one_or_none (\<lambda>x. f x = f r) rows = Some r"
  unfolding one_or_none_def by (induction rows) force+

section \<open>Users\<close>

definition user_by_username :: "database \<Rightarrow> pystr \<Rightarrow> user_row option" where
  "user_by_username d name = one_or_none (\<lambda>r. us_username r = name) (db_users d)"

definition user_by_id :: "database \<Rightarrow> pystr \<Rightarrow> user_row option" where
  "user_by_id d i = one_or_none (\<lambda>r. us_id r = i) (db_users d)"

definition create_user ::
    "pystr \<Rightarrow> pystr \<Rightarrow> pystr \<Rightarrow> datetime \<Rightarrow> database \<Rightarrow> db_error + user_row \<times> database" where
  "create_user new_id name phc now d =
     (if user_by_username d name \<noteq> None \<or> user_by_id d new_id \<noteq> None then Inl IntegrityError
      else (let row = \<lparr>us_id = new_id, us_username = name, us_password_hash = phc,
              us_created_at = now, us_last_login_at = None\<rparr>
        in Inr (row, d\<lparr>db_users := db_users d @ [row\<lparr>us_created_at := stored_time now\<rparr>]\<rparr>)))"

definition update_password_hash :: "pystr \<Rightarrow> pystr \<Rightarrow> database \<Rightarrow> database" where
  "update_password_hash uid phc d =
     d\<lparr>db_users := update_where (\<lambda>r. us_id r = uid) (\<lambda>r. r\<lparr>us_password_hash := phc\<rparr>) (db_users d)\<rparr>"

definition touch_last_login :: "pystr \<Rightarrow> datetime \<Rightarrow> database \<Rightarrow> database" where
  "touch_last_login uid t d =
     d\<lparr>db_users := update_where (\<lambda>r. us_id r = uid)
         (\<lambda>r. r\<lparr>us_last_login_at := Some (stored_time t)\<rparr>) (db_users d)\<rparr>"

section \<open>HTTP sessions\<close>

definition create_http_session ::
    "bytes \<Rightarrow> pystr \<Rightarrow> datetime \<Rightarrow> pystr option \<Rightarrow> pystr option \<Rightarrow> datetime \<Rightarrow> database \<Rightarrow>
     db_error + session_row \<times> database" where
  "create_http_session th uid expires ua ip now d =
     (if (\<exists>r\<in>set (db_sessions d). hs_token_hash r = th) \<or> user_by_id d uid = None then Inl IntegrityError
      else (let row = \<lparr>hs_token_hash = th, hs_user_id = uid, hs_created_at = now, hs_expires_at = expires,
              hs_last_seen_at = now, hs_user_agent = ua, hs_ip = ip\<rparr>
        in Inr (row, d\<lparr>db_sessions := db_sessions d @
             [row\<lparr>hs_created_at := stored_time now, hs_expires_at := stored_time expires,
                 hs_last_seen_at := stored_time now\<rparr>]\<rparr>)))"

definition session_by_hash :: "database \<Rightarrow> bytes \<Rightarrow> session_row option" where
  "session_by_hash d th = one_or_none (\<lambda>r. hs_token_hash r = th) (db_sessions d)"

definition touch_last_seen :: "bytes \<Rightarrow> datetime \<Rightarrow> database \<Rightarrow> database" where
  "touch_last_seen th t d =
     d\<lparr>db_sessions := update_where (\<lambda>r. hs_token_hash r = th)
         (\<lambda>r. r\<lparr>hs_last_seen_at := stored_time t\<rparr>) (db_sessions d)\<rparr>"

definition delete_session :: "bytes \<Rightarrow> database \<Rightarrow> database" where
  "delete_session th d = d\<lparr>db_sessions := delete_where (\<lambda>r. hs_token_hash r = th) (db_sessions d)\<rparr>"

definition delete_all_for_user :: "pystr \<Rightarrow> database \<Rightarrow> int \<times> database" where
  "delete_all_for_user uid d =
     (max 0 (rowcount (\<lambda>r. hs_user_id r = uid) (db_sessions d)),
      d\<lparr>db_sessions := delete_where (\<lambda>r. hs_user_id r = uid) (db_sessions d)\<rparr>)"

definition delete_expired :: "datetime \<Rightarrow> database \<Rightarrow> int \<times> database" where
  "delete_expired now d =
     (let p = (\<lambda>r. hs_expires_at r \<le> stored_time now)
      in (max 0 (rowcount p (db_sessions d)), d\<lparr>db_sessions := delete_where p (db_sessions d)\<rparr>))"

definition list_active_for_user :: "pystr \<Rightarrow> datetime \<Rightarrow> database \<Rightarrow> session_row list" where
  "list_active_for_user uid now d =
     sort_key (\<lambda>r. - hs_last_seen_at r)
       (filter (\<lambda>r. hs_user_id r = uid \<and> hs_expires_at r > stored_time now) (db_sessions d))"

definition delete_all_sessions :: "database \<Rightarrow> int \<times> database" where
  "delete_all_sessions d = (max 0 (int (length (db_sessions d))), d\<lparr>db_sessions := []\<rparr>)"

section \<open>API tokens\<close>

definition create_api_token ::
    "pystr \<Rightarrow> pystr \<Rightarrow> bytes \<Rightarrow> pystr \<Rightarrow> datetime \<Rightarrow> database \<Rightarrow> db_error + api_token_row \<times> database" where
  "create_api_token new_id uid th label now d =
     (if (\<exists>r\<in>set (db_api_tokens d). at_token_hash r = th \<or> at_id r = new_id) \<or> user_by_id d uid = None
      then Inl IntegrityError
      else (let row = \<lparr>at_id = new_id, at_user_id = uid, at_token_hash = th, at_label = label,
              at_created_at = now, at_last_used_at = None, at_revoked_at = None\<rparr>
        in Inr (row, d\<lparr>db_api_tokens := db_api_tokens d @ [row\<lparr>at_created_at := stored_time now\<rparr>]\<rparr>)))"

definition active_token_by_hash :: "database \<Rightarrow> bytes \<Rightarrow> api_token_row option" where
  "active_token_by_hash d th =
     one_or_none (\<lambda>r. at_token_hash r = th \<and> at_revoked_at r = None) (db_api_tokens d)"

definition touch_last_used :: "pystr \<Rightarrow> datetime \<Rightarrow> database \<Rightarrow> database" where
  "touch_last_used tid t d =
     d\<lparr>db_api_tokens := update_where (\<lambda>r. at_id r = tid)
         (\<lambda>r. r\<lparr>at_last_used_at := Some (stored_time t)\<rparr>) (db_api_tokens d)\<rparr>"

definition revoke_token :: "pystr \<Rightarrow> datetime \<Rightarrow> database \<Rightarrow> bool \<times> database" where
  "revoke_token tid t d =
     (let p = (\<lambda>r. at_id r = tid \<and> at_revoked_at r = None)
      in (rowcount p (db_api_tokens d) > 0,
          d\<lparr>db_api_tokens := update_where p (\<lambda>r. r\<lparr>at_revoked_at := Some (stored_time t)\<rparr>) (db_api_tokens d)\<rparr>))"

definition list_api_tokens :: "database \<Rightarrow> api_token_row list" where
  "list_api_tokens d = sort_key (\<lambda>r. - at_created_at r) (db_api_tokens d)"

definition delete_all_api_tokens :: "database \<Rightarrow> int \<times> database" where
  "delete_all_api_tokens d = (max 0 (int (length (db_api_tokens d))), d\<lparr>db_api_tokens := []\<rparr>)"

section \<open>Targets\<close>

definition target_by_id :: "database \<Rightarrow> pystr \<Rightarrow> target_row option" where
  "target_by_id d i = one_or_none (\<lambda>r. tr_id r = i) (db_targets d)"

definition create_target ::
    "pystr \<Rightarrow> pystr \<Rightarrow> pystr \<Rightarrow> pystr \<Rightarrow> bool \<Rightarrow> (pystr \<times> json) list \<Rightarrow> datetime \<Rightarrow> database \<Rightarrow>
     db_error + target_row \<times> database" where
  "create_target new_id ty label url en settings now d =
     (if target_by_id d new_id \<noteq> None then Inl IntegrityError
      else (let row = \<lparr>tr_id = new_id, tr_type = ty, tr_label = label, tr_url = url, tr_enabled = en,
              tr_settings = settings, tr_created_at = now, tr_updated_at = now\<rparr>
        in Inr (row, d\<lparr>db_targets := db_targets d @
             [row\<lparr>tr_created_at := stored_time now, tr_updated_at := stored_time now\<rparr>]\<rparr>)))"

definition list_targets :: "database \<Rightarrow> target_row list" where
  "list_targets d = sort_key tr_created_at (db_targets d)"

definition list_enabled_targets :: "database \<Rightarrow> target_row list" where
  "list_enabled_targets d = sort_key tr_created_at (filter tr_enabled (db_targets d))"

text \<open>A value of \<open>None\<close> leaves the column as it is.\<close>

definition or_keep :: "'a option \<Rightarrow> 'a \<Rightarrow> 'a" where
  "or_keep v old = (case v of None \<Rightarrow> old | Some x \<Rightarrow> x)"

definition update_target ::
    "pystr \<Rightarrow> pystr option \<Rightarrow> pystr option \<Rightarrow> bool option \<Rightarrow> (pystr \<times> json) list option \<Rightarrow> datetime \<Rightarrow>
     database \<Rightarrow> target_row option \<times> database" where
  "update_target tid label url en settings now d =
     (let d' = d\<lparr>db_targets := update_where (\<lambda>r. tr_id r = tid)
            (\<lambda>r. r\<lparr>tr_label := or_keep label (tr_label r), tr_url := or_keep url (tr_url r),
                   tr_enabled := or_keep en (tr_enabled r), tr_settings := or_keep settings (tr_settings r),
                   tr_updated_at := stored_time now\<rparr>) (db_targets d)\<rparr>
      in (target_by_id d' tid, d'))"

text \<open>Deleting a target cascades to its credential and clears it from the audit log.\<close>

definition delete_target :: "pystr \<Rightarrow> database \<Rightarrow> bool \<times> database" where
  "delete_target tid d =
     (rowcount (\<lambda>r. tr_id r = tid) (db_targets d) > 0,
      d\<lparr>db_targets := delete_where (\<lambda>r. tr_id r = tid) (db_targets d),
        db_credentials := delete_where (\<lambda>r. cr_target_id r = tid) (db_credentials d),
        db_audit_log := update_where (\<lambda>r. al_target_id r = Some tid)
          (\<lambda>r. r\<lparr>al_target_id := None\<rparr>) (db_audit_log d)\<rparr>)"

section \<open>Credentials\<close>

definition credential_for_target :: "database \<Rightarrow> pystr \<Rightarrow> credential_row option" where
  "credential_for_target d tid = one_or_none (\<lambda>r. cr_target_id r = tid) (db_credentials d)"

record credential_input =
  ci_id :: pystr
  ci_lifetime :: pystr
  ci_ciphertext :: bytes
  ci_nonce :: bytes
  ci_salt :: bytes
  ci_last4 :: pystr
  ci_expires_at :: "datetime option"
  ci_now :: datetime

definition credential_of :: "pystr \<Rightarrow> credential_input \<Rightarrow> credential_row" where
  "credential_of tid c = \<lparr>cr_id = ci_id c, cr_target_id = tid, cr_lifetime = ci_lifetime c,
     cr_ciphertext = ci_ciphertext c, cr_nonce = ci_nonce c, cr_salt = ci_salt c, cr_last4 = ci_last4 c,
     cr_created_at = stored_time (ci_now c), cr_expires_at = map_option stored_time (ci_expires_at c)\<rparr>"

lemma credential_of_target [simp]: "cr_target_id (credential_of tid c) = tid"
  by (simp add: credential_of_def)

definition replace_credential :: "pystr \<Rightarrow> credential_row \<Rightarrow> credential_row list \<Rightarrow> credential_row list" where
  "replace_credential tid row rows = delete_where (\<lambda>r. cr_target_id r = tid) rows @ [row]"

definition upsert_credential ::
    "pystr \<Rightarrow> credential_input \<Rightarrow> database \<Rightarrow> db_error + credential_row \<times> database" where
  "upsert_credential tid c d =
     (if length (ci_last4 c) > 4 then Inl (DbValueError ''last4 must be at most 4 characters'')
      else if target_by_id d tid = None \<or> (\<exists>r\<in>set (db_credentials d). cr_target_id r \<noteq> tid \<and> cr_id r = ci_id c)
      then Inl IntegrityError
      else Inr ((credential_of tid c)\<lparr>cr_created_at := ci_now c, cr_expires_at := ci_expires_at c\<rparr>,
        d\<lparr>db_credentials := replace_credential tid (credential_of tid c) (db_credentials d)\<rparr>))"

definition delete_credential_for_target :: "pystr \<Rightarrow> database \<Rightarrow> bool \<times> database" where
  "delete_credential_for_target tid d =
     (rowcount (\<lambda>r. cr_target_id r = tid) (db_credentials d) > 0,
      d\<lparr>db_credentials := delete_where (\<lambda>r. cr_target_id r = tid) (db_credentials d)\<rparr>)"

definition list_all_for_rewrap :: "database \<Rightarrow> credential_row list" where
  "list_all_for_rewrap d = sort_key (\<lambda>r. map (of_char :: char \<Rightarrow> nat) (cr_id r)) (db_credentials d)"

definition rewrap_credential :: "pystr \<Rightarrow> bytes \<Rightarrow> bytes \<Rightarrow> bytes \<Rightarrow> database \<Rightarrow> database" where
  "rewrap_credential cid ct nonce salt d =
     d\<lparr>db_credentials := update_where (\<lambda>r. cr_id r = cid)
         (\<lambda>r. r\<lparr>cr_ciphertext := ct, cr_nonce := nonce, cr_salt := salt\<rparr>) (db_credentials d)\<rparr>"

section \<open>Audit log\<close>

text \<open>The id column is AUTOINCREMENT: ids grow and are never reused. The checkpoint after the commit
  changes no row.\<close>

definition append_audit ::
    "pystr \<Rightarrow> pystr option \<Rightarrow> pystr option \<Rightarrow> (pystr \<times> json) list \<Rightarrow> datetime \<Rightarrow> database \<Rightarrow>
     db_error + audit_row \<times> database" where
  "append_audit event actor tid data t d =
     (if (case tid of None \<Rightarrow> False | Some i \<Rightarrow> target_by_id d i = None) then Inl IntegrityError
      else (let row = \<lparr>al_id = db_next_audit_id d, al_at = t, al_event_type = event, al_actor = actor,
              al_target_id = tid, al_data = data\<rparr>
        in Inr (row, d\<lparr>db_audit_log := db_audit_log d @ [row\<lparr>al_at := stored_time t\<rparr>],
             db_next_audit_id := db_next_audit_id d + 1\<rparr>)))"

definition recent_audit :: "int \<Rightarrow> database \<Rightarrow> db_error + audit_row list" where
  "recent_audit limit d =
     (if limit \<le> 0 then Inl (DbValueError ''limit must be positive'')
      else Inr (take (nat limit) (sort_key (\<lambda>r. - al_id r) (db_audit_log d))))"

definition audit_by_target :: "pystr \<Rightarrow> int \<Rightarrow> database \<Rightarrow> db_error + audit_row list" where
  "audit_by_target tid limit d =
     (if limit \<le> 0 then Inl (DbValueError ''limit must be positive'')
      else Inr (take (nat limit) (sort_key (\<lambda>r. - al_id r)
             (filter (\<lambda>r. al_target_id r = Some tid) (db_audit_log d)))))"

definition app_starts :: "int \<Rightarrow> database \<Rightarrow> db_error + datetime list" where
  "app_starts limit d =
     (if limit \<le> 0 then Inl (DbValueError ''limit must be positive'')
      else Inr (map al_at (take (nat limit) (sort_key (\<lambda>r. - al_id r)
             (filter (\<lambda>r. al_event_type r = ''app_started'') (db_audit_log d))))))"

section \<open>Run sessions\<close>

definition VALID_END_REASONS :: "pystr list" where
  "VALID_END_REASONS = [''normal'', ''user_stop'', ''control_plane_crash'', ''error'']"

definition history_start :: "pystr \<Rightarrow> (pystr \<times> json) list \<Rightarrow> datetime \<Rightarrow> database \<Rightarrow> db_error + run_row \<times> database" where
  "history_start new_id notes now d =
     (if \<exists>r\<in>set (db_history d). rh_id r = new_id then Inl IntegrityError
      else (let row = \<lparr>rh_id = new_id, rh_started_at = now, rh_ended_at = None, rh_end_reason = None,
              rh_notes = notes\<rparr>
        in Inr (row, d\<lparr>db_history := db_history d @ [row\<lparr>rh_started_at := stored_time now\<rparr>]\<rparr>)))"

definition history_get :: "database \<Rightarrow> pystr \<Rightarrow> run_row option" where
  "history_get d i = one_or_none (\<lambda>r. rh_id r = i) (db_history d)"

text \<open>\<^verbatim>\<open>dict.update\<close> on the notes: the patch wins.\<close>

definition history_end ::
    "pystr \<Rightarrow> pystr \<Rightarrow> datetime \<Rightarrow> (pystr \<times> json) list option \<Rightarrow> database \<Rightarrow>
     db_error + run_row option \<times> database" where
  "history_end i reason t patch d =
     (if reason \<notin> set VALID_END_REASONS then Inl (BadEndReason reason)
      else if patch \<noteq> None \<and> history_get d i = None then Inr (None, d)
      else (let d' = d\<lparr>db_history := update_where (\<lambda>r. rh_id r = i)
              (\<lambda>r. r\<lparr>rh_ended_at := Some (stored_time t), rh_end_reason := Some reason,
                     rh_notes := (case patch of None \<Rightarrow> rh_notes r
                                  | Some ps \<Rightarrow> foldl (\<lambda>ns (k, v). AList.update k v ns) (rh_notes r) ps)\<rparr>)
              (db_history d)\<rparr>
        in Inr (history_get d' i, d')))"

definition history_active :: "database \<Rightarrow> run_row option" where
  "history_active d =
     (case sort_key (\<lambda>r. - rh_started_at r) (filter (\<lambda>r. rh_ended_at r = None) (db_history d)) of
        [] \<Rightarrow> None | r # _ \<Rightarrow> Some r)"

definition history_recent :: "int \<Rightarrow> datetime option \<Rightarrow> database \<Rightarrow> db_error + run_row list" where
  "history_recent limit before d =
     (if limit \<le> 0 then Inl (DbValueError ''limit must be positive'')
      else Inr (take (nat limit) (sort_key (\<lambda>r. - rh_started_at r)
             (filter (\<lambda>r. case before of None \<Rightarrow> True | Some b \<Rightarrow> rh_started_at r < stored_time b)
               (db_history d)))))"

section \<open>Settings\<close>

definition settings_get :: "database \<Rightarrow> db_error + settings_row" where
  "settings_get d = (case db_settings d of None \<Rightarrow> Inl SettingsMissing | Some r \<Rightarrow> Inr r)"

definition settings_update ::
    "bool option \<Rightarrow> int option \<Rightarrow> int option \<Rightarrow> datetime \<Rightarrow> database \<Rightarrow> db_error + settings_row \<times> database" where
  "settings_update first_run idle retention now d =
     (if (case idle of None \<Rightarrow> False | Some n \<Rightarrow> n \<le> 0) then Inl (DbValueError ''idle_timeout_seconds must be positive'')
      else if (case retention of None \<Rightarrow> False | Some n \<Rightarrow> n \<le> 0) then Inl (DbValueError ''log_retention_days must be positive'')
      else case db_settings d of
        None \<Rightarrow> Inl SettingsMissing
      | Some r \<Rightarrow>
         (let r' = r\<lparr>se_first_run_complete := or_keep first_run (se_first_run_complete r),
                se_idle_timeout_seconds := or_keep idle (se_idle_timeout_seconds r),
                se_log_retention_days := or_keep retention (se_log_retention_days r),
                se_updated_at := stored_time now\<rparr>
          in Inr (r', d\<lparr>db_settings := Some r'\<rparr>)))"

definition rotate_ingest_key ::
    "pystr \<Rightarrow> datetime \<Rightarrow> datetime \<Rightarrow> database \<Rightarrow> db_error + settings_row \<times> database" where
  "rotate_ingest_key new_key grace_until now d =
     (case db_settings d of
        None \<Rightarrow> Inl SettingsMissing
      | Some r \<Rightarrow>
         (let r' = r\<lparr>se_ingest_key_previous := Some (se_ingest_key_current r),
                se_ingest_key_current := new_key, se_ingest_key_rotated_at := Some (stored_time now),
                se_ingest_key_grace_until := Some (stored_time grace_until),
                se_updated_at := stored_time now\<rparr>
          in Inr (r', d\<lparr>db_settings := Some r'\<rparr>)))"

section \<open>Conversion to the domain\<close>

text \<open>\<^verbatim>\<open>bool(value)\<close> of a JSON value. (The comment in the source promises that values that are not
  Booleans default to False; \<^verbatim>\<open>bool\<close> makes them True when they are not empty.)\<close>

fun truthy :: "json \<Rightarrow> bool" where
  "truthy JNull = False"
| "truthy (JBool b) = b"
| "truthy (JInt n) = (n \<noteq> 0)"
| "truthy (JString s) = (s \<noteq> [])"
| "truthy (JArray xs) = (xs \<noteq> [])"
| "truthy (JObject kvs) = (kvs \<noteq> [])"

definition target_dto_to_domain :: "target_row \<Rightarrow> credential_row option \<Rightarrow> target option" where
  "target_dto_to_domain t cred =
     (case parse_target_type (tr_type t) of
        None \<Rightarrow> None
      | Some ty \<Rightarrow> Some \<lparr>tg_id = tr_id t, tg_type = ty, tg_label = tr_label t, tg_url = tr_url t,
          tg_enabled = tr_enabled t,
          tg_backup_enabled = (case map_of (tr_settings t) ''backup_enabled'' of None \<Rightarrow> False | Some v \<Rightarrow> truthy v),
          tg_has_active_credential = (cred \<noteq> None), tg_snapshots = Map.empty\<rparr>)"

section \<open>One credential per target\<close>

text \<open>The credentials table is a store of rows under the target's id.\<close>

interpretation creds: keyed_store
  "\<lambda>rows tid. one_or_none (\<lambda>r. cr_target_id r = tid) rows" credential_of
  "\<lambda>tid c. replace_credential tid (credential_of tid c)" "\<lambda>tid. delete_where (\<lambda>r. cr_target_id r = tid)"
  "\<lambda>rows. distinct (map cr_target_id rows)"
  by unfold_locales
    (auto simp: replace_credential_def one_or_none_delete_key distinct_delete set_delete_where
      split: option.split)

text \<open>Storing a credential for a target leaves exactly one row for it,
  the new one, keeps every other target's credential, and touches no other table.\<close>

theorem credential_upsert_single:
  assumes "distinct (map cr_target_id (db_credentials d))" "upsert_credential tid c d = Inr (row, d')"
  shows "credential_for_target d' j = (if j = tid then Some (credential_of tid c) else credential_for_target d j) \<and>
    distinct (map cr_target_id (db_credentials d')) \<and> d' = d\<lparr>db_credentials := db_credentials d'\<rparr>"
proof -
  have d': "d' = d\<lparr>db_credentials := replace_credential tid (credential_of tid c) (db_credentials d)\<rparr>"
    using assms(2) by (auto simp: upsert_credential_def split: if_splits)
  show ?thesis
    using creds.lookup_insert [OF assms(1)] creds.wf_insert [OF assms(1)]
    by (simp add: d' credential_for_target_def)
qed

definition sample_db :: database where
  "sample_db = \<lparr>db_users = [\<lparr>us_id = ''u'', us_username = ''admin'', us_password_hash = ''h'',
       us_created_at = 0, us_last_login_at = None\<rparr>], db_sessions = [], db_api_tokens = [],
     db_targets = [\<lparr>tr_id = ''t1'', tr_type = ''twitch'', tr_label = ''main'',
       tr_url = ''rtmp://live.twitch.tv/app'', tr_enabled = True, tr_settings = [],
       tr_created_at = 0, tr_updated_at = 0\<rparr>],
     db_credentials = [], db_audit_log = [], db_next_audit_id = 1, db_history = [],
     db_settings = Some \<lparr>se_first_run_complete = True, se_idle_timeout_seconds = 600,
       se_log_retention_days = 14, se_ingest_key_current = ''k'', se_ingest_key_previous = None,
       se_ingest_key_rotated_at = None, se_ingest_key_grace_until = None, se_updated_at = 0\<rparr>,
     db_system = Map.empty\<rparr>"

definition sample_credential :: credential_input where
  "sample_credential = \<lparr>ci_id = ''c1'', ci_lifetime = ''persistent'', ci_ciphertext = ''x'',
     ci_nonce = ''n'', ci_salt = ''s'', ci_last4 = ''7F2A'', ci_expires_at = None, ci_now = 5\<rparr>"

theorem credential_upsert_single_witness:
  "\<exists>d'. credential_for_target d' ''t1'' = Some (credential_of ''t1'' sample_credential)"
proof -
  have h: "distinct (map cr_target_id (db_credentials sample_db))" by (simp add: sample_db_def)
  obtain row d' where u: "upsert_credential ''t1'' sample_credential sample_db = Inr (row, d')"
    by (simp add: upsert_credential_def sample_credential_def target_by_id_def sample_db_def one_or_none_def)
  show ?thesis using credential_upsert_single [OF h u, of "''t1''"] by auto
qed

text \<open>Re-wrapping changes the three sealed columns of one row and nothing else.\<close>

lemma rewrap_frame:
  "map cr_target_id (db_credentials (rewrap_credential cid ct n s d)) = map cr_target_id (db_credentials d)"
  "map cr_last4 (db_credentials (rewrap_credential cid ct n s d)) = map cr_last4 (db_credentials d)"
  "map cr_lifetime (db_credentials (rewrap_credential cid ct n s d)) = map cr_lifetime (db_credentials d)"
  "map cr_id (db_credentials (rewrap_credential cid ct n s d)) = map cr_id (db_credentials d)"
  by (simp_all add: rewrap_credential_def update_where_def)

section \<open>Expiry\<close>

lemma stored_time_bounds: "0 \<le> t \<Longrightarrow> stored_time t \<le> t \<and> t < stored_time t + seconds 1"
  by (simp add: stored_time_def result_time_def bind_seconds_def) presburger

lemma stored_time_mono: "0 \<le> s \<Longrightarrow> s \<le> t \<Longrightarrow> stored_time s \<le> stored_time t"
  by (simp add: stored_time_def result_time_def bind_seconds_def zdiv_mono1)

text \<open>Deleting expired sessions removes exactly the sessions that are past
  their stored expiry and reports their number; what a user is shown as active does not change.\<close>

theorem session_purge_exact:
  "set (db_sessions (snd (delete_expired now d))) = {r \<in> set (db_sessions d). stored_time now < hs_expires_at r} \<and>
   fst (delete_expired now d) + int (length (db_sessions (snd (delete_expired now d)))) =
     int (length (db_sessions d)) \<and>
   list_active_for_user uid now (snd (delete_expired now d)) = list_active_for_user uid now d"
proof (intro conjI)
  show "set (db_sessions (snd (delete_expired now d))) = {r \<in> set (db_sessions d). stored_time now < hs_expires_at r}"
    by (auto simp: delete_expired_def delete_where_def Let_def)
  show "fst (delete_expired now d) + int (length (db_sessions (snd (delete_expired now d)))) =
     int (length (db_sessions d))"
    using sum_length_filter_compl [of "\<lambda>r. hs_expires_at r \<le> stored_time now" "db_sessions d"]
    by (simp add: delete_expired_def delete_where_def rowcount_def Let_def flip: of_nat_add)
  have "filter (\<lambda>r. hs_user_id r = uid \<and> stored_time now < hs_expires_at r)
      (filter (\<lambda>r. \<not> hs_expires_at r \<le> stored_time now) (db_sessions d)) =
    filter (\<lambda>r. hs_user_id r = uid \<and> stored_time now < hs_expires_at r) (db_sessions d)"
    by (auto intro: filter_cong)
  then show "list_active_for_user uid now (snd (delete_expired now d)) = list_active_for_user uid now d"
    by (simp add: list_active_for_user_def delete_expired_def delete_where_def Let_def)
qed

lemma active_sessions_are_active:
  "r \<in> set (list_active_for_user uid now d) \<Longrightarrow>
    r \<in> set (db_sessions d) \<and> hs_user_id r = uid \<and> stored_time now < hs_expires_at r"
  by (simp add: list_active_for_user_def)

lemma active_sessions_newest_first:
  "sorted (map (\<lambda>r. - hs_last_seen_at r) (list_active_for_user uid now d))"
  by (simp add: list_active_for_user_def)

lemma delete_session_gone: "session_by_hash (delete_session th d) th = None"
  by (simp add: session_by_hash_def delete_session_def one_or_none_None)

lemma delete_all_for_user_gone:
  "\<forall>r\<in>set (db_sessions (snd (delete_all_for_user uid d))). hs_user_id r \<noteq> uid"
  by (simp add: delete_all_for_user_def delete_where_def)

text \<open>A revoked token is no longer found, and the second revocation reports no change.\<close>

lemma revoked_token_not_active:
  assumes "distinct (map at_token_hash (db_api_tokens d))" "active_token_by_hash d th = Some r"
  shows "active_token_by_hash (snd (revoke_token (at_id r) t d)) th = None"
proof -
  have r: "r \<in> set (db_api_tokens d)" "at_token_hash r = th"
    using one_or_none_SomeD assms(2) by (fastforce simp: active_token_by_hash_def)+
  have "x = r" if "x \<in> set (db_api_tokens d)" "at_token_hash x = th" for x
    using that r assms(1) by (auto simp: distinct_map inj_on_def)
  then show ?thesis
    by (auto simp: active_token_by_hash_def revoke_token_def update_where_def one_or_none_None Let_def)
qed

lemma revoke_twice: "fst (revoke_token tid t2 (snd (revoke_token tid t1 d))) = False"
  by (auto simp: revoke_token_def rowcount_def update_where_def filter_empty_conv Let_def)

section \<open>The audit log only grows\<close>

lemma sort_key_snoc_first:
  "\<forall>x\<in>set xs. f r < f x \<Longrightarrow> sort_key f (xs @ [r]) = r # sort_key f xs"
  by (induction xs) auto

definition audit_ok :: "database \<Rightarrow> bool" where
  "audit_ok d \<longleftrightarrow> sorted_wrt (<) (map al_id (db_audit_log d)) \<and>
     (\<forall>r\<in>set (db_audit_log d). al_id r < db_next_audit_id d)"

text \<open>Appending keeps every earlier entry as it is and adds one with a larger id
  than any before; the newest-first listing then starts with it.\<close>

theorem audit_append_only:
  assumes "audit_ok d" "append_audit event actor tid data t d = Inr (row, d')"
  shows "db_audit_log d' = db_audit_log d @ [row\<lparr>al_at := stored_time t\<rparr>] \<and> audit_ok d' \<and>
    recent_audit 1 d' = Inr [row\<lparr>al_at := stored_time t\<rparr>]"
proof -
  have log: "db_audit_log d' = db_audit_log d @ [row\<lparr>al_at := stored_time t\<rparr>]"
    and i: "al_id row = db_next_audit_id d" "db_next_audit_id d' = db_next_audit_id d + 1"
    using assms(2) by (auto simp: append_audit_def Let_def split: if_splits)
  let ?xs = "db_audit_log d" and ?r = "row\<lparr>al_at := stored_time t\<rparr>"
  have lt: "\<forall>x\<in>set ?xs. al_id x < al_id ?r" using assms(1) i by (simp add: audit_ok_def)
  have ok: "audit_ok d'"
    using assms(1) log i lt by (fastforce simp: audit_ok_def sorted_wrt_append)
  have "sort_key (\<lambda>r. - al_id r) (?xs @ [?r]) = ?r # sort_key (\<lambda>r. - al_id r) ?xs"
    by (rule sort_key_snoc_first) (use lt in simp)
  then show ?thesis using log ok by (simp add: recent_audit_def)
qed

theorem audit_append_only_witness:
  "\<exists>row d'. append_audit ''login'' None None [] 7 sample_db = Inr (row, d') \<and>
    recent_audit 1 d' = Inr [row\<lparr>al_at := stored_time 7\<rparr>]"
proof -
  have h: "audit_ok sample_db" by (simp add: audit_ok_def sample_db_def)
  obtain row d' where u: "append_audit ''login'' None None [] 7 sample_db = Inr (row, d')"
    by (simp add: append_audit_def Let_def)
  show ?thesis using audit_append_only [OF h u] u by blast
qed

end
