(* ===== verification/Crypto.thy ===== *)
theory Crypto
  imports Interfaces
begin

text \<open>
  Encryption and keys: \<^verbatim>\<open>app/crypto/aead.py\<close>, \<^verbatim>\<open>app/crypto/kdf.py\<close>, \<^verbatim>\<open>app/crypto/passwords.py\<close> and
  the key service of \<^verbatim>\<open>app/auth/key_material.py\<close>. The primitives of the libraries (AES-GCM, Argon2id,
  HKDF, HMAC, the password hasher) are not under \<^verbatim>\<open>src/\<close>; they are the fields of \<open>crypto_lib\<close>, an
  argument of the definitions that use them. Random bytes are arguments. What the code relies on is
  the hypothesis \<open>aead_correct\<close>: decrypting what was encrypted under the same key, nonce and
  associated data gives the plaintext, and a ciphertext is a tag's length longer.
\<close>

section \<open>The libraries\<close>

record crypto_lib =
  aesgcm_encrypt :: "bytes \<Rightarrow> bytes \<Rightarrow> bytes \<Rightarrow> bytes \<Rightarrow> bytes"
  aesgcm_decrypt :: "bytes \<Rightarrow> bytes \<Rightarrow> bytes \<Rightarrow> bytes \<Rightarrow> bytes option"
  argon2id :: "bytes \<Rightarrow> bytes \<Rightarrow> bytes"
  hkdf_sha256 :: "bytes \<Rightarrow> bytes \<Rightarrow> bytes"
  hmac_sha256 :: "bytes \<Rightarrow> bytes \<Rightarrow> bytes"
  phc_hash :: "pystr \<Rightarrow> bytes \<Rightarrow> pystr"
  phc_verify :: "pystr \<Rightarrow> pystr \<Rightarrow> bool"
  phc_needs_rehash :: "pystr \<Rightarrow> bool"

definition aead_correct :: "crypto_lib \<Rightarrow> bool" where
  "aead_correct L \<longleftrightarrow>
     (\<forall>k n p a. aesgcm_decrypt L k n (aesgcm_encrypt L k n p a) a = Some p \<and>
        length (aesgcm_encrypt L k n p a) = length p + 16)"

definition kdf_lengths :: "crypto_lib \<Rightarrow> bool" where
  "kdf_lengths L \<longleftrightarrow> (\<forall>p s. length (argon2id L p s) = 32) \<and> (\<forall>k i. length (hkdf_sha256 L k i) = 32)"

section \<open>Authenticated encryption\<close>

definition AEAD_NONCE_LENGTH :: nat where
  "AEAD_NONCE_LENGTH = 12"

definition GCM_TAG_LENGTH :: nat where
  "GCM_TAG_LENGTH = 16"

definition DERIVED_KEY_LENGTH :: nat where
  "DERIVED_KEY_LENGTH = 32"

definition KDF_SALT_LENGTH :: nat where
  "KDF_SALT_LENGTH = 16"

definition AAD_CREDENTIAL_STREAM_KEY_V1 :: bytes where
  "AAD_CREDENTIAL_STREAM_KEY_V1 = ''credential:stream_key:v1''"

datatype crypto_error = BadLength | AEADDecryptionError | EmptySecret | DecodeError

definition build_credential_aad :: "bytes \<Rightarrow> crypto_error + bytes" where
  "build_credential_aad salt =
     (if length salt \<noteq> KDF_SALT_LENGTH then Inl BadLength
      else Inr (AAD_CREDENTIAL_STREAM_KEY_V1 @ salt))"

definition aead_encrypt ::
    "crypto_lib \<Rightarrow> bytes \<Rightarrow> bytes \<Rightarrow> bytes \<Rightarrow> bytes \<Rightarrow> crypto_error + bytes \<times> bytes" where
  "aead_encrypt L nonce key plaintext aad =
     (if length key \<noteq> DERIVED_KEY_LENGTH then Inl BadLength
      else Inr (nonce, aesgcm_encrypt L key nonce plaintext aad))"

definition aead_decrypt ::
    "crypto_lib \<Rightarrow> bytes \<Rightarrow> bytes \<Rightarrow> bytes \<Rightarrow> bytes \<Rightarrow> crypto_error + bytes" where
  "aead_decrypt L key nonce ciphertext aad =
     (if length key \<noteq> DERIVED_KEY_LENGTH then Inl BadLength
      else if length nonce \<noteq> AEAD_NONCE_LENGTH then Inl BadLength
      else if length ciphertext < GCM_TAG_LENGTH then Inl BadLength
      else (case aesgcm_decrypt L key nonce ciphertext aad of
              None \<Rightarrow> Inl AEADDecryptionError | Some p \<Rightarrow> Inr p))"

section \<open>Key derivation\<close>

definition HKDF_INFO_STREAM_KEY :: bytes where
  "HKDF_INFO_STREAM_KEY = ''stream-key-wrap-v1''"

definition HKDF_INFO_API_TOKEN_MAC :: bytes where
  "HKDF_INFO_API_TOKEN_MAC = ''api-token-mac-v1''"

definition HKDF_INFO_SESSION_TOKEN_MAC :: bytes where
  "HKDF_INFO_SESSION_TOKEN_MAC = ''session-token-mac-v1''"

definition derive_root_key :: "crypto_lib \<Rightarrow> bytes \<Rightarrow> bytes \<Rightarrow> crypto_error + bytes" where
  "derive_root_key L passphrase salt =
     (if length salt \<noteq> KDF_SALT_LENGTH then Inl BadLength
      else if passphrase = [] then Inl EmptySecret
      else Inr (argon2id L passphrase salt))"

definition derive_subkey :: "crypto_lib \<Rightarrow> bytes \<Rightarrow> bytes \<Rightarrow> crypto_error + bytes" where
  "derive_subkey L root_key info =
     (if length root_key \<noteq> DERIVED_KEY_LENGTH then Inl BadLength
      else if info = [] then Inl EmptySecret
      else Inr (hkdf_sha256 L root_key info))"

section \<open>Admin passwords\<close>

record password_result =
  pv_ok :: bool
  pv_needs_rehash :: bool

definition hash_password :: "crypto_lib \<Rightarrow> bytes \<Rightarrow> pystr \<Rightarrow> crypto_error + pystr" where
  "hash_password L salt password = (if password = [] then Inl EmptySecret else Inr (phc_hash L password salt))"

definition verify_password :: "crypto_lib \<Rightarrow> pystr \<Rightarrow> pystr \<Rightarrow> password_result" where
  "verify_password L stored password =
     (if password = [] then \<lparr>pv_ok = False, pv_needs_rehash = False\<rparr>
      else if \<not> phc_verify L stored password then \<lparr>pv_ok = False, pv_needs_rehash = False\<rparr>
      else \<lparr>pv_ok = True, pv_needs_rehash = phc_needs_rehash L stored\<rparr>)"

section \<open>The key service\<close>

datatype key_material_state = LOCKED | UNLOCKING | READY

record derived_keys =
  dk_stream_key_kek :: bytes
  dk_api_token_mac_key :: bytes
  dk_session_token_mac_key :: bytes

record key_material =
  km_kdf_salt :: bytes
  km_state :: key_material_state
  km_keys :: "derived_keys option"

datatype key_error = ServiceLocked | KeyValueError | KeyDeriveError crypto_error | NotReady

definition new_key_material :: "bytes \<Rightarrow> key_error + key_material" where
  "new_key_material salt =
     (if length salt \<noteq> KDF_SALT_LENGTH then Inl KeyValueError
      else Inr \<lparr>km_kdf_salt = salt, km_state = LOCKED, km_keys = None\<rparr>)"

definition require_ready :: "key_material \<Rightarrow> key_error + derived_keys" where
  "require_ready k =
     (if km_state k \<noteq> READY then Inl ServiceLocked
      else (case km_keys k of None \<Rightarrow> Inl ServiceLocked | Some ds \<Rightarrow> Inr ds))"

definition derive_keys :: "crypto_lib \<Rightarrow> bytes \<Rightarrow> pystr \<Rightarrow> crypto_error + derived_keys" where
  "derive_keys L salt passphrase =
     (case derive_root_key L (utf8_encode passphrase) salt of
        Inl e \<Rightarrow> Inl e
      | Inr rk \<Rightarrow>
         (case derive_subkey L rk HKDF_INFO_STREAM_KEY of
            Inl e \<Rightarrow> Inl e
          | Inr kek \<Rightarrow>
             (case derive_subkey L rk HKDF_INFO_API_TOKEN_MAC of
                Inl e \<Rightarrow> Inl e
              | Inr api \<Rightarrow>
                 (case derive_subkey L rk HKDF_INFO_SESSION_TOKEN_MAC of
                    Inl e \<Rightarrow> Inl e
                  | Inr ses \<Rightarrow> Inr \<lparr>dk_stream_key_kek = kek, dk_api_token_mac_key = api,
                       dk_session_token_mac_key = ses\<rparr>))))"

text \<open>Unlocking suspends while the derivation runs in its thread: the part up to it, and the part
  after it with its outcome. The lock makes one unlock at a time run between the two.\<close>

datatype unlock_progress = UnlockRefused key_error | AlreadyReady | Deriving key_material

definition unlock_begin :: "key_material \<Rightarrow> pystr \<Rightarrow> unlock_progress" where
  "unlock_begin k passphrase =
     (if passphrase = [] then UnlockRefused KeyValueError
      else if km_state k = READY then AlreadyReady
      else Deriving (k\<lparr>km_state := UNLOCKING\<rparr>))"

definition unlock_finish :: "key_material \<Rightarrow> crypto_error + derived_keys \<Rightarrow> key_material \<times> key_error option" where
  "unlock_finish k r =
     (case r of
        Inl e \<Rightarrow> (k\<lparr>km_state := LOCKED\<rparr>, Some (KeyDeriveError e))
      | Inr ds \<Rightarrow> (k\<lparr>km_keys := Some ds, km_state := READY\<rparr>, None))"

definition unlock :: "crypto_lib \<Rightarrow> key_material \<Rightarrow> pystr \<Rightarrow> key_material \<times> key_error option" where
  "unlock L k passphrase =
     (case unlock_begin k passphrase of
        UnlockRefused e \<Rightarrow> (k, Some e)
      | AlreadyReady \<Rightarrow> (k, None)
      | Deriving k1 \<Rightarrow> unlock_finish k1 (derive_keys L (km_kdf_salt k1) passphrase))"

definition verify_passphrase :: "crypto_lib \<Rightarrow> key_material \<Rightarrow> pystr \<Rightarrow> key_error + bool" where
  "verify_passphrase L k passphrase =
     (if km_state k \<noteq> READY then Inr False
      else (case km_keys k of
              None \<Rightarrow> Inr False
            | Some held \<Rightarrow>
                if passphrase = [] then Inr False
                else (case derive_keys L (km_kdf_salt k) passphrase of
                        Inl e \<Rightarrow> Inl (KeyDeriveError e)
                      | Inr trial \<Rightarrow>
                          Inr (dk_stream_key_kek trial = dk_stream_key_kek held \<and>
                               dk_api_token_mac_key trial = dk_api_token_mac_key held \<and>
                               dk_session_token_mac_key trial = dk_session_token_mac_key held))))"

definition rotate_in_place :: "key_material \<Rightarrow> bytes \<Rightarrow> derived_keys \<Rightarrow> key_error + key_material" where
  "rotate_in_place k new_salt new_keys =
     (if km_state k \<noteq> READY then Inl NotReady
      else if length new_salt \<noteq> KDF_SALT_LENGTH then Inl KeyValueError
      else Inr (k\<lparr>km_kdf_salt := new_salt, km_keys := Some new_keys\<rparr>))"

text \<open>The salt file: \<open>None\<close> when it does not exist. The result is the salt and the file's content
  afterwards.\<close>

definition load_or_create_kdf_salt :: "bytes option \<Rightarrow> bytes \<Rightarrow> (bytes \<times> bytes) option" where
  "load_or_create_kdf_salt salt_file random =
     (case salt_file of
        Some salt \<Rightarrow> (if length salt \<noteq> KDF_SALT_LENGTH then None else Some (salt, salt))
      | None \<Rightarrow> Some (random, random))"

section \<open>Sealing a credential\<close>

text \<open>For a key, nonce and salt of the right lengths, sealing a stream key
  under the associated data of its salt succeeds and opening it under the same key and salt gives
  the key back; with a nonce of another length opening is refused.\<close>

theorem sealed_credential_opens:
  assumes "aead_correct L" "length key = DERIVED_KEY_LENGTH" "length salt = KDF_SALT_LENGTH"
  shows "\<exists>aad ct. build_credential_aad salt = Inr aad \<and>
    aead_encrypt L nonce key (utf8_encode secret) aad = Inr (nonce, ct) \<and>
    (case aead_decrypt L key nonce ct aad of
       Inl e \<Rightarrow> e = BadLength \<and> length nonce \<noteq> AEAD_NONCE_LENGTH
     | Inr pt \<Rightarrow> utf8_decode pt = Some secret \<and> length nonce = AEAD_NONCE_LENGTH)"
  using assms
  by (auto simp: build_credential_aad_def aead_encrypt_def aead_decrypt_def aead_correct_def GCM_TAG_LENGTH_def)

text \<open>A concrete library: the ciphertext is the plaintext with a tag of zeros.\<close>

definition toy_lib :: crypto_lib where
  "toy_lib = \<lparr>aesgcm_encrypt = (\<lambda>k n p a. replicate 16 (CHR 0x00) @ p),
     aesgcm_decrypt = (\<lambda>k n c a. if take 16 c = replicate 16 (CHR 0x00) then Some (drop 16 c) else None),
     argon2id = (\<lambda>p s. take 32 (p @ s @ replicate 32 (CHR 0x00))),
     hkdf_sha256 = (\<lambda>k i. take 32 (i @ k @ replicate 32 (CHR 0x00))),
     hmac_sha256 = (\<lambda>k m. k @ m),
     phc_hash = (\<lambda>p s. p), phc_verify = (\<lambda>h p. h = p), phc_needs_rehash = (\<lambda>h. False)\<rparr>"

lemma toy_lib_correct: "aead_correct toy_lib" "kdf_lengths toy_lib"
  by (auto simp: aead_correct_def kdf_lengths_def toy_lib_def min_def)

theorem sealed_credential_opens_witness:
  "\<exists>aad ct. build_credential_aad (replicate 16 CHR ''s'') = Inr aad \<and>
    aead_decrypt toy_lib (replicate 32 CHR ''k'') (replicate 12 CHR ''n'') ct aad = Inr (utf8_encode ''live_1'')"
proof -
  have h: "length (replicate 32 CHR ''k'') = DERIVED_KEY_LENGTH" "length (replicate 16 CHR ''s'') = KDF_SALT_LENGTH"
    by (simp_all add: DERIVED_KEY_LENGTH_def KDF_SALT_LENGTH_def)
  obtain aad ct where a: "build_credential_aad (replicate 16 CHR ''s'') = Inr aad"
    "aead_encrypt toy_lib (replicate 12 CHR ''n'') (replicate 32 CHR ''k'') (utf8_encode ''live_1'') aad =
      Inr (replicate 12 CHR ''n'', ct)"
    using sealed_credential_opens [OF toy_lib_correct(1) h, of "replicate 12 CHR ''n''" "''live_1''"] by blast
  then have "ct = aesgcm_encrypt toy_lib (replicate 32 CHR ''k'') (replicate 12 CHR ''n'') (utf8_encode ''live_1'') aad"
    by (simp add: aead_encrypt_def split: if_splits)
  then have "aead_decrypt toy_lib (replicate 32 CHR ''k'') (replicate 12 CHR ''n'') ct aad = Inr (utf8_encode ''live_1'')"
    by (simp add: aead_decrypt_def toy_lib_def DERIVED_KEY_LENGTH_def AEAD_NONCE_LENGTH_def GCM_TAG_LENGTH_def)
  then show ?thesis using a(1) by blast
qed

section \<open>The states of the key service\<close>

definition km_ok :: "key_material \<Rightarrow> bool" where
  "km_ok k \<longleftrightarrow> (km_state k = READY) = (km_keys k \<noteq> None) \<and> length (km_kdf_salt k) = KDF_SALT_LENGTH"

lemma km_ok_new [inv_intros]: "new_key_material salt = Inr k \<Longrightarrow> km_ok k"
  by (auto simp: new_key_material_def km_ok_def split: if_splits)

lemma km_ok_unlock [inv_intros]: "km_ok k \<Longrightarrow> km_ok (fst (unlock L k p))"
  by (auto simp: unlock_def unlock_begin_def unlock_finish_def km_ok_def split: sum.split)

lemma km_ok_rotate [inv_intros]: "km_ok k \<Longrightarrow> rotate_in_place k s ds = Inr k' \<Longrightarrow> km_ok k'"
  by (auto simp: rotate_in_place_def km_ok_def split: if_splits)

lemma require_ready_iff: "km_ok k \<Longrightarrow> is_ok (require_ready k) \<longleftrightarrow> km_state k = READY"
  by (auto simp: require_ready_def km_ok_def split: option.split)

lemma derive_keys_total:
  "kdf_lengths L \<Longrightarrow> length salt = KDF_SALT_LENGTH \<Longrightarrow> p \<noteq> [] \<Longrightarrow> \<exists>ks. derive_keys L salt p = Inr ks"
  by (simp add: derive_keys_def derive_root_key_def derive_subkey_def kdf_lengths_def DERIVED_KEY_LENGTH_def
      HKDF_INFO_STREAM_KEY_def HKDF_INFO_API_TOKEN_MAC_def HKDF_INFO_SESSION_TOKEN_MAC_def)

text \<open>Unlocking a locked service with a non-empty passphrase makes it ready,
  unlocking again changes nothing, and verification then accepts that passphrase; without the
  unlock, verification accepts none.\<close>

theorem unlock_then_verify:
  assumes "km_ok k" "km_state k = LOCKED" "kdf_lengths L" "passphrase \<noteq> []"
  shows "km_state (fst (unlock L k passphrase)) = READY \<and> snd (unlock L k passphrase) = None \<and>
    unlock L (fst (unlock L k passphrase)) p2 =
      (fst (unlock L k passphrase), if p2 = [] then Some KeyValueError else None) \<and>
    verify_passphrase L (fst (unlock L k passphrase)) passphrase = Inr True \<and>
    verify_passphrase L k p2 = Inr False"
proof -
  have salt: "length (km_kdf_salt k) = KDF_SALT_LENGTH" using assms(1) by (simp add: km_ok_def)
  obtain ds where ds: "derive_keys L (km_kdf_salt k) passphrase = Inr ds"
    using derive_keys_total assms(3,4) salt by blast
  have u: "unlock L k passphrase = (k\<lparr>km_state := READY, km_keys := Some ds\<rparr>, None)"
    using assms(2,4) ds by (simp add: unlock_def unlock_begin_def unlock_finish_def)
  show ?thesis
    unfolding u using assms(2,4) ds
    by (simp add: unlock_def unlock_begin_def verify_passphrase_def)
qed

theorem unlock_then_verify_witness:
  "km_state (fst (unlock toy_lib \<lparr>km_kdf_salt = replicate 16 CHR ''s'', km_state = LOCKED, km_keys = None\<rparr> ''pw'')) = READY"
proof -
  let ?k = "\<lparr>km_kdf_salt = replicate 16 CHR ''s'', km_state = LOCKED, km_keys = None\<rparr>"
  have h: "km_ok ?k" "km_state ?k = LOCKED" "''pw'' \<noteq> []" by (simp_all add: km_ok_def KDF_SALT_LENGTH_def)
  show ?thesis using unlock_then_verify [OF h(1,2) toy_lib_correct(2) h(3)] by blast
qed

end
