(* ===== verification/Rate_Limit.thy ===== *)
theory Rate_Limit
  imports Interfaces
begin

text \<open>
  The login limiter of \<^verbatim>\<open>app/auth/rate_limit.py\<close> and the username normalisation of
  \<^verbatim>\<open>app/auth/usernames.py\<close>. The two \<^verbatim>\<open>defaultdict\<close>s of deques are association lists; an access
  creates the bucket. Monotonic seconds are rational numbers. The Unicode tables behind NFKC and
  case folding are a parameter, the composed function \<open>ufold\<close>.
\<close>

section \<open>Names\<close>

definition normalize_username :: "(pystr \<Rightarrow> pystr) \<Rightarrow> pystr \<Rightarrow> pystr" where
  "normalize_username ufold value = py_strip (ufold value)"

section \<open>The limiter\<close>

definition DEFAULT_FAILURE_LIMIT :: int where
  "DEFAULT_FAILURE_LIMIT = 5"

definition DEFAULT_WINDOW_SECONDS :: rat where
  "DEFAULT_WINDOW_SECONDS = 15 * 60"

record rate_limit_decision =
  rd_allowed :: bool
  rd_retry_after_seconds :: int

type_synonym buckets = "(pystr \<times> rat list) list"

record rate_limiter =
  rl_limit :: int
  rl_window :: rat
  rl_by_ip :: buckets
  rl_by_username :: buckets

definition new_rate_limiter :: "int \<Rightarrow> rat \<Rightarrow> value_error + rate_limiter" where
  "new_rate_limiter limit window =
     (if limit < 1 then Inl (ValueError ''failure_limit must be >= 1'')
      else if window \<le> 0 then Inl (ValueError ''window_seconds must be > 0'')
      else Inr \<lparr>rl_limit = limit, rl_window = window, rl_by_ip = [], rl_by_username = []\<rparr>)"

definition bucket :: "buckets \<Rightarrow> pystr \<Rightarrow> rat list" where
  "bucket d k = (case map_of d k of None \<Rightarrow> [] | Some b \<Rightarrow> b)"

fun prune :: "rat \<Rightarrow> rat \<Rightarrow> rat list \<Rightarrow> rat list" where
  "prune w now [] = []"
| "prune w now (t # ts) = (if t \<le> now - w then prune w now ts else t # ts)"

definition oldest_expiry :: "rat \<Rightarrow> rat list \<Rightarrow> rat \<Rightarrow> rat" where
  "oldest_expiry w b now = (hd b + w) - now"

text \<open>Both buckets are fetched and pruned first; \<open>name\<close> is the normalised username.\<close>

definition touch_buckets :: "rate_limiter \<Rightarrow> pystr \<Rightarrow> pystr \<Rightarrow> rat \<Rightarrow> rate_limiter" where
  "touch_buckets l ip name now =
     l\<lparr>rl_by_ip := AList.update ip (prune (rl_window l) now (bucket (rl_by_ip l) ip)) (rl_by_ip l),
       rl_by_username := AList.update name (prune (rl_window l) now (bucket (rl_by_username l) name))
         (rl_by_username l)\<rparr>"

definition rl_check ::
    "(pystr \<Rightarrow> pystr) \<Rightarrow> pystr \<Rightarrow> pystr \<Rightarrow> rat \<Rightarrow> rate_limiter \<Rightarrow> rate_limit_decision \<times> rate_limiter" where
  "rl_check ufold ip username now l =
     (let name = normalize_username ufold username;
          l1 = touch_buckets l ip name now;
          ip_bucket = bucket (rl_by_ip l1) ip;
          uname_bucket = bucket (rl_by_username l1) name;
          ip_full = int (length ip_bucket) \<ge> rl_limit l1;
          uname_full = int (length uname_bucket) \<ge> rl_limit l1
      in if \<not> ip_full \<and> \<not> uname_full
         then (\<lparr>rd_allowed = True, rd_retry_after_seconds = 0\<rparr>, l1)
         else (let candidates = (if ip_full then [oldest_expiry (rl_window l1) ip_bucket now] else []) @
                     (if uname_full then [oldest_expiry (rl_window l1) uname_bucket now] else []);
                   secs = (case candidates of [] \<Rightarrow> 0 | c # cs \<Rightarrow> foldl max c cs)
               in (\<lparr>rd_allowed = False, rd_retry_after_seconds = max 1 \<lceil>secs\<rceil>\<rparr>, l1)))"

definition rl_record_failure ::
    "(pystr \<Rightarrow> pystr) \<Rightarrow> pystr \<Rightarrow> pystr \<Rightarrow> rat \<Rightarrow> rate_limiter \<Rightarrow> rate_limiter" where
  "rl_record_failure ufold ip username now l =
     (let name = normalize_username ufold username;
          l1 = touch_buckets l ip name now
      in l1\<lparr>rl_by_ip := AList.update ip (bucket (rl_by_ip l1) ip @ [now]) (rl_by_ip l1),
            rl_by_username := AList.update name (bucket (rl_by_username l1) name @ [now]) (rl_by_username l1)\<rparr>)"

definition rl_reset :: "rate_limiter \<Rightarrow> rate_limiter" where
  "rl_reset l = l\<lparr>rl_by_ip := [], rl_by_username := []\<rparr>"

section \<open>One bucket is a window over the failures of its key\<close>

interpretation rlw: sliding_window "\<lambda>now t. t \<le> now - w" "prune w" for w :: rat
  by unfold_locales auto

lemma bucket_update [simp]: "bucket (AList.update k b d) j = (if j = k then b else bucket d j)"
  by (simp add: bucket_def AList.update_conv')

text \<open>\<open>window_sim w cur d stamps\<close>: from \<open>cur\<close> on, every bucket shows what the full list of stamps of
  its key would.\<close>

definition window_sim :: "rat \<Rightarrow> rat \<Rightarrow> buckets \<Rightarrow> (pystr \<Rightarrow> rat list) \<Rightarrow> bool" where
  "window_sim w cur d stamps \<longleftrightarrow>
     (\<forall>k. sorted (bucket d k) \<and> sorted (stamps k) \<and> (\<forall>t\<in>set (stamps k) \<union> set (bucket d k). t \<le> cur) \<and>
        (\<forall>now\<ge>cur. prune w now (bucket d k) = prune w now (stamps k)))"

lemma window_sim_new: "window_sim w cur [] (\<lambda>k. [])"
  by (simp add: window_sim_def bucket_def)

lemma window_sim_prune:
  assumes "window_sim w cur d stamps" "cur \<le> now"
  shows "window_sim w now (AList.update k (prune w now (bucket d k)) d) stamps"
proof -
  have later: "prune w later (prune w now (bucket d k)) = prune w later (stamps k)" if "now \<le> later" for later
    using assms that rlw.evict_evict [of "bucket d k" now later w] by (auto simp: window_sim_def)
  have old: "sorted (bucket d j)" "sorted (stamps j)" "t \<in> set (stamps j) \<Longrightarrow> t \<le> now"
    "t \<in> set (bucket d j) \<Longrightarrow> t \<le> now" for j t
    using assms by (force simp: window_sim_def)+
  have "sorted (prune w now (bucket d k))" using old(1) by (rule rlw.evict_sorted)
  moreover have "t \<le> now" if "t \<in> set (prune w now (bucket d k))" for t
    using that old(4) rlw.evict_subset [of w now "bucket d k"] by blast
  ultimately show ?thesis using old later assms by (simp add: window_sim_def) blast
qed

lemma window_sim_append:
  assumes "window_sim w now d stamps" "bucket d k = prune w now (bucket d k)"
  shows "window_sim w now (AList.update k (bucket d k @ [now]) d) (stamps(k := stamps k @ [now]))"
proof -
  have s: "sorted (bucket d k @ [now])" "sorted (stamps k @ [now])"
    using assms(1) by (auto simp: window_sim_def sorted_append)
  have "prune w later (bucket d k @ [now]) = prune w later (stamps k @ [now])" if "now \<le> later" for later
  proof -
    have "prune w later (bucket d k) = prune w later (stamps k)" using assms(1) that by (simp add: window_sim_def)
    moreover have "sorted (bucket d k)" "sorted (stamps k)" using assms(1) by (simp_all add: window_sim_def)
    ultimately show ?thesis using s by (simp add: rlw.evict_filter)
  qed
  then show ?thesis using assms(1) s by (auto simp: window_sim_def)
qed

section \<open>The limiter and the log of failures\<close>

text \<open>A call at a monotonic time.\<close>

datatype login_op = Check pystr pystr | Failure pystr pystr | Reset

fun rl_do :: "(pystr \<Rightarrow> pystr) \<Rightarrow> rate_limiter \<Rightarrow> login_op \<times> rat \<Rightarrow> rate_limiter" where
  "rl_do ufold l (Check ip name, now) = snd (rl_check ufold ip name now l)"
| "rl_do ufold l (Failure ip name, now) = rl_record_failure ufold ip name now l"
| "rl_do ufold l (Reset, now) = rl_reset l"

text \<open>The calls after the last reset.\<close>

definition since_reset :: "(login_op \<times> rat) list \<Rightarrow> (login_op \<times> rat) list" where
  "since_reset ops = rev (takeWhile (\<lambda>e. fst e \<noteq> Reset) (rev ops))"

lemma since_reset_Nil [simp]: "since_reset [] = []"
  by (simp add: since_reset_def)

lemma since_reset_Reset [simp]: "since_reset (ops @ [(Reset, t)]) = []"
  by (simp add: since_reset_def)

lemma since_reset_append [simp]:
  "\<forall>e\<in>set es. fst e \<noteq> Reset \<Longrightarrow> since_reset (ops @ es) = since_reset ops @ es"
proof -
  assume "\<forall>e\<in>set es. fst e \<noteq> Reset"
  then have "takeWhile (\<lambda>e. fst e \<noteq> Reset) (rev es @ rev ops) = rev es @ takeWhile (\<lambda>e. fst e \<noteq> Reset) (rev ops)"
    by (intro takeWhile_append2) simp
  then show ?thesis by (simp add: since_reset_def)
qed

lemma since_reset_all [simp]: "\<forall>e\<in>set es. fst e \<noteq> Reset \<Longrightarrow> since_reset es = es"
  using since_reset_append [of es "[]"] by simp

lemma since_reset_subset: "set (since_reset ops) \<subseteq> set ops"
  using set_takeWhileD [of _ _ "rev ops"] by (force simp: since_reset_def)

fun failed_ip :: "pystr \<Rightarrow> login_op \<times> rat \<Rightarrow> bool" where
  "failed_ip k (Failure ip name, t) = (ip = k)"
| "failed_ip k (Check ip name, t) = False"
| "failed_ip k (Reset, t) = False"

fun failed_name :: "(pystr \<Rightarrow> pystr) \<Rightarrow> pystr \<Rightarrow> login_op \<times> rat \<Rightarrow> bool" where
  "failed_name ufold k (Failure ip name, t) = (normalize_username ufold name = k)"
| "failed_name ufold k (Check ip name, t) = False"
| "failed_name ufold k (Reset, t) = False"

definition ip_stamps :: "(login_op \<times> rat) list \<Rightarrow> pystr \<Rightarrow> rat list" where
  "ip_stamps ops k = map snd (filter (failed_ip k) (since_reset ops))"

definition name_stamps :: "(pystr \<Rightarrow> pystr) \<Rightarrow> (login_op \<times> rat) list \<Rightarrow> pystr \<Rightarrow> rat list" where
  "name_stamps ufold ops k = map snd (filter (failed_name ufold k) (since_reset ops))"

lemma stamps_subset:
  "set (ip_stamps ops k) \<subseteq> snd ` set ops" "set (name_stamps ufold ops k) \<subseteq> snd ` set ops"
  using since_reset_subset [of ops] by (auto simp: ip_stamps_def name_stamps_def)

definition limiter_sim ::
    "(pystr \<Rightarrow> pystr) \<Rightarrow> rate_limiter \<Rightarrow> rat \<Rightarrow> rate_limiter \<Rightarrow> (login_op \<times> rat) list \<Rightarrow> bool" where
  "limiter_sim ufold l0 cur l ops \<longleftrightarrow>
     rl_window l = rl_window l0 \<and> rl_limit l = rl_limit l0 \<and>
     window_sim (rl_window l0) cur (rl_by_ip l) (ip_stamps ops) \<and>
     window_sim (rl_window l0) cur (rl_by_username l) (name_stamps ufold ops)"

lemma touch_buckets_sim:
  "limiter_sim ufold l0 cur l ops \<Longrightarrow> cur \<le> now \<Longrightarrow> limiter_sim ufold l0 now (touch_buckets l ip name now) ops"
  by (auto simp: limiter_sim_def touch_buckets_def intro!: window_sim_prune)

lemma touch_buckets_pruned:
  assumes "limiter_sim ufold l0 cur l ops"
  shows "bucket (rl_by_ip (touch_buckets l ip name now)) ip =
      prune (rl_window l0) now (bucket (rl_by_ip (touch_buckets l ip name now)) ip)"
    "bucket (rl_by_username (touch_buckets l ip name now)) name =
      prune (rl_window l0) now (bucket (rl_by_username (touch_buckets l ip name now)) name)"
  using assms rlw.evict_evict [of _ now now "rl_window l0"]
  by (simp_all add: limiter_sim_def touch_buckets_def window_sim_def)

lemma limiter_sim_do:
  assumes "limiter_sim ufold l0 cur l ops" "cur \<le> now"
  shows "limiter_sim ufold l0 now (rl_do ufold l (x, now)) (ops @ [(x, now)])"
proof (cases x)
  case (Check ip name)
  have "ip_stamps (ops @ [(x, now)]) = ip_stamps ops" "name_stamps ufold (ops @ [(x, now)]) = name_stamps ufold ops"
    using Check by (simp_all add: ip_stamps_def name_stamps_def fun_eq_iff)
  moreover have "snd (rl_check ufold ip name now l) = touch_buckets l ip (normalize_username ufold name) now"
    by (simp add: rl_check_def Let_def)
  ultimately show ?thesis using Check touch_buckets_sim [OF assms] by (simp add: limiter_sim_def)
next
  case Reset
  then have "ip_stamps (ops @ [(x, now)]) = (\<lambda>k. [])" "name_stamps ufold (ops @ [(x, now)]) = (\<lambda>k. [])"
    by (simp_all add: ip_stamps_def name_stamps_def fun_eq_iff)
  then show ?thesis using Reset assms(1) by (simp add: limiter_sim_def rl_reset_def window_sim_new)
next
  case (Failure ip name)
  let ?n = "normalize_username ufold name"
  let ?l1 = "touch_buckets l ip ?n now"
  have "ip_stamps (ops @ [(x, now)]) = (ip_stamps ops)(ip := ip_stamps ops ip @ [now])"
    "name_stamps ufold (ops @ [(x, now)]) = (name_stamps ufold ops)(?n := name_stamps ufold ops ?n @ [now])"
    using Failure by (auto simp: ip_stamps_def name_stamps_def fun_eq_iff)
  then show ?thesis
    using Failure touch_buckets_sim [OF assms, of ip ?n] touch_buckets_pruned [OF assms(1), of ip ?n now]
    by (simp add: limiter_sim_def rl_record_failure_def Let_def window_sim_append)
qed

lemma limiter_sim_run:
  assumes "sorted (cur # map snd ops)" "limiter_sim ufold l0 cur l done_ops"
  shows "limiter_sim ufold l0 (last (cur # map snd ops)) (foldl (rl_do ufold) l ops) (done_ops @ ops)"
  using assms
proof (induction ops arbitrary: cur l done_ops)
  case (Cons e ops)
  obtain x now where e: "e = (x, now)" by (cases e)
  have "limiter_sim ufold l0 now (rl_do ufold l e) (done_ops @ [e])"
    using Cons.prems e limiter_sim_do by auto
  from Cons.IH [OF _ this] show ?case using Cons.prems e by auto
qed simp

lemma limiter_after:
  assumes "new_rate_limiter limit w = Inr l0" "sorted (map snd ops @ [now])"
  shows "limiter_sim ufold l0 now (foldl (rl_do ufold) l0 ops) ops"
proof -
  let ?cur = "hd (map snd ops @ [now])"
  have s: "sorted (?cur # map snd ops)" "last (?cur # map snd ops) \<le> now"
    using assms(2) by (cases ops; auto simp: sorted_append last_conv_nth)+
  have "limiter_sim ufold l0 ?cur l0 []"
    using assms(1) by (auto simp: new_rate_limiter_def limiter_sim_def ip_stamps_def [abs_def]
        name_stamps_def [abs_def] window_sim_new split: if_splits)
  from limiter_sim_run [OF s(1) this] have "limiter_sim ufold l0 (last (?cur # map snd ops)) (foldl (rl_do ufold) l0 ops) ops"
    by simp
  then show ?thesis using s(2) unfolding limiter_sim_def window_sim_def by (meson order_trans)
qed

text \<open>The failures of a key that are younger than the window.\<close>

definition recent :: "rat \<Rightarrow> rat \<Rightarrow> rat list \<Rightarrow> rat list" where
  "recent w now ts = filter (\<lambda>t. now - w < t) ts"

lemma pruned_recent: "sorted ts \<Longrightarrow> prune w now ts = recent w now ts"
  by (simp add: rlw.evict_filter recent_def not_le)

lemma window_sim_now: "window_sim w now d stamps \<Longrightarrow> prune w now (bucket d k) = recent w now (stamps k)"
  using pruned_recent [of "stamps k" w now] by (simp add: window_sim_def)

lemma length_recent_le: "length (recent w now ts) \<le> length ts"
  by (simp add: recent_def)

lemma checked_buckets:
  assumes "limiter_sim ufold l0 now l ops"
  shows "bucket (rl_by_ip (touch_buckets l ip name now)) ip = recent (rl_window l0) now (ip_stamps ops ip)"
    "bucket (rl_by_username (touch_buckets l ip name now)) name = recent (rl_window l0) now (name_stamps ufold ops name)"
  using assms window_sim_now by (simp_all add: limiter_sim_def touch_buckets_def)

lemma limiter_params:
  "new_rate_limiter limit w = Inr l0 \<Longrightarrow> rl_limit l0 = limit \<and> rl_window l0 = w \<and> 1 \<le> limit \<and> 0 < w"
  by (auto simp: new_rate_limiter_def split: if_splits)

lemma check_allowed:
  assumes "new_rate_limiter limit w = Inr l0" "sorted (map snd ops @ [now])"
  shows "rd_allowed (fst (rl_check ufold ip name now (foldl (rl_do ufold) l0 ops))) \<longleftrightarrow>
      int (length (recent w now (ip_stamps ops ip))) < limit \<and>
      int (length (recent w now (name_stamps ufold ops (normalize_username ufold name)))) < limit"
proof -
  let ?l = "foldl (rl_do ufold) l0 ops"
  have sim: "limiter_sim ufold l0 now ?l ops" by (rule limiter_after [OF assms])
  then have "rl_limit (touch_buckets ?l ip n now) = limit" for n
    using limiter_params [OF assms(1)] by (simp add: limiter_sim_def touch_buckets_def)
  then show ?thesis
    using checked_buckets [OF sim] limiter_params [OF assms(1)] by (auto simp: rl_check_def Let_def not_le)
qed



text \<open>When no bucket holds more than the limit (every failure followed a check),
  waiting for the announced time lets the next login through.\<close>

theorem retry_after_suffices:
  assumes "new_rate_limiter limit w = Inr l0" "sorted (map snd ops @ [now])"
    "fst (rl_check ufold ip name now (foldl (rl_do ufold) l0 ops)) = d" "\<not> rd_allowed d"
    "int (length (recent w now (ip_stamps ops ip))) \<le> limit"
    "int (length (recent w now (name_stamps ufold ops (normalize_username ufold name)))) \<le> limit"
  shows "rd_allowed (fst (rl_check ufold ip name (now + of_int (rd_retry_after_seconds d))
    (foldl (rl_do ufold) l0 ops)))"
proof -
  let ?l = "foldl (rl_do ufold) l0 ops" and ?n = "normalize_username ufold name"
  let ?later = "now + of_int (rd_retry_after_seconds d)"
  let ?a = "recent w now (ip_stamps ops ip)" and ?b = "recent w now (name_stamps ufold ops ?n)"
  have l0: "rl_limit l0 = limit" "rl_window l0 = w" "1 \<le> limit"
    using assms(1) by (auto simp: new_rate_limiter_def split: if_splits)
  have sim: "limiter_sim ufold l0 now ?l ops" by (rule limiter_after [OF assms(1,2)])
  then have lim: "rl_limit (touch_buckets ?l ip ?n now) = limit" "rl_window (touch_buckets ?l ip ?n now) = w"
    using l0 by (simp_all add: limiter_sim_def touch_buckets_def)
  note bk = checked_buckets [OF sim, of ip ?n, unfolded l0(2)]
  have wait: "hd ?a + w \<le> ?later" if "limit \<le> int (length ?a)"
    using that assms(3,4) bk lim
    by (auto simp: rl_check_def Let_def oldest_expiry_def le_max_iff_disj split: if_splits) linarith+
  have wait2: "hd ?b + w \<le> ?later" if "limit \<le> int (length ?b)"
    using that assms(3,4) bk lim
    by (auto simp: rl_check_def Let_def oldest_expiry_def le_max_iff_disj split: if_splits) linarith+
  have "1 \<le> rd_retry_after_seconds d"
    using assms(3,4) by (auto simp: rl_check_def Let_def split: if_splits)
  then have later: "now \<le> ?later" by simp
  then have "sorted (map snd ops @ [?later])" using assms(2) by (auto simp: sorted_append)
  have fewer: "int (length (recent w ?later ts)) < limit"
    if "int (length (recent w now ts)) \<le> limit"
      "limit \<le> int (length (recent w now ts)) \<Longrightarrow> hd (recent w now ts) + w \<le> ?later" for ts
  proof -
    have sub: "recent w ?later ts = recent w ?later (recent w now ts)"
      using later by (auto simp: recent_def intro!: filter_cong)
    show ?thesis
    proof (cases "limit \<le> int (length (recent w now ts))")
      case True
      then obtain t rest where r: "recent w now ts = t # rest" using l0(3) by (cases "recent w now ts") auto
      then have "recent w ?later (recent w now ts) = recent w ?later rest"
        using that(2) [OF True] by (simp add: recent_def)
      moreover have "int (length rest) < limit" using that(1) r by simp
      ultimately show ?thesis using sub length_recent_le [of w ?later rest] by simp
    next
      case False
      then show ?thesis using sub length_recent_le [of w ?later "recent w now ts"] by simp
    qed
  qed
  have "limiter_sim ufold l0 ?later ?l ops" by (rule limiter_after) fact+
  note bk2 = checked_buckets [OF this, of ip ?n, unfolded l0(2)]
  have "rl_limit (touch_buckets ?l ip ?n ?later) = limit" using lim(1) by (simp add: touch_buckets_def)
  then show ?thesis using bk2 fewer [OF assms(5) wait] fewer [OF assms(6) wait2]
    by (simp add: rl_check_def Let_def)
qed

theorem retry_after_suffices_witness:
  "\<exists>l0. new_rate_limiter 1 10 = Inr l0 \<and>
    rd_retry_after_seconds (fst (rl_check id ''ip'' ''x'' 5 (rl_do id l0 (Failure ''ip'' ''x'', 1)))) = 6 \<and>
    rd_allowed (fst (rl_check id ''ip'' ''x'' 11 (rl_do id l0 (Failure ''ip'' ''x'', 1))))"
proof -
  obtain l0 where n: "new_rate_limiter 1 10 = Inr l0" by (simp add: new_rate_limiter_def)
  let ?ops = "[(Failure ''ip'' ''x'', 1 :: rat)]"
  have norm: "normalize_username id ''x'' = ''x''" by (simp add: normalize_username_def strip_by_def str_space_def)
  have d: "fst (rl_check id ''ip'' ''x'' 5 (foldl (rl_do id) l0 ?ops)) =
      \<lparr>rd_allowed = False, rd_retry_after_seconds = 6\<rparr>"
    using n norm by (auto simp: new_rate_limiter_def rl_check_def rl_record_failure_def touch_buckets_def
        bucket_def oldest_expiry_def Let_def)
  have len: "int (length (recent 10 5 (ip_stamps ?ops ''ip''))) \<le> 1"
    "int (length (recent 10 5 (name_stamps id ?ops (normalize_username id ''x'')))) \<le> 1"
    by (simp_all add: recent_def ip_stamps_def name_stamps_def)
  have "sorted (map snd ?ops @ [5])" by simp
  from retry_after_suffices [OF n this d _ len] d n show ?thesis by auto
qed

text \<open>A caller that checks, tries a password and records a failed try before the next check, stays
  within the limit in every window. Callers that all check before any of them records are not
  held back by each other.\<close>

definition in_window :: "rat \<Rightarrow> rat \<Rightarrow> rat list \<Rightarrow> rat list" where
  "in_window w s ts = filter (\<lambda>t. s - w < t \<and> t \<le> s) ts"

lemma in_window_extend:
  assumes "\<And>s. int (length (in_window w s ts)) \<le> limit" "\<forall>u\<in>set ts. u \<le> t" "t \<le> t'" "0 \<le> limit"
    "int (length (recent w t ts)) < limit"
  shows "int (length (in_window w s (ts @ [t']))) \<le> limit"
proof (cases "s - w < t' \<and> t' \<le> s")
  case True
  have "in_window w s ts = filter (\<lambda>u. s - w < u \<and> u \<le> s) (recent w t ts)"
    using True assms(3) by (auto simp: in_window_def recent_def intro!: filter_cong)
  then have "length (in_window w s ts) \<le> length (recent w t ts)" by simp
  then show ?thesis using True assms(5) by (simp add: in_window_def)
next
  case False
  then show ?thesis using assms(1) [of s] by (auto simp: in_window_def)
qed

lemma concurrent_checks_overshoot:
  assumes "new_rate_limiter limit w = Inr l0" "0 < n"
  shows "\<forall>k < n. rd_allowed (fst (rl_check ufold ip name t
      (foldl (rl_do ufold) l0 (replicate k (Check ip name, t)))))"
    "length (in_window w t (name_stamps ufold (replicate n (Check ip name, t) @
      replicate n (Failure ip name, t)) (normalize_username ufold name))) = n"
proof -
  have "ip_stamps (replicate k (Check ip name, t)) ip = []"
    "name_stamps ufold (replicate k (Check ip name, t)) (normalize_username ufold name) = []" for k
    by (simp_all add: ip_stamps_def name_stamps_def)
  moreover have "sorted (map snd (replicate k (Check ip name, t)) @ [t])" for k
    by (simp add: sorted_append sorted_replicate)
  ultimately show "\<forall>k < n. rd_allowed (fst (rl_check ufold ip name t
      (foldl (rl_do ufold) l0 (replicate k (Check ip name, t)))))"
    using check_allowed [OF assms(1)] limiter_params [OF assms(1)] by (simp add: recent_def)
  show "length (in_window w t (name_stamps ufold (replicate n (Check ip name, t) @
      replicate n (Failure ip name, t)) (normalize_username ufold name))) = n"
    using limiter_params [OF assms(1)] by (simp add: in_window_def name_stamps_def filter_replicate)
qed

text \<open>Buckets are emptied but not removed before a reset: every username that was tried keeps an entry.\<close>

lemma limiter_never_forgets:
  assumes "map_of (rl_by_username l) k \<noteq> None" "fst e \<noteq> Reset"
  shows "map_of (rl_by_username (rl_do ufold l e)) k \<noteq> None"
proof (cases e)
  case (Pair x now)
  then show ?thesis using assms
    by (cases x) (auto simp: rl_check_def rl_record_failure_def touch_buckets_def Let_def AList.update_conv')
qed

lemma limiter_check_adds_bucket:
  "map_of (rl_by_username (snd (rl_check ufold ip name now l))) (normalize_username ufold name) \<noteq> None"
  by (simp add: rl_check_def touch_buckets_def Let_def AList.update_conv')

end
