(* ===== verification/Login_Sessions.thy ===== *)
theory Login_Sessions
  imports Database Crypto Rate_Limit
begin

text \<open>
  Cookie sessions, \<^verbatim>\<open>app/auth/sessions.py\<close>: the cookie and its attributes, \<^verbatim>\<open>SessionAuthService\<close>
  with login behind the limiter, cookie verification and revocation. The service acts on the
  database of the request and on the process-wide limiter, both passed along. The random cookie
  value, the hash of the burnt password and every clock reading of a call are arguments.
\<close>

section \<open>The cookie\<close>

definition SESSION_COOKIE_NAME_SECURE :: pystr where
  "SESSION_COOKIE_NAME_SECURE = ''__Host-rp_session''"

definition SESSION_COOKIE_NAME_INSECURE :: pystr where
  "SESSION_COOKIE_NAME_INSECURE = ''rp_session''"

definition session_cookie_name :: "bool \<Rightarrow> pystr" where
  "session_cookie_name secure = (if secure then SESSION_COOKIE_NAME_SECURE else SESSION_COOKIE_NAME_INSECURE)"

definition SESSION_COOKIE_LIFETIME :: timedelta where
  "SESSION_COOKIE_LIFETIME = minutes (30 * 24 * 60)"

definition DEFAULT_CONSTANT_TIME_FLOOR_SECONDS :: rat where
  "DEFAULT_CONSTANT_TIME_FLOOR_SECONDS = 1 / 4"

record cookie_kwargs =
  ck_key :: pystr
  ck_value :: "pystr option"
  ck_max_age :: "int option"
  ck_secure :: bool
  ck_httponly :: bool
  ck_samesite :: pystr
  ck_path :: pystr

text \<open>\<^verbatim>\<open>int(lifetime.total_seconds())\<close> truncates towards zero.\<close>

definition build_cookie_set_kwargs :: "pystr \<Rightarrow> bool \<Rightarrow> timedelta \<Rightarrow> cookie_kwargs" where
  "build_cookie_set_kwargs cookie_value secure lifetime =
     \<lparr>ck_key = session_cookie_name secure, ck_value = Some cookie_value,
      ck_max_age = Some (bind_seconds lifetime), ck_secure = secure, ck_httponly = True,
      ck_samesite = ''lax'', ck_path = ''/''\<rparr>"

definition build_cookie_delete_kwargs :: "bool \<Rightarrow> cookie_kwargs" where
  "build_cookie_delete_kwargs secure =
     \<lparr>ck_key = session_cookie_name secure, ck_value = None, ck_max_age = None, ck_secure = secure,
      ck_httponly = True, ck_samesite = ''lax'', ck_path = ''/''\<rparr>"

datatype auth_error =
    InvalidCredentials
  | RateLimited int
  | AuthDb db_error
  | AuthValueError pystr

definition compute_session_token_hash :: "crypto_lib \<Rightarrow> pystr \<Rightarrow> bytes \<Rightarrow> auth_error + bytes" where
  "compute_session_token_hash L cookie_value mac_key =
     (if cookie_value = [] then Inl (AuthValueError ''cookie_value must not be empty'')
      else Inr (hmac_sha256 L mac_key (utf8_encode cookie_value)))"

section \<open>Login\<close>

record session_service =
  ss_keys :: derived_keys
  ss_floor :: rat
  ss_cookie_lifetime :: timedelta

definition new_session_service :: "derived_keys \<Rightarrow> rat \<Rightarrow> timedelta \<Rightarrow> value_error + session_service" where
  "new_session_service ks floor_seconds lifetime =
     (if floor_seconds < 0 then Inl (ValueError ''constant_time_floor_seconds must be >= 0'')
      else Inr \<lparr>ss_keys = ks, ss_floor = floor_seconds, ss_cookie_lifetime = lifetime\<rparr>)"

text \<open>What a login call takes from outside.\<close>

record login_env =
  le_dummy_hash :: pystr
  le_cookie :: pystr
  le_now :: datetime
  le_row_now :: datetime
  le_check_at :: rat
  le_failed_at :: rat
  le_elapsed :: rat

record login_request =
  lr_username :: pystr
  lr_password :: pystr
  lr_ip :: pystr
  lr_user_agent :: "pystr option"

record login_outcome =
  lo_cookie_value :: pystr
  lo_session :: session_row
  lo_user :: user_row
  lo_needs_rehash :: bool

definition login_body ::
    "crypto_lib \<Rightarrow> session_service \<Rightarrow> login_env \<Rightarrow> pystr \<Rightarrow> login_request \<Rightarrow> database \<Rightarrow>
     auth_error + login_outcome \<times> database" where
  "login_body L sv env name rq d =
     (let user = user_by_username d name;
          hash_to_verify = (case user of Some u \<Rightarrow> us_password_hash u | None \<Rightarrow> le_dummy_hash env);
          verified = verify_password L hash_to_verify (lr_password rq)
      in case user of
           None \<Rightarrow> Inl InvalidCredentials
         | Some u \<Rightarrow>
            (if \<not> pv_ok verified then Inl InvalidCredentials
             else (case compute_session_token_hash L (le_cookie env) (dk_session_token_mac_key (ss_keys sv)) of
                Inl e \<Rightarrow> Inl e
              | Inr th \<Rightarrow>
                 (case create_http_session th (us_id u) (le_now env + ss_cookie_lifetime sv)
                         (lr_user_agent rq) (Some (lr_ip rq)) (le_row_now env) d of
                    Inl e \<Rightarrow> Inl (AuthDb e)
                  | Inr (row, d1) \<Rightarrow>
                     Inr (\<lparr>lo_cookie_value = le_cookie env, lo_session = row,
                           lo_user = u\<lparr>us_last_login_at := Some (le_now env)\<rparr>,
                           lo_needs_rehash = pv_needs_rehash verified\<rparr>,
                          touch_last_login (us_id u) (le_now env) d1)))))"

text \<open>A failed call: the padding sleep, the result, and the state it leaves. A denied attempt returns
  before the clock is started.\<close>

record 'a login_result =
  lg_result :: "auth_error + 'a"
  lg_slept :: rat
  lg_db :: database
  lg_limiter :: rate_limiter

definition login ::
    "crypto_lib \<Rightarrow> (pystr \<Rightarrow> pystr) \<Rightarrow> session_service \<Rightarrow> login_env \<Rightarrow> login_request \<Rightarrow>
     database \<Rightarrow> rate_limiter \<Rightarrow> login_outcome login_result" where
  "login L ufold sv env rq d l =
     (let name = normalize_username ufold (lr_username rq);
          (decision, l1) = rl_check ufold (lr_ip rq) name (le_check_at env) l
      in if \<not> rd_allowed decision
         then \<lparr>lg_result = Inl (RateLimited (rd_retry_after_seconds decision)), lg_slept = 0,
               lg_db = d, lg_limiter = l1\<rparr>
         else (let pad = max 0 (ss_floor sv - le_elapsed env)
               in case login_body L sv env name rq d of
                    Inr (out, d1) \<Rightarrow> \<lparr>lg_result = Inr out, lg_slept = pad, lg_db = d1, lg_limiter = l1\<rparr>
                  | Inl e \<Rightarrow>
                     \<lparr>lg_result = Inl e, lg_slept = pad, lg_db = d,
                      lg_limiter = (if e = InvalidCredentials
                        then rl_record_failure ufold (lr_ip rq) name (le_failed_at env) l1 else l1)\<rparr>))"

section \<open>Verification and revocation\<close>

definition verify_cookie ::
    "crypto_lib \<Rightarrow> session_service \<Rightarrow> pystr \<Rightarrow> datetime \<Rightarrow> database \<Rightarrow>
     auth_error + (user_row \<times> session_row) option \<times> database" where
  "verify_cookie L sv cookie now d =
     (case compute_session_token_hash L cookie (dk_session_token_mac_key (ss_keys sv)) of
        Inl e \<Rightarrow> Inl e
      | Inr th \<Rightarrow>
         (case session_by_hash d th of
            None \<Rightarrow> Inr (None, d)
          | Some session \<Rightarrow>
             (if hs_expires_at session \<le> now then Inr (None, delete_session th d)
              else (case user_by_id d (hs_user_id session) of
                      None \<Rightarrow> Inr (None, delete_session th d)
                    | Some user \<Rightarrow> Inr (Some (user, session), touch_last_seen th now d)))))"

definition revoke_cookie ::
    "crypto_lib \<Rightarrow> session_service \<Rightarrow> pystr \<Rightarrow> database \<Rightarrow> auth_error + database" where
  "revoke_cookie L sv cookie d =
     (case compute_session_token_hash L cookie (dk_session_token_mac_key (ss_keys sv)) of
        Inl e \<Rightarrow> Inl e | Inr th \<Rightarrow> Inr (delete_session th d))"

definition revoke_all_for_user :: "pystr \<Rightarrow> database \<Rightarrow> int \<times> database" where
  "revoke_all_for_user uid d = delete_all_for_user uid d"

section \<open>A login opens a session\<close>

lemma one_or_none_update_other:
  "(\<And>r. p (f r) = p r) \<Longrightarrow> one_or_none p (update_where q f rows) =
    map_option (\<lambda>r. if q r then f r else r) (one_or_none p rows)"
  unfolding one_or_none_def update_where_def by (induction rows) auto

lemma touch_last_login_frame [simp]:
  "db_sessions (touch_last_login uid t d) = db_sessions d"
  "session_by_hash (touch_last_login uid t d) th = session_by_hash d th"
  by (simp_all add: touch_last_login_def session_by_hash_def)

lemma user_by_id_touched:
  "user_by_id (touch_last_login uid t d) i =
    map_option (\<lambda>u. if i = uid then u\<lparr>us_last_login_at := Some (stored_time t)\<rparr> else u) (user_by_id d i)"
  by (auto simp: user_by_id_def touch_last_login_def one_or_none_update_other option.map_comp
      dest: one_or_none_SomeD intro!: option.map_cong)

lemma login_Inr:
  assumes "lg_result (login L ufold sv env rq d l) = Inr out"
  obtains u th row d1 where
    "user_by_username d (normalize_username ufold (lr_username rq)) = Some u"
    "pv_ok (verify_password L (us_password_hash u) (lr_password rq))"
    "compute_session_token_hash L (le_cookie env) (dk_session_token_mac_key (ss_keys sv)) = Inr th"
    "create_http_session th (us_id u) (le_now env + ss_cookie_lifetime sv) (lr_user_agent rq) (Some (lr_ip rq))
       (le_row_now env) d = Inr (row, d1)"
    "out = \<lparr>lo_cookie_value = le_cookie env, lo_session = row, lo_user = u\<lparr>us_last_login_at := Some (le_now env)\<rparr>,
       lo_needs_rehash = pv_needs_rehash (verify_password L (us_password_hash u) (lr_password rq))\<rparr>"
    "lg_db (login L ufold sv env rq d l) = touch_last_login (us_id u) (le_now env) d1"
    "rd_allowed (fst (rl_check ufold (lr_ip rq) (normalize_username ufold (lr_username rq)) (le_check_at env) l))"
  using assms
  by (auto simp: login_def login_body_def Let_def split: if_splits sum.splits option.splits prod.splits)

lemma create_http_session_Inr:
  assumes "create_http_session th uid ex ua ip now d = Inr (row, d1)"
  shows "session_by_hash d1 th = Some (row\<lparr>hs_created_at := stored_time now, hs_expires_at := stored_time ex,
      hs_last_seen_at := stored_time now\<rparr>)"
    "hs_user_id row = uid" "hs_expires_at row = ex" "hs_token_hash row = th" "user_by_id d1 i = user_by_id d i"
    "user_by_id d uid \<noteq> None"
proof -
  have fresh: "one_or_none (\<lambda>r. hs_token_hash r = th) (db_sessions d) = None"
    using assms by (auto simp: create_http_session_def one_or_none_None split: if_splits)
  show "session_by_hash d1 th = Some (row\<lparr>hs_created_at := stored_time now, hs_expires_at := stored_time ex,
      hs_last_seen_at := stored_time now\<rparr>)"
    using assms fresh by (auto simp: create_http_session_def session_by_hash_def Let_def split: if_splits)
qed (use assms in \<open>auto simp: create_http_session_def user_by_id_def Let_def split: if_splits\<close>)

lemma verify_missing: "session_by_hash d th = None \<Longrightarrow>
    compute_session_token_hash L c (dk_session_token_mac_key (ss_keys sv)) = Inr th \<Longrightarrow>
    verify_cookie L sv c now d = Inr (None, d)"
  by (simp add: verify_cookie_def)

lemma session_roundtrip_result:
  assumes "lg_result (login L ufold sv env rq d l) = Inr out" "distinct (map us_id (db_users d))"
    "lg_db (login L ufold sv env rq d l) = d1"
  shows "(\<exists>u\<in>set (db_users d). us_username u = normalize_username ufold (lr_username rq) \<and>
      us_id u = us_id (lo_user out) \<and> phc_verify L (us_password_hash u) (lr_password rq)) \<and>
    (\<exists>v d2. verify_cookie L sv (lo_cookie_value out) t d1 = Inr (v, d2) \<and>
      (if t < stored_time (le_now env + ss_cookie_lifetime sv)
       then (\<exists>user session. v = Some (user, session) \<and> us_id user = us_id (lo_user out) \<and>
               hs_token_hash session = hs_token_hash (lo_session out))
       else v = None \<and> verify_cookie L sv (lo_cookie_value out) t2 d2 = Inr (None, d2))) \<and>
    (\<exists>d3. revoke_cookie L sv (lo_cookie_value out) d1 = Inr d3 \<and>
      verify_cookie L sv (lo_cookie_value out) t d3 = Inr (None, d3))"
proof -
  from assms(1) obtain u th row d0 where l:
    "user_by_username d (normalize_username ufold (lr_username rq)) = Some u"
    "pv_ok (verify_password L (us_password_hash u) (lr_password rq))"
    "compute_session_token_hash L (le_cookie env) (dk_session_token_mac_key (ss_keys sv)) = Inr th"
    "create_http_session th (us_id u) (le_now env + ss_cookie_lifetime sv) (lr_user_agent rq) (Some (lr_ip rq))
       (le_row_now env) d = Inr (row, d0)"
    "lo_cookie_value out = le_cookie env" "lo_session out = row" "us_id (lo_user out) = us_id u"
    "d1 = touch_last_login (us_id u) (le_now env) d0"
    by (rule login_Inr) (use assms(3) in auto)
  note made = create_http_session_Inr [OF l(4)]
  have u: "u \<in> set (db_users d)" "us_username u = normalize_username ufold (lr_username rq)"
    using one_or_none_SomeD [OF l(1) [unfolded user_by_username_def]] by simp_all
  have "phc_verify L (us_password_hash u) (lr_password rq)"
    using l(2) by (simp add: verify_password_def split: if_splits)
  moreover have "user_by_id d (us_id u) = Some u"
    using one_or_none_unique [OF assms(2) u(1)] by (simp add: user_by_id_def)
  then have uid: "user_by_id d1 (us_id u) = Some (u\<lparr>us_last_login_at := Some (stored_time (le_now env))\<rparr>)"
    using made(5) by (simp add: l(8) user_by_id_touched)
  moreover have "session_by_hash d1 th = Some (row\<lparr>hs_created_at := stored_time (le_row_now env),
      hs_expires_at := stored_time (le_now env + ss_cookie_lifetime sv), hs_last_seen_at := stored_time (le_row_now env)\<rparr>)"
    using made(1) by (simp add: l(8))
  moreover note verify_missing [OF delete_session_gone, where d1 = d1]
  ultimately show ?thesis
    using u l(3,5,6,7) made(2,4)
    by (auto simp: verify_cookie_def revoke_cookie_def delete_session_gone)
qed

text \<open>C30: The cookie of a successful login belongs to the account whose stored hash
  accepted the password; it is accepted, for that account, exactly until the stored expiry (the
  expiry cut to whole seconds), and after an expired presentation or a revocation it is refused at any time.\<close>

theorem login_session_roundtrip:
  assumes "lg_result (login L ufold sv env rq d l) = Inr out" "distinct (map us_id (db_users d))"
    "lg_db (login L ufold sv env rq d l) = d1"
  shows "(\<exists>u\<in>set (db_users d). us_username u = normalize_username ufold (lr_username rq) \<and>
      us_id u = us_id (lo_user out) \<and> phc_verify L (us_password_hash u) (lr_password rq)) \<and>
    (\<exists>v d2. verify_cookie L sv (lo_cookie_value out) t d1 = Inr (v, d2) \<and>
      (if t < stored_time (le_now env + ss_cookie_lifetime sv)
       then (\<exists>user session. v = Some (user, session) \<and> us_id user = us_id (lo_user out) \<and>
               hs_token_hash session = hs_token_hash (lo_session out))
       else v = None \<and> verify_cookie L sv (lo_cookie_value out) t2 d2 = Inr (None, d2))) \<and>
    (\<exists>d3. revoke_cookie L sv (lo_cookie_value out) d1 = Inr d3 \<and>
      verify_cookie L sv (lo_cookie_value out) t d3 = Inr (None, d3))"
  by (rule session_roundtrip_result [OF assms])

text \<open>A concrete service, call and request.\<close>

definition sample_service :: session_service where
  "sample_service = \<lparr>ss_keys = \<lparr>dk_stream_key_kek = ''a'', dk_api_token_mac_key = ''b'',
     dk_session_token_mac_key = ''c''\<rparr>, ss_floor = 1 / 4, ss_cookie_lifetime = SESSION_COOKIE_LIFETIME\<rparr>"

definition sample_login_env :: "rat \<Rightarrow> login_env" where
  "sample_login_env t = \<lparr>le_dummy_hash = ''burnt'', le_cookie = ''tok'', le_now = 7, le_row_now = 8,
     le_check_at = t, le_failed_at = t, le_elapsed = 1 / 10\<rparr>"

definition sample_request :: "pystr \<Rightarrow> login_request" where
  "sample_request pw = \<lparr>lr_username = ''admin'', lr_password = pw, lr_ip = ''ip'', lr_user_agent = None\<rparr>"

definition sample_limiter :: rate_limiter where
  "sample_limiter = \<lparr>rl_limit = 1, rl_window = 900, rl_by_ip = [], rl_by_username = []\<rparr>"

lemma sample_normal [simp]: "normalize_username id ''admin'' = ''admin''"
  by (simp add: normalize_username_def strip_by_def str_space_def)

lemmas sample_login_simps = login_def login_body_def sample_service_def sample_login_env_def sample_request_def
  sample_limiter_def rl_check_def touch_buckets_def bucket_def user_by_username_def sample_db_def
  one_or_none_def verify_password_def toy_lib_def compute_session_token_hash_def create_http_session_def
  user_by_id_def Let_def

theorem login_session_roundtrip_witness:
  "\<exists>out d1 user session d2.
    lg_result (login toy_lib id sample_service (sample_login_env 0) (sample_request ''h'') sample_db sample_limiter) = Inr out \<and>
    lg_db (login toy_lib id sample_service (sample_login_env 0) (sample_request ''h'') sample_db sample_limiter) = d1 \<and>
    verify_cookie toy_lib sample_service (lo_cookie_value out) 100 d1 = Inr (Some (user, session), d2) \<and>
    us_id user = us_id (lo_user out)"
proof -
  let ?r = "login toy_lib id sample_service (sample_login_env 0) (sample_request ''h'') sample_db sample_limiter"
  obtain out where out: "lg_result ?r = Inr out" by (simp add: sample_login_simps)
  have d: "distinct (map us_id (db_users sample_db))" by (simp add: sample_db_def)
  have "(100::int) < stored_time (le_now (sample_login_env 0) + ss_cookie_lifetime sample_service)"
    by (simp add: sample_login_env_def sample_service_def SESSION_COOKIE_LIFETIME_def stored_time_def
        result_time_def bind_seconds_def)
  then show ?thesis
    using login_session_roundtrip [OF out d refl, of 100 0] out by auto
qed

section \<open>What a refused login shows\<close>

text \<open>A denied attempt looks neither at the password nor at the database; two
  attempts for one name and address that are refused for their credentials, whether the name is
  unknown or the password wrong, give the same answer, the same padding and the same limiter, and
  change no table; in both cases the time used is filled up to the floor.\<close>

theorem login_refusal_uninformative:
  assumes "lr_username rq' = lr_username rq" "lr_ip rq' = lr_ip rq"
  shows "(\<not> rd_allowed (fst (rl_check ufold (lr_ip rq) (normalize_username ufold (lr_username rq)) (le_check_at env) l)) \<longrightarrow>
      lg_result (login L ufold sv env rq d l) =
        Inl (RateLimited (rd_retry_after_seconds (fst (rl_check ufold (lr_ip rq)
          (normalize_username ufold (lr_username rq)) (le_check_at env) l)))) \<and>
      lg_result (login L ufold sv env rq' d' l) = lg_result (login L ufold sv env rq d l)) \<and>
    (lg_result (login L ufold sv env rq d l) = Inl InvalidCredentials \<longrightarrow>
      lg_result (login L ufold sv env rq' d' l) = Inl InvalidCredentials \<longrightarrow>
      lg_limiter (login L ufold sv env rq' d' l) = lg_limiter (login L ufold sv env rq d l) \<and>
      lg_slept (login L ufold sv env rq' d' l) = lg_slept (login L ufold sv env rq d l) \<and>
      le_elapsed env + lg_slept (login L ufold sv env rq d l) = max (le_elapsed env) (ss_floor sv) \<and>
      lg_db (login L ufold sv env rq d l) = d \<and> lg_db (login L ufold sv env rq' d' l) = d')"
proof (intro conjI impI)
  assume i: "lg_result (login L ufold sv env rq d l) = Inl InvalidCredentials"
    "lg_result (login L ufold sv env rq' d' l) = Inl InvalidCredentials"
  note u = login_def Let_def case_prod_unfold assms
  show "lg_limiter (login L ufold sv env rq' d' l) = lg_limiter (login L ufold sv env rq d l)"
    "lg_slept (login L ufold sv env rq' d' l) = lg_slept (login L ufold sv env rq d l)"
    "le_elapsed env + lg_slept (login L ufold sv env rq d l) = max (le_elapsed env) (ss_floor sv)"
    "lg_db (login L ufold sv env rq d l) = d" "lg_db (login L ufold sv env rq' d' l) = d'"
    using i by (auto simp: u max_def split: if_splits sum.splits)
qed (simp_all add: login_def Let_def case_prod_unfold assms)

theorem login_refusal_uninformative_witness:
  "lg_limiter (login toy_lib id sample_service (sample_login_env 0) (sample_request ''guess'') sample_db sample_limiter) =
   lg_limiter (login toy_lib id sample_service (sample_login_env 0) (sample_request ''other'')
     (sample_db\<lparr>db_users := []\<rparr>) sample_limiter)"
proof -
  have "lg_result (login toy_lib id sample_service (sample_login_env 0) (sample_request ''guess'') sample_db sample_limiter) =
      Inl InvalidCredentials"
    "lg_result (login toy_lib id sample_service (sample_login_env 0) (sample_request ''other'')
      (sample_db\<lparr>db_users := []\<rparr>) sample_limiter) = Inl InvalidCredentials"
    by (simp_all add: sample_login_simps)
  then show ?thesis
    using login_refusal_uninformative [of "sample_request ''other''" "sample_request ''guess''" id
        "sample_login_env 0" sample_limiter toy_lib sample_service sample_db "sample_db\<lparr>db_users := []\<rparr>"]
    by (simp add: sample_request_def)
qed

section \<open>Guessing is bounded\<close>

text \<open>Logins one after the other. (Each awaits the password check between asking the limiter and
  recording the failure; calls that overlap there are the subject of
  \<open>concurrent_checks_overshoot\<close>.)\<close>

fun login_run ::
    "crypto_lib \<Rightarrow> (pystr \<Rightarrow> pystr) \<Rightarrow> session_service \<Rightarrow> (login_env \<times> login_request) list \<Rightarrow>
     database \<Rightarrow> rate_limiter \<Rightarrow> (login_env \<times> login_request \<times> (auth_error + login_outcome)) list" where
  "login_run L ufold sv [] d l = []"
| "login_run L ufold sv ((env, rq) # steps) d l =
     (let r = login L ufold sv env rq d l
      in (env, rq, lg_result r) # login_run L ufold sv steps (lg_db r) (lg_limiter r))"

definition call_times :: "(login_env \<times> login_request) list \<Rightarrow> rat list" where
  "call_times steps = concat (map (\<lambda>(env, rq). [le_check_at env, le_failed_at env]) steps)"

definition wrong_tries ::
    "(login_request \<Rightarrow> bool) \<Rightarrow> (login_env \<times> login_request \<times> (auth_error + login_outcome)) list \<Rightarrow> rat list" where
  "wrong_tries p res =
     map (\<lambda>(env, rq, r). le_failed_at env)
       (filter (\<lambda>(env, rq, r). r = Inl InvalidCredentials \<and> p rq) res)"

definition login_calls ::
    "(pystr \<Rightarrow> pystr) \<Rightarrow> login_env \<Rightarrow> login_request \<Rightarrow> auth_error + login_outcome \<Rightarrow> (login_op \<times> rat) list" where
  "login_calls ufold env rq r =
     (Check (lr_ip rq) (normalize_username ufold (lr_username rq)), le_check_at env) #
     (if r = Inl InvalidCredentials
      then [(Failure (lr_ip rq) (normalize_username ufold (lr_username rq)), le_failed_at env)] else [])"

lemma login_limiter_calls:
  "lg_limiter (login L ufold sv env rq d l) =
    foldl (rl_do ufold) l (login_calls ufold env rq (lg_result (login L ufold sv env rq d l)))"
  by (auto simp: login_def login_calls_def Let_def case_prod_unfold split: sum.split)

lemma wrong_try_allowed:
  "lg_result (login L ufold sv env rq d l) = Inl InvalidCredentials \<Longrightarrow>
    rd_allowed (fst (rl_check ufold (lr_ip rq) (normalize_username ufold (lr_username rq)) (le_check_at env) l))"
  by (simp add: login_def Let_def case_prod_unfold split: if_splits)

definition guess_key :: "(pystr \<Rightarrow> pystr) \<Rightarrow> login_request \<Rightarrow> pystr" where
  "guess_key ufold rq = normalize_username ufold (normalize_username ufold (lr_username rq))"

lemma stamps_login_calls:
  "ip_stamps (ops @ login_calls ufold env rq r) k =
    ip_stamps ops k @ wrong_tries (\<lambda>rq. lr_ip rq = k) [(env, rq, r)]"
  "name_stamps ufold (ops @ login_calls ufold env rq r) n =
    name_stamps ufold ops n @ wrong_tries (\<lambda>rq. guess_key ufold rq = n) [(env, rq, r)]"
  by (simp_all add: ip_stamps_def name_stamps_def login_calls_def wrong_tries_def guess_key_def)

lemma guesses_bounded_step:
  assumes n: "new_rate_limiter limit w = Inr l0"
    and srt: "sorted (map snd ops @ [le_check_at env])" "le_check_at env \<le> le_failed_at env"
    and r: "r = lg_result (login L ufold sv env rq d (foldl (rl_do ufold) l0 ops))"
    and ip: "\<And>s k. int (length (in_window w s (ip_stamps ops k))) \<le> limit"
    and name: "\<And>s k. int (length (in_window w s (name_stamps ufold ops k))) \<le> limit"
  shows "int (length (in_window w s (ip_stamps (ops @ login_calls ufold env rq r) k))) \<le> limit"
    "int (length (in_window w s (name_stamps ufold (ops @ login_calls ufold env rq r) k))) \<le> limit"
proof -
  have pos: "0 \<le> limit" using limiter_params [OF n] by simp
  have old: "\<forall>u\<in>set (ip_stamps ops k). u \<le> le_check_at env" "\<forall>u\<in>set (name_stamps ufold ops k). u \<le> le_check_at env" for k
    using srt(1) stamps_subset(1) [of ops k] stamps_subset(2) [of ufold ops k] by (auto simp: sorted_append)
  have rec: "int (length (recent w (le_check_at env) (ip_stamps ops (lr_ip rq)))) < limit"
    "int (length (recent w (le_check_at env) (name_stamps ufold ops (guess_key ufold rq)))) < limit"
    if "r = Inl InvalidCredentials"
    using wrong_try_allowed [OF that [unfolded r]] unfolding check_allowed [OF n srt(1)] guess_key_def by blast+
  show "int (length (in_window w s (ip_stamps (ops @ login_calls ufold env rq r) k))) \<le> limit"
    unfolding stamps_login_calls
    using ip [of s k] in_window_extend [OF ip old(1) srt(2) pos rec(1)] by (auto simp: wrong_tries_def)
  show "int (length (in_window w s (name_stamps ufold (ops @ login_calls ufold env rq r) k))) \<le> limit"
    unfolding stamps_login_calls
    using name [of s k] in_window_extend [OF name old(2) srt(2) pos rec(2)] by (auto simp: wrong_tries_def)
qed

lemma wrong_tries_Cons: "wrong_tries p (x # res) = wrong_tries p [x] @ wrong_tries p res"
  by (simp add: wrong_tries_def)

lemma guesses_bounded_run:
  assumes n: "new_rate_limiter limit w = Inr l0"
    and "sorted (map snd ops @ call_times steps)"
    and "\<And>s k. int (length (in_window w s (ip_stamps ops k))) \<le> limit"
    and "\<And>s k. int (length (in_window w s (name_stamps ufold ops k))) \<le> limit"
  shows "int (length (in_window w s (ip_stamps ops k @
      wrong_tries (\<lambda>rq. lr_ip rq = k) (login_run L ufold sv steps d (foldl (rl_do ufold) l0 ops))))) \<le> limit \<and>
    int (length (in_window w s (name_stamps ufold ops k @
      wrong_tries (\<lambda>rq. guess_key ufold rq = k) (login_run L ufold sv steps d (foldl (rl_do ufold) l0 ops))))) \<le> limit"
  using assms(2-)
proof (induction steps arbitrary: ops d)
  case Nil
  then show ?case by (simp add: wrong_tries_def)
next
  case (Cons st steps)
  obtain env rq where st: "st = (env, rq)" by (cases st)
  let ?l = "foldl (rl_do ufold) l0 ops"
  let ?r = "login L ufold sv env rq d ?l"
  let ?ops = "ops @ login_calls ufold env rq (lg_result ?r)"
  have times: "sorted (map snd ops @ [le_check_at env])" "le_check_at env \<le> le_failed_at env"
    using Cons.prems(1) by (auto simp: st call_times_def sorted_append)
  have "sorted (map snd ?ops @ call_times steps)"
    using Cons.prems(1) by (auto simp: st call_times_def sorted_append login_calls_def)
  moreover note guesses_bounded_step [OF n times refl Cons.prems(2,3)]
  ultimately have "int (length (in_window w s (ip_stamps ?ops k @
      wrong_tries (\<lambda>rq. lr_ip rq = k) (login_run L ufold sv steps (lg_db ?r) (foldl (rl_do ufold) l0 ?ops))))) \<le> limit \<and>
    int (length (in_window w s (name_stamps ufold ?ops k @
      wrong_tries (\<lambda>rq. guess_key ufold rq = k) (login_run L ufold sv steps (lg_db ?r) (foldl (rl_do ufold) l0 ?ops))))) \<le> limit"
    by (intro Cons.IH)
  then show ?case
    unfolding st login_run.simps Let_def stamps_login_calls login_limiter_calls foldl_append append_assoc
      wrong_tries_Cons [of _ "(env, rq, lg_result ?r)" "login_run L ufold sv steps _ _"] .
qed

text \<open>C8: However many logins follow one another, in no window do more than the limit
  of wrong passwords get tried against one account or from one address.\<close>

theorem password_guesses_bounded:
  assumes "new_rate_limiter limit w = Inr l0" "sorted (call_times steps)"
  shows "int (length (in_window w s (wrong_tries (\<lambda>rq. guess_key ufold rq = k) (login_run L ufold sv steps d l0)))) \<le> limit \<and>
    int (length (in_window w s (wrong_tries (\<lambda>rq. lr_ip rq = k) (login_run L ufold sv steps d l0)))) \<le> limit"
proof -
  have z: "int (length (in_window w s (ip_stamps [] k))) \<le> limit"
    "int (length (in_window w s (name_stamps ufold [] k))) \<le> limit" for s k
    using limiter_params [OF assms(1)] by (simp_all add: in_window_def ip_stamps_def name_stamps_def)
  show ?thesis
    using guesses_bounded_run [OF assms(1), of "[]" steps ufold s k L sv d, OF _ z] assms(2)
    by (simp add: ip_stamps_def name_stamps_def)
qed

theorem password_guesses_bounded_witness:
  "length (in_window 900 2 (wrong_tries (\<lambda>rq. lr_ip rq = ''ip'')
    (login_run toy_lib id sample_service
      [(sample_login_env 0, sample_request ''a''), (sample_login_env 1, sample_request ''b''),
       (sample_login_env 2, sample_request ''c'')] sample_db sample_limiter))) \<le> 1"
proof -
  have n: "new_rate_limiter 1 900 = Inr sample_limiter" by (simp add: new_rate_limiter_def sample_limiter_def)
  have "sorted (call_times [(sample_login_env 0, sample_request ''a''), (sample_login_env 1, sample_request ''b''),
       (sample_login_env 2, sample_request ''c'')])"
    by (simp add: call_times_def sample_login_env_def)
  from password_guesses_bounded [OF n this, of 2 id _ toy_lib sample_service sample_db]
  show ?thesis by fastforce
qed

end
