(* ===== verification/Api_Tokens.thy ===== *)
theory Api_Tokens
  imports Login_Sessions
begin

text \<open>
  Bearer tokens, \<^verbatim>\<open>app/auth/api_tokens.py\<close>: the shape of a token, the \<^verbatim>\<open>Authorization\<close> header, and
  \<^verbatim>\<open>ApiTokenService\<close> over the database of the request. The random part of a new token, its id and
  the clock readings are arguments. The two regular expressions are written as the scans they are:
  both are deterministic, and \<^verbatim>\<open>$\<close> also matches before a final newline.
\<close>

section \<open>Shape of a token\<close>

definition API_TOKEN_PREFIX :: pystr where
  "API_TOKEN_PREFIX = ''rpat_''"

definition token_char :: "char \<Rightarrow> bool" where
  "token_char c = (let n = char_code c in (48 \<le> n \<and> n \<le> 57) \<or> (65 \<le> n \<and> n \<le> 90) \<or> (97 \<le> n \<and> n \<le> 122) \<or>
     c = CHR ''_'' \<or> c = CHR ''-'')"

definition at_end :: "pystr \<Rightarrow> bool" where
  "at_end s \<longleftrightarrow> s = [] \<or> s = [CHR 0x0A]"

text \<open>\<^verbatim>\<open>^rpat_[A-Za-z0-9_-]+$\<close>\<close>

definition token_prefix_match :: "pystr \<Rightarrow> bool" where
  "token_prefix_match s \<longleftrightarrow> prefix API_TOKEN_PREFIX s \<and>
     (let body = drop (length API_TOKEN_PREFIX) s
      in takeWhile token_char body \<noteq> [] \<and> at_end (dropWhile token_char body))"

definition ascii_lower :: "char \<Rightarrow> char" where
  "ascii_lower c = (let n = char_code c in if 65 \<le> n \<and> n \<le> 90 then char_of (n + 32) else c)"

text \<open>\<^verbatim>\<open>^Bearer +(\S+) *$\<close>, ignoring case.\<close>

definition bearer_match :: "pystr \<Rightarrow> pystr option" where
  "bearer_match s =
     (let rest = drop 6 s;
          value = dropWhile (\<lambda>c. c = CHR '' '') rest;
          token = takeWhile (\<lambda>c. \<not> str_space c) value;
          after = dropWhile (\<lambda>c. c = CHR '' '') (dropWhile (\<lambda>c. \<not> str_space c) value)
      in if map ascii_lower (take 6 s) = ''bearer'' \<and> prefix '' '' rest \<and> token \<noteq> [] \<and> at_end after
         then Some token else None)"

definition extract_bearer_from_authorization :: "pystr option \<Rightarrow> pystr option" where
  "extract_bearer_from_authorization header =
     (case header of
        None \<Rightarrow> None
      | Some h \<Rightarrow>
         (case bearer_match h of
            None \<Rightarrow> None
          | Some token \<Rightarrow> (if \<not> token_prefix_match token then None else Some token)))"

section \<open>The service\<close>

definition generate_api_token_plaintext :: "pystr \<Rightarrow> pystr" where
  "generate_api_token_plaintext random = API_TOKEN_PREFIX @ random"

definition compute_api_token_hash :: "crypto_lib \<Rightarrow> pystr \<Rightarrow> bytes \<Rightarrow> auth_error + bytes" where
  "compute_api_token_hash L plaintext mac_key =
     (if plaintext = [] then Inl (AuthValueError ''plaintext must not be empty'')
      else Inr (hmac_sha256 L mac_key (utf8_encode plaintext)))"

record created_api_token =
  ct_plaintext :: pystr
  ct_dto :: api_token_row

definition token_create ::
    "crypto_lib \<Rightarrow> derived_keys \<Rightarrow> pystr \<Rightarrow> pystr \<Rightarrow> pystr \<Rightarrow> pystr \<Rightarrow> datetime \<Rightarrow> database \<Rightarrow>
     auth_error + created_api_token \<times> database" where
  "token_create L ks random new_id uid label now d =
     (let cleaned_label = py_strip label
      in if cleaned_label = []
         then Inl (AuthValueError ''label must be a non-empty string after stripping whitespace'')
         else if uid = [] then Inl (AuthValueError ''user_id must be a non-empty string'')
         else (let plaintext = generate_api_token_plaintext random
               in case compute_api_token_hash L plaintext (dk_api_token_mac_key ks) of
                    Inl e \<Rightarrow> Inl e
                  | Inr th \<Rightarrow>
                     (case create_api_token new_id uid th cleaned_label now d of
                        Inl e \<Rightarrow> Inl (AuthDb e)
                      | Inr (dto, d1) \<Rightarrow> Inr (\<lparr>ct_plaintext = plaintext, ct_dto = dto\<rparr>, d1))))"

definition verify_bearer ::
    "crypto_lib \<Rightarrow> derived_keys \<Rightarrow> pystr option \<Rightarrow> datetime \<Rightarrow> database \<Rightarrow> api_token_row option \<times> database" where
  "verify_bearer L ks plaintext now d =
     (case plaintext of
        None \<Rightarrow> (None, d)
      | Some p \<Rightarrow>
         (if p = [] then (None, d)
          else if \<not> token_prefix_match p then (None, d)
          else (case compute_api_token_hash L p (dk_api_token_mac_key ks) of
                  Inl e \<Rightarrow> (None, d)
                | Inr th \<Rightarrow>
                   (case active_token_by_hash d th of
                      None \<Rightarrow> (None, d)
                    | Some dto \<Rightarrow> (Some dto, touch_last_used (at_id dto) now d)))))"

definition token_revoke :: "pystr \<Rightarrow> datetime \<Rightarrow> database \<Rightarrow> bool \<times> database" where
  "token_revoke tid now d = revoke_token tid now d"

definition token_list_all :: "database \<Rightarrow> api_token_row list" where
  "token_list_all d = list_api_tokens d"

section \<open>A created token is a bearer until it is revoked\<close>

lemma token_prefix_match_generated:
  "random \<noteq> [] \<Longrightarrow> \<forall>c\<in>set random. token_char c \<Longrightarrow> token_prefix_match (generate_api_token_plaintext random)"
  by (simp add: token_prefix_match_def generate_api_token_plaintext_def at_end_def takeWhile_eq_all_conv [THEN iffD2]
      dropWhile_eq_Nil_conv [THEN iffD2])

lemma token_char_no_space: "token_char c \<Longrightarrow> \<not> str_space c"
  by (auto simp: token_char_def str_space_def char_code_def Let_def)

lemma bearer_scheme: "map ascii_lower ''Bearer'' = ''bearer''"
  by code_simp

lemma bearer_match_header:
  assumes "\<forall>c\<in>set token. \<not> str_space c" "token \<noteq> []"
  shows "bearer_match (''Bearer '' @ replicate m (CHR '' '') @ token @ replicate n (CHR '' '')) = Some token"
proof -
  have space: "str_space (CHR '' '')" by (simp add: str_space_def)
  have "hd token \<noteq> CHR '' ''" using assms space by (metis hd_in_set)
  then have val: "dropWhile (\<lambda>c. c = CHR '' '') (replicate k (CHR '' '') @ token @ r) = token @ r" for k r
    using assms(2) by (induction k) (cases token; simp)+
  have tok: "takeWhile (\<lambda>c. \<not> str_space c) (token @ replicate n (CHR '' '')) = token"
    "dropWhile (\<lambda>c. \<not> str_space c) (token @ replicate n (CHR '' '')) = replicate n (CHR '' '')"
    using assms(1) space by (cases n; simp add: takeWhile_append2 dropWhile_append2)+
  have rest: "dropWhile (\<lambda>c. c = CHR '' '') (replicate n (CHR '' '')) = []" by (induction n) auto
  show ?thesis
    using assms(2) val [of "Suc m"] tok rest bearer_scheme
    by (simp add: bearer_match_def Let_def at_end_def)
qed

lemma active_token_touched:
  "active_token_by_hash (touch_last_used i t d) th =
    map_option (\<lambda>r. if at_id r = i then r\<lparr>at_last_used_at := Some (stored_time t)\<rparr> else r) (active_token_by_hash d th)"
  by (simp add: active_token_by_hash_def touch_last_used_def one_or_none_update_other)

lemma create_api_token_Inr:
  assumes "create_api_token i uid th label now d = Inr (row, d1)"
  shows "active_token_by_hash d1 th = Some (row\<lparr>at_created_at := stored_time now\<rparr>)"
    "at_id row = i" "at_user_id row = uid" "at_token_hash row = th"
    "distinct (map at_token_hash (db_api_tokens d)) \<Longrightarrow> distinct (map at_token_hash (db_api_tokens d1))"
proof -
  have fresh: "one_or_none (\<lambda>r. at_token_hash r = th \<and> at_revoked_at r = None) (db_api_tokens d) = None"
    using assms by (auto simp: create_api_token_def one_or_none_None split: if_splits)
  show "active_token_by_hash d1 th = Some (row\<lparr>at_created_at := stored_time now\<rparr>)"
    using assms fresh by (auto simp: create_api_token_def active_token_by_hash_def Let_def split: if_splits)
qed (use assms in \<open>auto simp: create_api_token_def Let_def split: if_splits\<close>)

lemma touched_distinct:
  "map at_token_hash (db_api_tokens (touch_last_used i t d)) = map at_token_hash (db_api_tokens d)"
  by (simp add: touch_last_used_def update_where_def)

text \<open>C31: A created token, sent in an Authorization header with any number of blanks around
  it, is read back as it was issued and belongs to the user it was made for, at every time and
  however often it is used, until it is revoked; from then on it is refused.\<close>

theorem bearer_token_roundtrip:
  assumes "token_create L ks random new_id uid label now d = Inr (created, d1)"
    "random \<noteq> []" "\<forall>c\<in>set random. token_char c" "distinct (map at_token_hash (db_api_tokens d))"
  shows "extract_bearer_from_authorization
      (Some (''Bearer '' @ replicate m (CHR '' '') @ ct_plaintext created @ replicate n (CHR '' ''))) =
      Some (ct_plaintext created) \<and>
    (\<exists>dto d2. verify_bearer L ks (Some (ct_plaintext created)) t d1 = (Some dto, d2) \<and>
      at_id dto = new_id \<and> at_user_id dto = uid \<and>
      (\<exists>dto' d3. verify_bearer L ks (Some (ct_plaintext created)) t' d2 = (Some dto', d3) \<and> at_id dto' = new_id) \<and>
      verify_bearer L ks (Some (ct_plaintext created)) t' (snd (token_revoke new_id t'' d2)) =
        (None, snd (token_revoke new_id t'' d2)))"
proof -
  let ?p = "generate_api_token_plaintext random"
  let ?th = "hmac_sha256 L (dk_api_token_mac_key ks) (utf8_encode ?p)"
  have p: "?p \<noteq> []" by (simp add: generate_api_token_plaintext_def API_TOKEN_PREFIX_def)
  then have hash: "compute_api_token_hash L ?p (dk_api_token_mac_key ks) = Inr ?th"
    by (simp add: compute_api_token_hash_def)
  obtain row where row: "create_api_token new_id uid ?th (py_strip label) now d = Inr (row, d1)"
    and created: "created = \<lparr>ct_plaintext = ?p, ct_dto = row\<rparr>"
    using assms(1) hash by (auto simp: token_create_def Let_def split: if_splits sum.splits)
  note made = create_api_token_Inr [OF row]
  have shape: "token_prefix_match ?p" by (rule token_prefix_match_generated) fact+
  have nospace: "\<forall>c\<in>set ?p. \<not> str_space c"
    using assms(3) token_char_no_space
    by (auto simp: generate_api_token_plaintext_def API_TOKEN_PREFIX_def str_space_def)
  have verified: "verify_bearer L ks (Some ?p) u e =
      (case active_token_by_hash e ?th of None \<Rightarrow> (None, e) | Some dto \<Rightarrow> (Some dto, touch_last_used (at_id dto) u e))" for u e
    using p shape hash by (simp add: verify_bearer_def)
  let ?d2 = "touch_last_used new_id t d1"
  have found: "active_token_by_hash ?d2 ?th = Some (row\<lparr>at_created_at := stored_time now, at_last_used_at := Some (stored_time t)\<rparr>)"
    using made(1,2) by (simp add: active_token_touched)
  have "active_token_by_hash (snd (revoke_token new_id t'' ?d2)) ?th = None"
    using revoked_token_not_active [OF _ found] made(2) made(5) [OF assms(4)] by (simp add: touched_distinct)
  then show ?thesis
    using bearer_match_header [OF nospace p] shape found made(1-3)
    by (simp add: extract_bearer_from_authorization_def created verified token_revoke_def)
qed

theorem bearer_token_roundtrip_witness:
  "\<exists>created d1 dto d2.
    token_create toy_lib (ss_keys sample_service) ''Ab-9_'' ''id1'' ''u'' '' cli '' 3 sample_db = Inr (created, d1) \<and>
    verify_bearer toy_lib (ss_keys sample_service) (Some ''rpat_Ab-9_'') 50 d1 = (Some dto, d2) \<and> at_user_id dto = ''u''"
proof -
  obtain created d1 where c:
    "token_create toy_lib (ss_keys sample_service) ''Ab-9_'' ''id1'' ''u'' '' cli '' 3 sample_db = Inr (created, d1)"
    "ct_plaintext created = ''rpat_Ab-9_''"
    by (simp add: token_create_def strip_by_def str_space_def compute_api_token_hash_def create_api_token_def
        generate_api_token_plaintext_def API_TOKEN_PREFIX_def sample_db_def user_by_id_def one_or_none_def Let_def)
  have h: "''Ab-9_'' \<noteq> []" "\<forall>c\<in>set ''Ab-9_''. token_char c" "distinct (map at_token_hash (db_api_tokens sample_db))"
    by (simp_all add: token_char_def char_code_def sample_db_def)
  show ?thesis using bearer_token_roundtrip [OF c(1) h, of 0 0 50 60 70] c by auto
qed

end
