(* ===== verification/Reprompts.thy ===== *)
theory Reprompts
  imports Interfaces
begin

text \<open>
  The reprompt grants of \<^verbatim>\<open>app/auth/reprompts.py\<close>: one-shot proofs of a password entered in the last
  minute, bound to a user and a scope. The dictionary is an association list; the random grant id
  and the monotonic clock (a rational number of seconds) are arguments.
\<close>

section \<open>The store\<close>

datatype reprompt_scope =
    REVEAL_STREAM_KEY
  | REGENERATE_INGEST_KEY
  | ROTATE_PASSPHRASE
  | CHANGE_PASSWORD
  | DELETE_TARGET
  | REVOKE_API_TOKEN
  | CLEAR_CREDENTIAL
  | REVEAL_INGEST_KEY

definition REPROMPT_GRANT_TTL_SECONDS :: rat where
  "REPROMPT_GRANT_TTL_SECONDS = 60"

record reprompt_grant =
  rg_user_id :: pystr
  rg_scope :: reprompt_scope
  rg_issued_at :: rat

record reprompt_store =
  rp_ttl :: rat
  rp_grants :: "(pystr \<times> reprompt_grant) list"

definition new_reprompt_store :: "rat \<Rightarrow> value_error + reprompt_store" where
  "new_reprompt_store ttl =
     (if ttl \<le> 0 then Inl (ValueError ''ttl_seconds must be > 0'')
      else Inr \<lparr>rp_ttl = ttl, rp_grants = []\<rparr>)"

definition rp_issue ::
    "pystr \<Rightarrow> pystr \<Rightarrow> reprompt_scope \<Rightarrow> rat \<Rightarrow> reprompt_store \<Rightarrow> value_error + pystr \<times> reprompt_store" where
  "rp_issue grant_id uid scope now st =
     (if uid = [] then Inl (ValueError ''user_id must be a non-empty string'')
      else Inr (grant_id, st\<lparr>rp_grants := AList.update grant_id
             \<lparr>rg_user_id = uid, rg_scope = scope, rg_issued_at = now\<rparr> (rp_grants st)\<rparr>))"

definition rp_consume ::
    "pystr \<Rightarrow> pystr \<Rightarrow> reprompt_scope \<Rightarrow> rat \<Rightarrow> reprompt_store \<Rightarrow> bool \<times> reprompt_store" where
  "rp_consume grant_id uid scope now st =
     (let st' = st\<lparr>rp_grants := AList.delete grant_id (rp_grants st)\<rparr>
      in case map_of (rp_grants st) grant_id of
           None \<Rightarrow> (False, st')
         | Some g \<Rightarrow>
             (if now - rg_issued_at g \<ge> rp_ttl st then (False, st')
              else (rg_user_id g = uid \<and> rg_scope g = scope, st')))"

definition rp_prune_expired :: "rat \<Rightarrow> reprompt_store \<Rightarrow> nat \<times> reprompt_store" where
  "rp_prune_expired now st =
     (let threshold = now - rp_ttl st;
          gone = map fst (filter (\<lambda>(i, g). rg_issued_at g \<le> threshold) (rp_grants st))
      in (length gone, st\<lparr>rp_grants := foldl (\<lambda>gs i. AList.delete i gs) (rp_grants st) gone\<rparr>))"

definition rp_reset :: "reprompt_store \<Rightarrow> reprompt_store" where
  "rp_reset st = st\<lparr>rp_grants := []\<rparr>"

interpretation grants: keyed_store map_of "\<lambda>i g. g" AList.update AList.delete
    "\<lambda>gs. distinct (map fst gs)"
  by unfold_locales (auto simp: AList.update_conv' AList.delete_conv' distinct_update distinct_delete)

section \<open>Sequences of calls\<close>

text \<open>Lookups are kept as lookups.\<close>

declare map_of_eq_Some_iff [simp del] Some_eq_map_of_iff [simp del]

datatype reprompt_op =
    Issue pystr pystr reprompt_scope
  | Consume pystr pystr reprompt_scope
  | PruneExpired
  | Reset

fun rp_do :: "reprompt_store \<Rightarrow> reprompt_op \<times> rat \<Rightarrow> reprompt_store" where
  "rp_do st (Issue i uid scope, now) =
     (case rp_issue i uid scope now st of Inl e \<Rightarrow> st | Inr (gid, st') \<Rightarrow> st')"
| "rp_do st (Consume i uid scope, now) = snd (rp_consume i uid scope now st)"
| "rp_do st (PruneExpired, now) = snd (rp_prune_expired now st)"
| "rp_do st (Reset, now) = rp_reset st"

text \<open>The calls that decide about a grant id: issuing it, consuming it by whomever, and a reset.\<close>

fun touches :: "pystr \<Rightarrow> reprompt_op \<times> rat \<Rightarrow> bool" where
  "touches i (Issue j uid scope, t) = (i = j \<and> uid \<noteq> [])"
| "touches i (Consume j uid scope, t) = (i = j)"
| "touches i (PruneExpired, t) = False"
| "touches i (Reset, t) = True"

definition granted :: "pystr \<Rightarrow> pystr \<Rightarrow> reprompt_scope \<Rightarrow> rat \<Rightarrow> (reprompt_op \<times> rat) list \<Rightarrow> bool" where
  "granted i uid scope t ops \<longleftrightarrow>
     (\<exists>before later. ops = before @ (Issue i uid scope, t) # later \<and> uid \<noteq> [] \<and> (\<forall>e\<in>set later. \<not> touches i e))"

lemma granted_Nil [simp]: "\<not> granted i uid scope t []"
  by (simp add: granted_def)

lemma granted_snoc: "granted i uid scope t (ops @ [e]) \<longleftrightarrow>
    (uid \<noteq> [] \<and> e = (Issue i uid scope, t)) \<or> (granted i uid scope t ops \<and> \<not> touches i e)"
proof
  assume "granted i uid scope t (ops @ [e])"
  then obtain before later where l: "ops @ [e] = before @ (Issue i uid scope, t) # later" "uid \<noteq> []"
    "\<forall>e\<in>set later. \<not> touches i e"
    by (auto simp: granted_def)
  then show "(uid \<noteq> [] \<and> e = (Issue i uid scope, t)) \<or> (granted i uid scope t ops \<and> \<not> touches i e)"
    unfolding granted_def by (cases later rule: rev_cases) auto
next
  assume "(uid \<noteq> [] \<and> e = (Issue i uid scope, t)) \<or> (granted i uid scope t ops \<and> \<not> touches i e)"
  then show "granted i uid scope t (ops @ [e])"
    unfolding granted_def by (elim disjE conjE exE) (force intro: exI [of _ "_ @ [e]"])+
qed

lemma granted_time: "granted i uid scope t ops \<Longrightarrow> t \<in> set (map snd ops)"
  by (auto simp: granted_def)

lemma map_of_deletes:
  "map_of (foldl (\<lambda>gs i. AList.delete i gs) gs is) j = (if j \<in> set is then None else map_of gs j)"
  by (induction "is" arbitrary: gs) (auto simp: AList.delete_conv')

lemma distinct_deletes:
  "distinct (map fst gs) \<Longrightarrow> distinct (map fst (foldl (\<lambda>gs i. AList.delete i gs) gs is))"
  by (induction "is" arbitrary: gs) (simp_all add: distinct_delete)

lemma rp_do_ttl [simp]: "rp_ttl (rp_do st e) = rp_ttl st"
  by (cases "(st, e)" rule: rp_do.cases)
    (auto simp: rp_issue_def rp_consume_def rp_prune_expired_def rp_reset_def Let_def split: option.split)

text \<open>\<open>grant_sim\<close>: what the store still holds under an id was granted by the log, and what the log
  granted within the lifetime is still there.\<close>

definition grant_sim :: "rat \<Rightarrow> rat \<Rightarrow> reprompt_store \<Rightarrow> (reprompt_op \<times> rat) list \<Rightarrow> bool" where
  "grant_sim ttl cur st ops \<longleftrightarrow> rp_ttl st = ttl \<and> distinct (map fst (rp_grants st)) \<and>
     (\<forall>i g. map_of (rp_grants st) i = Some g \<longrightarrow> granted i (rg_user_id g) (rg_scope g) (rg_issued_at g) ops) \<and>
     (\<forall>i uid scope t. granted i uid scope t ops \<longrightarrow> cur - t < ttl \<longrightarrow>
        map_of (rp_grants st) i = Some \<lparr>rg_user_id = uid, rg_scope = scope, rg_issued_at = t\<rparr>)"

lemma grant_simD:
  assumes "grant_sim ttl cur st ops"
  shows "rp_ttl st = ttl" "distinct (map fst (rp_grants st))"
    "map_of (rp_grants st) i = Some g \<Longrightarrow> granted i (rg_user_id g) (rg_scope g) (rg_issued_at g) ops"
    "granted i uid scope t ops \<Longrightarrow> cur - t < ttl \<Longrightarrow>
       map_of (rp_grants st) i = Some \<lparr>rg_user_id = uid, rg_scope = scope, rg_issued_at = t\<rparr>"
  using assms unfolding grant_sim_def by blast+

lemma grant_simI:
  assumes "rp_ttl st = ttl" "distinct (map fst (rp_grants st))"
    "\<And>i g. map_of (rp_grants st) i = Some g \<Longrightarrow> granted i (rg_user_id g) (rg_scope g) (rg_issued_at g) ops"
    "\<And>i uid scope t. granted i uid scope t ops \<Longrightarrow> cur - t < ttl \<Longrightarrow>
       map_of (rp_grants st) i = Some \<lparr>rg_user_id = uid, rg_scope = scope, rg_issued_at = t\<rparr>"
  shows "grant_sim ttl cur st ops"
  using assms unfolding grant_sim_def by blast

lemma grant_sim_later: "grant_sim ttl cur st ops \<Longrightarrow> cur \<le> now \<Longrightarrow> grant_sim ttl now st ops"
  by (rule grant_simI) (auto intro: grant_simD)

lemma grant_sim_step:
  assumes sim: "grant_sim ttl now st ops" and ttl: "0 < ttl"
  shows "grant_sim ttl now (rp_do st (x, now)) (ops @ [(x, now)])"
proof (rule grant_simI)
  note held = grant_simD(3) [OF sim] and alive = grant_simD(4) [OF sim]
  note basic = grant_simD(1,2) [OF sim]
  show "rp_ttl (rp_do st (x, now)) = ttl" using basic by simp
  have look: "map_of (rp_grants (rp_do st (x, now))) i =
      (case x of
         Issue j uid scope \<Rightarrow>
           (if i = j \<and> uid \<noteq> [] then Some \<lparr>rg_user_id = uid, rg_scope = scope, rg_issued_at = now\<rparr>
            else map_of (rp_grants st) i)
       | Consume j uid scope \<Rightarrow> (if i = j then None else map_of (rp_grants st) i)
       | PruneExpired \<Rightarrow> (case map_of (rp_grants st) i of None \<Rightarrow> None
           | Some g \<Rightarrow> if rg_issued_at g \<le> now - ttl then None else Some g)
       | Reset \<Rightarrow> None)" (is "?l i = ?r i") for i
  proof (cases x)
    case PruneExpired
    let ?gone = "map fst (filter (\<lambda>(i, g). rg_issued_at g \<le> now - ttl) (rp_grants st))"
    have "i \<in> set ?gone \<longleftrightarrow> (\<exists>g. (i, g) \<in> set (rp_grants st) \<and> rg_issued_at g \<le> now - ttl)"
      by force
    then have gone: "i \<in> set ?gone \<longleftrightarrow>
        (case map_of (rp_grants st) i of None \<Rightarrow> False | Some g \<Rightarrow> rg_issued_at g \<le> now - ttl)"
      using basic(2) by (auto split: option.split dest: map_of_SomeD)
    have "?l i = (if i \<in> set ?gone then None else map_of (rp_grants st) i)"
      using PruneExpired basic(1) by (simp add: rp_prune_expired_def Let_def map_of_deletes)
    then show ?thesis unfolding gone using PruneExpired by (simp split: option.split)
  qed (auto simp: rp_issue_def rp_consume_def rp_reset_def Let_def AList.update_conv' AList.delete_conv'
      split: option.split)
  show "distinct (map fst (rp_grants (rp_do st (x, now))))"
    using basic(2) by (cases x)
      (auto simp: rp_issue_def rp_consume_def rp_reset_def rp_prune_expired_def Let_def distinct_update
        distinct_delete distinct_deletes split: option.split)
  show "granted i (rg_user_id g) (rg_scope g) (rg_issued_at g) (ops @ [(x, now)])"
    if "map_of (rp_grants (rp_do st (x, now))) i = Some g" for i g
    using that held unfolding look granted_snoc
    by (cases x) (auto split: if_splits option.splits)
  show "map_of (rp_grants (rp_do st (x, now))) i = Some \<lparr>rg_user_id = uid, rg_scope = scope, rg_issued_at = t\<rparr>"
    if "granted i uid scope t (ops @ [(x, now)])" "now - t < ttl" for i uid scope t
    using that alive [of i uid scope t] unfolding look granted_snoc
    by (cases x) (auto split: if_splits option.splits)
qed

lemma grant_sim_run:
  assumes "new_reprompt_store ttl = Inr st0" "sorted (map snd ops @ [now])"
  shows "grant_sim ttl now (foldl rp_do st0 ops) ops"
  using assms(2)
proof (induction ops arbitrary: now rule: rev_induct)
  case Nil
  have "rp_ttl st0 = ttl" "rp_grants st0 = []"
    using assms(1) by (auto simp: new_reprompt_store_def split: if_splits)
  then show ?case by (intro grant_simI) simp_all
next
  case (snoc e ops)
  obtain x t where e: "e = (x, t)" by (cases e)
  have ttl: "0 < ttl" using assms(1) by (simp add: new_reprompt_store_def split: if_splits)
  have "grant_sim ttl t (foldl rp_do st0 ops) ops"
    using snoc.prems e by (intro snoc.IH) (simp add: sorted_append)
  then have "grant_sim ttl t (foldl rp_do st0 (ops @ [e])) (ops @ [e])"
    using grant_sim_step [OF _ ttl] e by simp
  then show ?case by (rule grant_sim_later) (use snoc.prems e in \<open>simp add: sorted_append\<close>)
qed

text \<open>C7: A grant is accepted exactly when it was issued for this user and scope less than
  its lifetime ago and nobody has presented it since, not even for another user or scope; a second
  presentation is therefore refused.\<close>

theorem reprompt_single_use:
  assumes "new_reprompt_store ttl = Inr st0" "sorted (map snd ops @ [now])" "now \<le> again"
  shows "fst (rp_consume i uid scope now (foldl rp_do st0 ops)) =
      (\<exists>t. granted i uid scope t ops \<and> now - t < ttl) \<and>
    \<not> fst (rp_consume i uid' scope' again (snd (rp_consume i uid scope now (foldl rp_do st0 ops))))"
proof
  let ?st = "foldl rp_do st0 ops"
  have sim: "grant_sim ttl now ?st ops" by (rule grant_sim_run [OF assms(1,2)])
  show "fst (rp_consume i uid scope now ?st) = (\<exists>t. granted i uid scope t ops \<and> now - t < ttl)"
  proof
    assume "fst (rp_consume i uid scope now ?st)"
    then obtain g where "map_of (rp_grants ?st) i = Some g" "now - rg_issued_at g < ttl" "rg_user_id g = uid"
      "rg_scope g = scope"
      using grant_simD(1) [OF sim] by (auto simp: rp_consume_def Let_def not_le split: option.splits if_splits)
    then show "\<exists>t. granted i uid scope t ops \<and> now - t < ttl"
      using grant_simD(3) [OF sim] by blast
  next
    assume "\<exists>t. granted i uid scope t ops \<and> now - t < ttl"
    then obtain t where "now - t < ttl"
      "map_of (rp_grants ?st) i = Some \<lparr>rg_user_id = uid, rg_scope = scope, rg_issued_at = t\<rparr>"
      using grant_simD(4) [OF sim] by blast
    then show "fst (rp_consume i uid scope now ?st)"
      using grant_simD(1) [OF sim] by (simp add: rp_consume_def Let_def)
  qed
  show "\<not> fst (rp_consume i uid' scope' again (snd (rp_consume i uid scope now ?st)))"
    by (auto simp: rp_consume_def Let_def AList.delete_conv' split: option.split)
qed

theorem reprompt_single_use_witness:
  "\<exists>st0. new_reprompt_store 60 = Inr st0 \<and>
    fst (rp_consume ''g'' ''u'' DELETE_TARGET 59 (rp_do st0 (Issue ''g'' ''u'' DELETE_TARGET, 0)))"
proof -
  obtain st0 where n: "new_reprompt_store 60 = Inr st0" by (simp add: new_reprompt_store_def)
  have "granted ''g'' ''u'' DELETE_TARGET 0 [(Issue ''g'' ''u'' DELETE_TARGET, 0)]"
    using granted_snoc [of "''g''" "''u''" DELETE_TARGET 0 "[]"] by simp
  then show ?thesis
    using reprompt_single_use [OF n, of "[(Issue ''g'' ''u'' DELETE_TARGET, 0)]" 59 59 "''g''" "''u''" DELETE_TARGET] n
    by (intro exI [of _ st0]) force
qed

end
