(* ===== verification/Client_Ip.thy ===== *)
theory Client_Ip
  imports Interfaces
begin

text \<open>
  The client address of a request, \<^verbatim>\<open>extract_client_ip\<close> of \<^verbatim>\<open>app/auth/rate_limit.py\<close>, with what it
  uses of the standard library's \<^verbatim>\<open>ipaddress\<close>: parsing an IPv4 or IPv6 address and testing
  membership in a network. An address is its integer; an IPv6 scope is checked and dropped.
\<close>

section \<open>Addresses and networks\<close>

datatype ip_address = IPv4 nat | IPv6 nat

record ip_network =
  nw_address :: ip_address
  nw_prefixlen :: nat

definition ascii_digit :: "char \<Rightarrow> bool" where
  "ascii_digit c \<longleftrightarrow> 48 \<le> char_code c \<and> char_code c \<le> 57"

definition decimal_value :: "pystr \<Rightarrow> nat" where
  "decimal_value s = foldl (\<lambda>n c. 10 * n + (char_code c - 48)) 0 s"

definition parse_octet :: "pystr \<Rightarrow> nat option" where
  "parse_octet s =
     (if s = [] \<or> \<not> (\<forall>c\<in>set s. ascii_digit c) \<or> length s > 3 \<or> (s \<noteq> ''0'' \<and> hd s = CHR ''0'')
         \<or> decimal_value s > 255
      then None else Some (decimal_value s))"

fun all_some :: "'a option list \<Rightarrow> 'a list option" where
  "all_some [] = Some []"
| "all_some (None # xs) = None"
| "all_some (Some x # xs) = map_option (Cons x) (all_some xs)"

definition parse_ipv4 :: "pystr \<Rightarrow> nat option" where
  "parse_ipv4 s =
     (let octets = split_char (CHR ''.'') s
      in if CHR ''/'' \<in> set s \<or> length octets \<noteq> 4 then None
         else map_option (foldl (\<lambda>n b. 256 * n + b) 0) (all_some (map parse_octet octets)))"

definition hex_value :: "char \<Rightarrow> nat option" where
  "hex_value c =
     (let n = char_code c
      in if 48 \<le> n \<and> n \<le> 57 then Some (n - 48)
         else if 97 \<le> n \<and> n \<le> 102 then Some (n - 87)
         else if 65 \<le> n \<and> n \<le> 70 then Some (n - 55) else None)"

text \<open>A part between colons: text, or one half of an embedded IPv4 address.\<close>

datatype v6_part = Text pystr | Half nat

definition parse_hextet :: "v6_part \<Rightarrow> nat option" where
  "parse_hextet p =
     (case p of
        Half n \<Rightarrow> Some n
      | Text s \<Rightarrow> (if s = [] \<or> length s > 4 then None
                   else map_option (foldl (\<lambda>n d. 16 * n + d) 0) (all_some (map hex_value s))))"

definition v6_parts :: "pystr \<Rightarrow> v6_part list option" where
  "v6_parts s =
     (let parts = split_char (CHR '':'') s
      in if length parts < 3 then None
         else if CHR ''.'' \<in> set (last parts)
         then (case parse_ipv4 (last parts) of
                 None \<Rightarrow> None
               | Some n \<Rightarrow> Some (map Text (butlast parts) @ [Half (n div 65536), Half (n mod 65536)]))
         else Some (map Text parts))"

definition v6_value :: "v6_part list \<Rightarrow> nat \<Rightarrow> v6_part list \<Rightarrow> nat option" where
  "v6_value hi skipped lo =
     map_option (foldl (\<lambda>n h. 65536 * n + h) 0)
       (all_some (map parse_hextet hi @ replicate skipped (Some 0) @ map parse_hextet lo))"

text \<open>The empty part inside marks the run of zeros; an empty first or last part is allowed beside it
  only.\<close>

definition parse_ipv6_parts :: "v6_part list \<Rightarrow> nat option" where
  "parse_ipv6_parts parts =
     (if length parts > 9 then None
      else (case filter (\<lambda>i. parts ! i = Text []) [1..<length parts - 1] of
          [] \<Rightarrow> (if length parts \<noteq> 8 then None else v6_value parts 0 [])
        | [k] \<Rightarrow>
           (let hi = (if hd parts = Text [] then k - 1 else k);
                lo = (if last parts = Text [] then length parts - k - 2 else length parts - k - 1)
            in if (hd parts = Text [] \<and> hi \<noteq> 0) \<or> (last parts = Text [] \<and> lo \<noteq> 0) \<or> 8 < hi + lo + 1
               then None
               else v6_value (take hi parts) (8 - (hi + lo)) (drop (length parts - lo) parts))
        | _ \<Rightarrow> None))"

definition split_scope :: "pystr \<Rightarrow> pystr option" where
  "split_scope s =
     (case find_char (CHR ''%'') s of
        None \<Rightarrow> Some s
      | Some (addr, scope) \<Rightarrow> (if scope = [] \<or> CHR ''%'' \<in> set scope then None else Some addr))"

definition parse_ipv6 :: "pystr \<Rightarrow> nat option" where
  "parse_ipv6 s =
     (if CHR ''/'' \<in> set s then None
      else (case split_scope s of
              None \<Rightarrow> None
            | Some addr \<Rightarrow> (case v6_parts addr of None \<Rightarrow> None | Some ps \<Rightarrow> parse_ipv6_parts ps)))"

definition ip_address_of :: "pystr \<Rightarrow> ip_address option" where
  "ip_address_of s =
     (case parse_ipv4 s of
        Some n \<Rightarrow> Some (IPv4 n)
      | None \<Rightarrow> map_option IPv6 (parse_ipv6 s))"

fun in_network :: "ip_address \<Rightarrow> ip_network \<Rightarrow> bool" where
  "in_network (IPv4 n) w =
     (case nw_address w of IPv4 m \<Rightarrow> n div 2 ^ (32 - nw_prefixlen w) = m div 2 ^ (32 - nw_prefixlen w) | _ \<Rightarrow> False)"
| "in_network (IPv6 n) w =
     (case nw_address w of IPv6 m \<Rightarrow> n div 2 ^ (128 - nw_prefixlen w) = m div 2 ^ (128 - nw_prefixlen w) | _ \<Rightarrow> False)"

section \<open>The walk along the forwarded hops\<close>

definition UNKNOWN_CLIENT_IP :: pystr where
  "UNKNOWN_CLIENT_IP = ''unknown''"

definition is_valid_ip :: "pystr \<Rightarrow> bool" where
  "is_valid_ip s \<longleftrightarrow> ip_address_of s \<noteq> None"

definition ip_in_networks :: "pystr \<Rightarrow> ip_network list \<Rightarrow> bool" where
  "ip_in_networks s nets =
     (case ip_address_of s of None \<Rightarrow> False | Some a \<Rightarrow> (\<exists>w\<in>set nets. in_network a w))"

definition strip_port :: "pystr \<Rightarrow> pystr" where
  "strip_port hop =
     (if is_valid_ip hop then hop
      else if prefix ''['' hop \<and> CHR '']'' \<in> set hop
      then (case find_char (CHR '']'') hop of None \<Rightarrow> hop | Some (a, b) \<Rightarrow> drop 1 a)
      else if length (filter (\<lambda>c. c = CHR '':'') hop) = 1
      then (case find_char (CHR '':'') hop of
              None \<Rightarrow> hop | Some (host, p) \<Rightarrow> (if is_valid_ip host then host else hop))
      else hop)"

fun first_untrusted :: "ip_network list \<Rightarrow> pystr list \<Rightarrow> pystr option" where
  "first_untrusted nets [] = None"
| "first_untrusted nets (hop # hops) =
     (let cleaned = strip_port hop
      in if \<not> is_valid_ip cleaned then first_untrusted nets hops
         else if \<not> ip_in_networks cleaned nets then Some cleaned
         else first_untrusted nets hops)"

definition forwarded_hops :: "pystr \<Rightarrow> pystr list" where
  "forwarded_hops header = filter (\<lambda>h. h \<noteq> []) (map py_strip (split_char (CHR '','') header))"

definition extract_client_ip :: "pystr option \<Rightarrow> pystr option \<Rightarrow> ip_network list option \<Rightarrow> pystr" where
  "extract_client_ip peer_ip forwarded_for trusted =
     (case peer_ip of
        None \<Rightarrow> UNKNOWN_CLIENT_IP
      | Some peer \<Rightarrow>
         (if peer = [] then UNKNOWN_CLIENT_IP
          else (case trusted of
             None \<Rightarrow> peer
           | Some nets \<Rightarrow>
              (if nets = [] \<or> \<not> ip_in_networks peer nets then peer
               else (case forwarded_for of
                  None \<Rightarrow> peer
                | Some header \<Rightarrow>
                   (if header = [] then peer
                    else (case first_untrusted nets (rev (forwarded_hops header)) of
                            None \<Rightarrow> peer | Some ip \<Rightarrow> ip)))))))"

section \<open>What an attacker can reach\<close>

definition skipped_hop :: "ip_network list \<Rightarrow> pystr \<Rightarrow> bool" where
  "skipped_hop nets hop \<longleftrightarrow> \<not> is_valid_ip (strip_port hop) \<or> ip_in_networks (strip_port hop) nets"

lemma split_char_append: "split_char c (x @ c # y) = split_char c x @ split_char c y"
  by (induction x) (auto split: list.splits)

lemma split_char_id: "c \<notin> set x \<Longrightarrow> split_char c x = [x]"
  by (simp add: split_char_None)

lemma first_untrusted_skips:
  "(\<And>h. h \<in> set hops \<Longrightarrow> skipped_hop nets h) \<Longrightarrow> first_untrusted nets (hops @ rest) = first_untrusted nets rest"
  by (induction hops) (auto simp: skipped_hop_def Let_def)

lemma forwarded_hops_append:
  "forwarded_hops (x @ CHR '','' # y) = forwarded_hops x @ forwarded_hops y"
  by (simp add: forwarded_hops_def split_char_append)

lemma forwarded_hops_single:
  "CHR '','' \<notin> set x \<Longrightarrow> forwarded_hops x = (if py_strip x = [] then [] else [py_strip x])"
  by (simp add: forwarded_hops_def split_char_id)

lemma forwarded_hops_tail:
  "(\<And>p. p \<in> set ps \<Longrightarrow> CHR '','' \<notin> set p) \<Longrightarrow> CHR '','' \<notin> set hop \<Longrightarrow>
    forwarded_hops (hop @ concat (map (Cons (CHR '','')) ps)) =
      forwarded_hops hop @ concat (map forwarded_hops ps)"
proof (induction ps arbitrary: hop)
  case (Cons p ps)
  have "forwarded_hops (p @ concat (map (Cons (CHR '','')) ps)) =
      forwarded_hops p @ concat (map forwarded_hops ps)"
    using Cons.prems by (intro Cons.IH) auto
  then show ?case by (simp add: forwarded_hops_append)
qed simp

lemma invalid_empty [simp]: "\<not> is_valid_ip []"
  by (simp add: is_valid_ip_def ip_address_of_def parse_ipv4_def parse_ipv6_def split_scope_def v6_parts_def)

lemma strip_port_Nil [simp]: "strip_port [] = []"
  by (simp add: strip_port_def)

lemma networks_valid: "ip_in_networks s nets \<Longrightarrow> is_valid_ip s"
  by (auto simp: ip_in_networks_def is_valid_ip_def split: option.splits)

text \<open>Whatever is returned for a present peer is the peer or a well-formed address outside the trusted
  networks.\<close>

lemma first_untrusted_sound:
  "first_untrusted nets hops = Some ip \<Longrightarrow> is_valid_ip ip \<and> \<not> ip_in_networks ip nets"
  by (induction hops) (auto simp: Let_def split: if_splits)

text \<open>C29: A peer outside the trusted networks is taken as it is, whatever the header
  says; behind a trusted peer the hop that the outermost trusted proxy saw decides, whatever the client
  wrote to the left of it.\<close>

theorem client_ip_spoof_proof:
  assumes "peer \<noteq> []"
    "ip_in_networks peer nets \<Longrightarrow> CHR '','' \<notin> set hop \<and> \<not> skipped_hop nets (py_strip hop)"
    "\<And>p. p \<in> set proxies \<Longrightarrow> CHR '','' \<notin> set p \<and> skipped_hop nets (py_strip p)"
  shows "extract_client_ip (Some peer)
      (Some (forged @ CHR '','' # hop @ concat (map (Cons (CHR '','')) proxies))) (Some nets) =
    (if ip_in_networks peer nets then strip_port (py_strip hop) else peer)"
proof (cases "ip_in_networks peer nets")
  case False
  then show ?thesis using assms(1) by (simp add: extract_client_ip_def)
next
  case True
  then have nets: "nets \<noteq> []" by (auto simp: ip_in_networks_def split: option.splits)
  have hop: "CHR '','' \<notin> set hop" "is_valid_ip (strip_port (py_strip hop))"
    "\<not> ip_in_networks (strip_port (py_strip hop)) nets"
    using assms(2) [OF True] by (auto simp: skipped_hop_def)
  then have "py_strip hop \<noteq> []" by (metis invalid_empty strip_port_Nil)
  then have "forwarded_hops (forged @ CHR '','' # hop @ concat (map (Cons (CHR '','')) proxies)) =
      forwarded_hops forged @ [py_strip hop] @ concat (map forwarded_hops proxies)"
    using assms(3) hop by (simp add: forwarded_hops_append forwarded_hops_tail forwarded_hops_single)
  moreover have "skipped_hop nets h" if "h \<in> set (rev (concat (map forwarded_hops proxies)))" for h
    using that assms(3) by (auto simp: forwarded_hops_single split: if_splits)
  ultimately have "first_untrusted nets
      (rev (forwarded_hops (forged @ CHR '','' # hop @ concat (map (Cons (CHR '','')) proxies)))) =
      Some (strip_port (py_strip hop))"
    using hop first_untrusted_skips [of "rev (concat (map forwarded_hops proxies))" nets]
    by (simp add: Let_def)
  then show ?thesis using True nets assms(1) by (simp add: extract_client_ip_def)
qed

lemmas address_eval = ip_address_of_def parse_ipv4_def parse_octet_def ascii_digit_def decimal_value_def
  char_code_def parse_ipv6_def split_scope_def v6_parts_def parse_ipv6_parts_def v6_value_def
  parse_hextet_def hex_value_def upt_rec

lemma replicate_unfold: "replicate (numeral n) x = x # replicate (pred_numeral n) x"
  by (simp add: numeral_eq_Suc)

lemma sample_addresses:
  "ip_address_of ''10.0.0.1'' = Some (IPv4 167772161)" "ip_address_of ''10.0.0.7'' = Some (IPv4 167772167)"
  "ip_address_of ''203.0.113.9'' = Some (IPv4 3405803785)"
  "ip_address_of ''203.0.113.9:5000'' = None"
  "ip_address_of ''::1'' = Some (IPv6 1)"
  by (simp_all add: address_eval replicate_unfold)

theorem client_ip_spoof_proof_witness:
  "extract_client_ip (Some ''10.0.0.1'') (Some ''127.0.0.1, 203.0.113.9:5000,10.0.0.7'')
     (Some [\<lparr>nw_address = IPv4 167772160, nw_prefixlen = 8\<rparr>]) = ''203.0.113.9''"
proof -
  let ?nets = "[\<lparr>nw_address = IPv4 167772160, nw_prefixlen = 8\<rparr>]"
  have trusted: "ip_in_networks ''10.0.0.1'' ?nets" by (simp add: ip_in_networks_def sample_addresses)
  have sp: "strip_port ''203.0.113.9:5000'' = ''203.0.113.9''" "strip_port ''10.0.0.7'' = ''10.0.0.7''"
    by (simp_all add: strip_port_def is_valid_ip_def sample_addresses)
  have st: "py_strip '' 203.0.113.9:5000'' = ''203.0.113.9:5000''" "py_strip ''10.0.0.7'' = ''10.0.0.7''"
    by (simp_all add: strip_by_def str_space_def)
  have hop: "CHR '','' \<notin> set '' 203.0.113.9:5000'' \<and> \<not> skipped_hop ?nets (py_strip '' 203.0.113.9:5000'')"
    by (simp add: skipped_hop_def st sp is_valid_ip_def ip_in_networks_def sample_addresses)
  have prox: "CHR '','' \<notin> set ''10.0.0.7'' \<and> skipped_hop ?nets (py_strip ''10.0.0.7'')"
    by (simp add: skipped_hop_def st sp is_valid_ip_def ip_in_networks_def sample_addresses)
  show ?thesis
    using client_ip_spoof_proof [of "''10.0.0.1''" ?nets "'' 203.0.113.9:5000''" "[''10.0.0.7'']" "''127.0.0.1''"]
      trusted hop prox by (simp add: st sp)
qed

end
