(* ===== verification/Worker_Contract.thy ===== *)
theory Worker_Contract
  imports Target_Model
begin

text \<open>
  What the supervisor hands a worker and what a worker reports back: the identity, specification
  and event payloads of \<^verbatim>\<open>app/fanout/worker.py\<close>, the composition of the output URL of
  \<^verbatim>\<open>app/fanout/ffmpeg_urls.py\<close>, and the locked argument vector of
  \<^verbatim>\<open>app/fanout/ffmpeg_args.py\<close>. The lemmas say that the vector's last element is the output URL,
  that it can never be read as a flag, and that nothing else in the vector depends on the key.
\<close>

section \<open>Identity, specification, events\<close>

record worker_id =
  wid_target :: pystr
  wid_role :: worker_role

record worker_spec =
  sc_worker_id :: worker_id
  sc_target_type :: target_type
  sc_input_url :: pystr
  sc_output_url :: pystr

datatype progress_flag = CONTINUE | END

record progress_frame =
  pf_frame :: int
  pf_fps :: pyfloat
  pf_bitrate_kbps :: pyfloat
  pf_out_time_us :: int
  pf_dup_frames :: int
  pf_drop_frames :: int
  pf_speed :: pyfloat
  pf_progress :: progress_flag

text \<open>The five payloads; a \<^verbatim>\<open>WorkerProgressEvent\<close> has the fields of a progress frame.\<close>

datatype worker_payload =
  StateEvent (new_state: worker_state) (previous_state: worker_state) (cause: pystr)
| ProgressEvent progress_frame
| ErrorEvent (message: pystr) (fatal: bool)
| ExitEvent (returncode: "int option") (signal: "int option") (duration: timedelta)
| StalledEvent (no_progress_for: timedelta)

datatype worker_event_kind = K_STATE | K_PROGRESS | K_ERROR | K_EXITED | K_STALLED

record worker_event =
  we_worker_id :: worker_id
  we_at :: datetime
  we_monotonic_ns :: int
  we_kind :: worker_event_kind
  we_payload :: worker_payload

section \<open>The output URL\<close>

definition YOUTUBE_BACKUP_HOST_PREFIX :: pystr where
  "YOUTUBE_BACKUP_HOST_PREFIX = ''a.rtmps.''"

definition YOUTUBE_BACKUP_HOST_REPLACE :: pystr where
  "YOUTUBE_BACKUP_HOST_REPLACE = ''b.rtmps.''"

definition YOUTUBE_BACKUP_QUERY :: pystr where
  "YOUTUBE_BACKUP_QUERY = ''?backup=1''"

definition has_rtmp_scheme :: "pystr \<Rightarrow> bool" where
  "has_rtmp_scheme url \<longleftrightarrow> prefix ''rtmp://'' url \<or> prefix ''rtmps://'' url"

definition compose_out_url ::
    "target_type \<Rightarrow> pystr \<Rightarrow> pystr \<Rightarrow> worker_role \<Rightarrow> value_error + pystr" where
  "compose_out_url ty url key role =
     (if url = [] then Inl (ValueError ''target_url must not be empty'')
      else if \<not> has_rtmp_scheme url then
        Inl (ValueError ''target_url must use rtmp:// or rtmps:// scheme; ffmpeg argv injection guard (post-Phase-5 review fix M4)'')
      else if role = BACKUP \<and> ty \<noteq> YOUTUBE then
        Inl (ValueError (''backup role is only valid for YouTube targets; got '' @ [CHR 0x27] @
          target_type_value ty @ [CHR 0x27]))
      else if ty = VK_LIVE then Inr (rstrip_char (CHR ''/'') url @ ''/'' @ key)
      else if ty = CUSTOM then
        (if key = [] then Inr url else Inr (rstrip_char (CHR ''/'') url @ ''/'' @ key))
      else if ty = YOUTUBE \<and> role = BACKUP then
        (let backup_url = replace_first YOUTUBE_BACKUP_HOST_PREFIX YOUTUBE_BACKUP_HOST_REPLACE url
         in Inr (rstrip_char (CHR ''/'') backup_url @ ''/'' @ key @ YOUTUBE_BACKUP_QUERY))
      else Inr (rstrip_char (CHR ''/'') url @ ''/'' @ key))"

lemma has_rtmp_scheme_pad: "has_rtmp_scheme url \<Longrightarrow> has_rtmp_scheme (url @ xs)"
  by (auto simp: has_rtmp_scheme_def)

lemma has_rtmp_scheme_split: "has_rtmp_scheme url \<Longrightarrow> \<exists>t. url = ''rtmp'' @ t"
  by (auto simp: has_rtmp_scheme_def prefix_def)

lemma rstrip_rtmp: "\<exists>t. rstrip_char (CHR ''/'') (''rtmp'' @ s) = ''rtmp'' @ t"
proof (induction s rule: rev_induct)
  case Nil
  then show ?case by (simp add: rstrip_char_def)
next
  case (snoc x s)
  then obtain t where "rstrip_char (CHR ''/'') (''rtmp'' @ s) = ''rtmp'' @ t" by blast
  moreover have "''rtmp'' @ s @ [x] = (''rtmp'' @ s) @ [x]" by simp
  ultimately show ?case unfolding \<open>''rtmp'' @ s @ [x] = (''rtmp'' @ s) @ [x]\<close> rstrip_char_snoc
    by (cases "x = CHR ''/''") auto
qed

lemma rstrip_scheme:
  "has_rtmp_scheme url \<Longrightarrow> prefix ''rtmp'' (rstrip_char (CHR ''/'') url @ xs)"
  using has_rtmp_scheme_split rstrip_rtmp by (metis append.assoc prefixI)

lemma rstrip_backup_scheme:
  assumes "has_rtmp_scheme url"
  shows "prefix ''rtmp'' (rstrip_char (CHR ''/'')
    (replace_first YOUTUBE_BACKUP_HOST_PREFIX YOUTUBE_BACKUP_HOST_REPLACE url) @ xs)"
proof -
  obtain t where t: "url = ''rtmp'' @ t" using has_rtmp_scheme_split [OF assms] by blast
  have "replace_first YOUTUBE_BACKUP_HOST_PREFIX YOUTUBE_BACKUP_HOST_REPLACE (''rtmp'' @ t) =
      ''rtmp'' @ replace_first YOUTUBE_BACKUP_HOST_PREFIX YOUTUBE_BACKUP_HOST_REPLACE t"
    by (rule replace_first_prefix) (simp_all add: YOUTUBE_BACKUP_HOST_PREFIX_def)
  then show ?thesis using rstrip_rtmp t by (metis append.assoc prefixI)
qed

lemma compose_out_url_prefix:
  "compose_out_url ty url key role = Inr out \<Longrightarrow> has_rtmp_scheme url \<and> prefix ''rtmp'' out"
  using rstrip_scheme [of url] rstrip_backup_scheme [of url] has_rtmp_scheme_split [of url]
  by (auto simp: compose_out_url_def Let_def split: if_splits)

text \<open>Composing succeeds exactly for a URL with an RTMP scheme whose role is
  allowed for its type; the result begins with \<open>rtmp\<close>, so that ffmpeg cannot read it as a flag,
  and contains the key.\<close>

theorem compose_out_url_sound:
  "is_ok (compose_out_url ty url key role) = (has_rtmp_scheme url \<and> (role = PRIMARY \<or> ty = YOUTUBE)) \<and>
   (case compose_out_url ty url key role of
      Inl _ \<Rightarrow> True
    | Inr out \<Rightarrow> prefix ''rtmp'' out \<and> sublist key out)"
proof -
  have key: "sublist key (a @ x # key @ c)" "sublist key (a @ x # key)" for a c x
    using sublist_appendI [of key "a @ [x]" c] sublist_appendI [of key "a @ [x]" "[]"] by simp_all
  have "prefix ''rtmp'' url" if "has_rtmp_scheme url"
    using has_rtmp_scheme_split [OF that] by auto
  then show ?thesis
    using key rstrip_scheme [of url] rstrip_backup_scheme [of url] worker_role.exhaust [of role]
    by (auto simp: compose_out_url_def Let_def has_rtmp_scheme_def [of "[]"])
qed

text \<open>Slashes at the end of the configured URL never change the output
  URL, except for a keyless custom target, whose URL is used as it is.\<close>

theorem compose_out_url_slashes:
  assumes "compose_out_url ty url key role = Inr out" "ty \<noteq> CUSTOM \<or> key \<noteq> []"
  shows "compose_out_url ty (url @ replicate n (CHR ''/'')) key role = Inr out"
proof -
  have scheme: "has_rtmp_scheme url" "url \<noteq> []"
    using assms(1) by (auto simp: compose_out_url_def split: if_splits)
  have "replace_first YOUTUBE_BACKUP_HOST_PREFIX r (url @ replicate n (CHR ''/'')) =
      replace_first YOUTUBE_BACKUP_HOST_PREFIX r url @ replicate n (CHR ''/'')" for r
    by (rule replace_first_pad) (simp_all add: YOUTUBE_BACKUP_HOST_PREFIX_def)
  then show ?thesis
    using assms scheme has_rtmp_scheme_pad [OF scheme(1)]
    by (auto simp: compose_out_url_def Let_def split: if_splits)
qed

theorem compose_out_url_slashes_witness:
  "compose_out_url VK_LIVE ''rtmp://ovsu.okcdn.ru/input///'' ''k1'' PRIMARY =
     Inr ''rtmp://ovsu.okcdn.ru/input/k1''"
proof -
  have h: "compose_out_url VK_LIVE ''rtmp://ovsu.okcdn.ru/input'' ''k1'' PRIMARY =
      Inr ''rtmp://ovsu.okcdn.ru/input/k1''"
    by (simp add: compose_out_url_def has_rtmp_scheme_def rstrip_char_def)
  show ?thesis using compose_out_url_slashes [OF h, of 3] by (simp add: numeral_3_eq_3)
qed

section \<open>The argument vector\<close>

definition FFMPEG_BASE_ARGS :: "pystr list" where
  "FFMPEG_BASE_ARGS =
    [''ffmpeg'', ''-hide_banner'', ''-loglevel'', ''error'', ''-nostats'', ''-progress'', ''pipe:1'',
     ''-rtmp_buffer'', ''100'', ''-fflags'', ''+nobuffer'', ''-flags'', ''low_delay'', ''-f'', ''flv'',
     ''-flvflags'', ''no_duration_filesize'', ''-flush_packets'', ''1'']"

definition FFMPEG_BASE_ARGS_BY_TYPE :: "target_type \<Rightarrow> pystr list option" where
  "FFMPEG_BASE_ARGS_BY_TYPE = Map.empty"

definition build_argv :: "worker_spec \<Rightarrow> pystr list" where
  "build_argv spec =
     (let overrides = (case FFMPEG_BASE_ARGS_BY_TYPE (sc_target_type spec) of None \<Rightarrow> [] | Some xs \<Rightarrow> xs)
      in FFMPEG_BASE_ARGS @ [''-i'', sc_input_url spec, ''-c'', ''copy''] @ overrides @ [sc_output_url spec])"

text \<open>The vector built for a composed URL ends with that URL, which is not a
  flag, copies the codecs, names the input after \<^verbatim>\<open>-i\<close>, and holds the key nowhere else: a
  specification that differs in its output URL only differs in the last argument only.\<close>

theorem argv_output_last:
  assumes "compose_out_url (sc_target_type spec) url key role = Inr (sc_output_url spec)"
  shows "last (build_argv spec) = sc_output_url spec \<and> hd (last (build_argv spec)) = CHR ''r'' \<and>
    sublist [''-i'', sc_input_url spec, ''-c'', ''copy''] (build_argv spec) \<and>
    butlast (build_argv (spec\<lparr>sc_output_url := u\<rparr>)) = butlast (build_argv spec)"
proof -
  have "prefix ''rtmp'' (sc_output_url spec)"
    using compose_out_url_prefix [OF assms] by simp
  then have "hd (sc_output_url spec) = CHR ''r''" by (auto simp: prefix_def)
  then show ?thesis
    by (auto simp: build_argv_def Let_def FFMPEG_BASE_ARGS_BY_TYPE_def butlast_append sublist_def)
qed

definition twitch_spec :: worker_spec where
  "twitch_spec = \<lparr>sc_worker_id = \<lparr>wid_target = ''t1'', wid_role = PRIMARY\<rparr>, sc_target_type = TWITCH,
     sc_input_url = ''rtmp://127.0.0.1:1935/live/k'',
     sc_output_url = ''rtmp://live.twitch.tv/app/live_1''\<rparr>"

theorem argv_output_last_witness:
  "last (build_argv twitch_spec) = ''rtmp://live.twitch.tv/app/live_1''"
proof -
  have h: "compose_out_url (sc_target_type twitch_spec) ''rtmp://live.twitch.tv/app'' ''live_1'' PRIMARY =
      Inr (sc_output_url twitch_spec)"
    by (simp add: compose_out_url_def twitch_spec_def has_rtmp_scheme_def rstrip_char_def)
  have "sc_output_url twitch_spec = ''rtmp://live.twitch.tv/app/live_1''" by (simp add: twitch_spec_def)
  then show ?thesis using argv_output_last [OF h] by simp
qed

end
