(* ===== verification/Progress_Parser.thy ===== *)
theory Progress_Parser
  imports Worker_Contract
begin

text \<open>
  The parser of ffmpeg's progress output, \<^verbatim>\<open>app/fanout/progress_parser.py\<close>: Python's \<^verbatim>\<open>int()\<close> and
  \<^verbatim>\<open>float()\<close> on strings, the value parsers, and the pull parser that cuts bytes into frames.
  Decoding is exact for ASCII; each byte above 127 becomes one replacement character, which no
  number contains. A generator that raises after yielding is a result with both the frames and
  the error.
\<close>

section \<open>Numbers in text\<close>

definition is_digit :: "char \<Rightarrow> bool" where
  "is_digit c \<longleftrightarrow> (let n = (of_char c :: nat) in 48 \<le> n \<and> n \<le> 57)"

definition digit_value :: "char \<Rightarrow> nat" where
  "digit_value c = of_char c - 48"

definition digits_value :: "pystr \<Rightarrow> nat" where
  "digits_value s = foldl (\<lambda>n c. 10 * n + digit_value c) 0 s"

text \<open>Underscores are allowed between two digits only.\<close>

fun strip_underscores :: "bool \<Rightarrow> pystr \<Rightarrow> pystr option" where
  "strip_underscores prev [] = Some []"
| "strip_underscores prev (c # cs) =
     (if c = CHR ''_'' then
        (if prev \<and> cs \<noteq> [] \<and> is_digit (hd cs) then strip_underscores False cs else None)
      else map_option (Cons c) (strip_underscores (is_digit c) cs))"

fun split_sign :: "pystr \<Rightarrow> bool \<times> pystr" where
  "split_sign [] = (False, [])"
| "split_sign (c # cs) =
     (if c = CHR ''-'' then (True, cs) else if c = CHR ''+'' then (False, cs) else (False, c # cs))"

text \<open>White space around a number: the separators 28 to 31, which \<^verbatim>\<open>str.strip\<close> removes, are not among
  it; the two non-ASCII spaces are, because a string with them is first translated to ASCII.\<close>

definition number_space :: "char \<Rightarrow> bool" where
  "number_space c \<longleftrightarrow> (let n = (of_char c :: nat) in (9 \<le> n \<and> n \<le> 13) \<or> n = 32 \<or> n = 133 \<or> n = 160)"

text \<open>\<^verbatim>\<open>int(s)\<close>, \<open>None\<close> for \<^verbatim>\<open>ValueError\<close>; more than 4300 digits are refused.\<close>

definition py_int :: "pystr \<Rightarrow> int option" where
  "py_int s =
     (let (neg, body) = split_sign (strip_by number_space s)
      in case strip_underscores False body of
           None \<Rightarrow> None
         | Some ds \<Rightarrow>
             if ds = [] \<or> \<not> list_all is_digit ds \<or> length ds > 4300 then None
             else Some (if neg then - int (digits_value ds) else int (digits_value ds)))"

definition lower_char :: "char \<Rightarrow> char" where
  "lower_char c = (let n = (of_char c :: nat) in if 65 \<le> n \<and> n \<le> 90 then char_of (n + 32) else c)"

definition parse_exponent :: "pystr \<Rightarrow> int option" where
  "parse_exponent r =
     (case r of
        [] \<Rightarrow> Some 0
      | c # cs \<Rightarrow>
          (if lower_char c \<noteq> CHR ''e'' then None
           else (let (neg, ds) = split_sign cs
             in if ds = [] \<or> \<not> list_all is_digit ds then None
                else Some (if neg then - int (digits_value ds) else int (digits_value ds)))))"

definition scale10 :: "rat \<Rightarrow> int \<Rightarrow> rat" where
  "scale10 v e = (if e \<ge> 0 then v * 10 ^ nat e else v / 10 ^ nat (- e))"

definition parse_decimal :: "pystr \<Rightarrow> rat option" where
  "parse_decimal s =
     (let ip = takeWhile is_digit s; r1 = dropWhile is_digit s;
          dot = (r1 \<noteq> [] \<and> hd r1 = CHR ''.'');
          fp = (if dot then takeWhile is_digit (tl r1) else []);
          r2 = (if dot then dropWhile is_digit (tl r1) else r1)
      in if ip = [] \<and> fp = [] then None
         else map_option (\<lambda>e. scale10 (of_nat (digits_value (ip @ fp))) (e - int (length fp)))
                (parse_exponent r2))"

text \<open>\<^verbatim>\<open>float(s)\<close> up to rounding: values beyond the largest double are infinite.\<close>

definition float_overflow :: rat where
  "float_overflow = 2 ^ 1024 - 2 ^ 970"

definition py_float :: "pystr \<Rightarrow> pyfloat option" where
  "py_float s =
     (let (neg, body) = split_sign (strip_by number_space s)
      in if map lower_char body \<in> {''inf'', ''infinity''} then Some (if neg then NegInf else PosInf)
         else if map lower_char body = ''nan'' then Some NaN
         else (case Option.bind (strip_underscores False body) parse_decimal of
             None \<Rightarrow> None
           | Some v \<Rightarrow> Some (if v \<ge> float_overflow then (if neg then NegInf else PosInf)
                             else Fin (if neg then - v else v))))"

section \<open>Field parsers\<close>

definition NA :: pystr where
  "NA = ''N/A''"

definition parse_int_field :: "pystr option \<Rightarrow> int" where
  "parse_int_field v =
     (case v of None \<Rightarrow> 0
      | Some s \<Rightarrow> if s = NA then 0 else (case py_int s of None \<Rightarrow> 0 | Some n \<Rightarrow> n))"

definition parse_float_field :: "pystr option \<Rightarrow> pyfloat" where
  "parse_float_field v =
     (case v of None \<Rightarrow> Fin 0
      | Some s \<Rightarrow> if s = NA then Fin 0 else (case py_float s of None \<Rightarrow> Fin 0 | Some x \<Rightarrow> x))"

definition remove_suffix :: "pystr \<Rightarrow> pystr \<Rightarrow> pystr" where
  "remove_suffix suf s = (if suffix suf s then take (length s - length suf) s else s)"

definition parse_bitrate :: "pystr option \<Rightarrow> pyfloat" where
  "parse_bitrate v =
     (case v of None \<Rightarrow> Fin 0
      | Some s \<Rightarrow> if s = NA then Fin 0
          else (case py_float (remove_suffix ''kbits/s'' s) of None \<Rightarrow> Fin 0 | Some x \<Rightarrow> x))"

definition parse_speed :: "pystr option \<Rightarrow> pyfloat" where
  "parse_speed v =
     (case v of None \<Rightarrow> Fin 0
      | Some s \<Rightarrow> if s = NA then Fin 0
          else (case py_float (remove_suffix ''x'' s) of None \<Rightarrow> Fin 0 | Some x \<Rightarrow> x))"

section \<open>The pull parser\<close>

definition PROGRESS_FRAME_MAX_LINES :: nat where
  "PROGRESS_FRAME_MAX_LINES = 64"

definition PROGRESS_LINE_MAX_LEN :: nat where
  "PROGRESS_LINE_MAX_LEN = 256"

definition INTEREST :: "pystr list" where
  "INTEREST = [''frame'', ''fps'', ''bitrate'', ''out_time_us'', ''dup_frames'', ''drop_frames'',
     ''speed'', ''progress'']"

datatype progress_parse_error = LineTooLong nat | FrameTooLong

type_synonym pairs = "(pystr \<times> pystr) list"

record progress_parser =
  pp_buf :: bytes
  pp_pairs :: pairs

definition new_progress_parser :: progress_parser where
  "new_progress_parser = \<lparr>pp_buf = [], pp_pairs = []\<rparr>"

definition decode_replace :: "bytes \<Rightarrow> pystr" where
  "decode_replace bs = map (\<lambda>c. if (of_char c :: nat) < 128 then c else char_of (255 :: nat)) bs"

definition build_frame :: "pairs \<Rightarrow> progress_frame option" where
  "build_frame ps =
     (let get = map_of ps;
          raw = (case get ''progress'' of None \<Rightarrow> [] | Some s \<Rightarrow> s)
      in if raw \<notin> {''continue'', ''end''} then None
         else Some \<lparr>pf_frame = parse_int_field (get ''frame''), pf_fps = parse_float_field (get ''fps''),
           pf_bitrate_kbps = parse_bitrate (get ''bitrate''),
           pf_out_time_us = parse_int_field (get ''out_time_us''),
           pf_dup_frames = parse_int_field (get ''dup_frames''),
           pf_drop_frames = parse_int_field (get ''drop_frames''),
           pf_speed = parse_speed (get ''speed''),
           pf_progress = (if raw = ''end'' then END else CONTINUE)\<rparr>)"

text \<open>One line of the loop body: the new pairs and the frame it completes, or the error with the
  pairs as they are when it is raised.\<close>

definition consume_line :: "bytes \<Rightarrow> pairs \<Rightarrow> pairs + pairs \<times> progress_frame option" where
  "consume_line line_bytes ps =
     (let line = rstrip_char (CHR 0x0D) (decode_replace line_bytes)
      in case find_char (CHR ''='') line of
           None \<Rightarrow> Inr (ps, None)
         | Some (k, v) \<Rightarrow>
             (if k \<notin> set INTEREST then Inr (ps, None)
              else (let ps1 = AList.update k v ps
                in if length ps1 > PROGRESS_FRAME_MAX_LINES then Inl ps1
                   else if k = ''progress'' then Inr ([], build_frame ps1)
                   else Inr (ps1, None))))"

function drain_frames ::
    "progress_parser \<Rightarrow> progress_parser \<times> progress_frame list \<times> progress_parse_error option" where
  "drain_frames p =
     (case find_char (CHR 0x0A) (pp_buf p) of
        None \<Rightarrow>
          (if length (pp_buf p) > PROGRESS_LINE_MAX_LEN
           then (p, [], Some (LineTooLong (length (pp_buf p)))) else (p, [], None))
      | Some (line, rest) \<Rightarrow>
          (case consume_line line (pp_pairs p) of
             Inl ps \<Rightarrow> (\<lparr>pp_buf = rest, pp_pairs = ps\<rparr>, [], Some FrameTooLong)
           | Inr (ps, frame) \<Rightarrow>
               (let (q, fs, e) = drain_frames \<lparr>pp_buf = rest, pp_pairs = ps\<rparr>
                in (q, (case frame of None \<Rightarrow> fs | Some f \<Rightarrow> f # fs), e))))"
  by auto
termination
  by (relation "measure (\<lambda>p. length (pp_buf p))") (auto simp: find_char_length)

declare drain_frames.simps [simp del]

text \<open>The two ways through an iteration.\<close>

lemma drain_frames_None:
  "CHR 0x0A \<notin> set (pp_buf p) \<Longrightarrow> drain_frames p =
    (p, [], if length (pp_buf p) > PROGRESS_LINE_MAX_LEN then Some (LineTooLong (length (pp_buf p))) else None)"
  by (subst drain_frames.simps) (simp add: find_char_None [THEN iffD2])

lemma drain_frames_Some:
  "find_char (CHR 0x0A) (pp_buf p) = Some (line, rest) \<Longrightarrow> consume_line line (pp_pairs p) = Inr (ps, f) \<Longrightarrow>
    drain_frames p = (let (q, fs, e) = drain_frames \<lparr>pp_buf = rest, pp_pairs = ps\<rparr>
      in (q, (case f of None \<Rightarrow> fs | Some x \<Rightarrow> x # fs), e))"
  by (subst drain_frames.simps) simp

lemma drain_frames_Inl:
  "find_char (CHR 0x0A) (pp_buf p) = Some (line, rest) \<Longrightarrow> consume_line line (pp_pairs p) = Inl ps \<Longrightarrow>
    drain_frames p = (\<lparr>pp_buf = rest, pp_pairs = ps\<rparr>, [], Some FrameTooLong)"
  by (subst drain_frames.simps) simp

definition parser_feed ::
    "progress_parser \<Rightarrow> bytes \<Rightarrow> progress_parser \<times> progress_frame list \<times> progress_parse_error option" where
  "parser_feed p data = drain_frames (p\<lparr>pp_buf := pp_buf p @ data\<rparr>)"

section \<open>The frame cap is never reached\<close>

definition pairs_ok :: "pairs \<Rightarrow> bool" where
  "pairs_ok ps \<longleftrightarrow> distinct (map fst ps) \<and> fst ` set ps \<subseteq> set INTEREST"

lemma pairs_ok_Nil [simp]: "pairs_ok []"
  by (simp add: pairs_ok_def)

lemma pairs_ok_update: "pairs_ok ps \<Longrightarrow> k \<in> set INTEREST \<Longrightarrow> pairs_ok (AList.update k v ps)"
  using dom_update [of k v ps] by (auto simp: pairs_ok_def distinct_update)

lemma pairs_ok_length: "pairs_ok ps \<Longrightarrow> length ps \<le> 8"
proof -
  assume ok: "pairs_ok ps"
  have "length ps = card (fst ` set ps)"
    using ok distinct_card [of "map fst ps"] by (simp add: pairs_ok_def)
  also have "\<dots> \<le> card (set INTEREST)" using ok by (simp add: pairs_ok_def card_mono)
  also have "\<dots> \<le> length INTEREST" by (rule card_length)
  also have "\<dots> = 8" by (simp add: INTEREST_def)
  finally show ?thesis .
qed

lemma consume_line_ok:
  assumes "pairs_ok ps"
  shows "\<exists>ps' f. consume_line line ps = Inr (ps', f) \<and> pairs_ok ps'"
proof -
  have le: "\<not> 64 < length (AList.update k v ps)" if "k \<in> set INTEREST" for k v
    using pairs_ok_length [OF pairs_ok_update [OF assms that, of v]] by simp
  show ?thesis
    using assms pairs_ok_update [OF assms]
    by (auto simp: consume_line_def Let_def PROGRESS_FRAME_MAX_LINES_def le split: option.split)
qed

lemma drain_frames_ok:
  assumes "pairs_ok (pp_pairs p)" "drain_frames p = (q, fs, e)"
  shows "pairs_ok (pp_pairs q) \<and> CHR 0x0A \<notin> set (pp_buf q) \<and> suffix (pp_buf q) (pp_buf p) \<and>
    e = (if length (pp_buf q) > 256 then Some (LineTooLong (length (pp_buf q))) else None)"
  using assms
proof (induction p arbitrary: fs rule: drain_frames.induct)
  case (1 p)
  show ?case
  proof (cases "find_char (CHR 0x0A) (pp_buf p)")
    case None
    then show ?thesis using "1.prems"
      by (auto simp: drain_frames_None PROGRESS_LINE_MAX_LEN_def)
  next
    case (Some lr)
    obtain line rest where lr: "lr = (line, rest)" by (cases lr)
    obtain ps f where c: "consume_line line (pp_pairs p) = Inr (ps, f)" "pairs_ok ps"
      using consume_line_ok [OF "1.prems"(1)] by blast
    obtain gs where d: "drain_frames \<lparr>pp_buf = rest, pp_pairs = ps\<rparr> = (q, gs, e)"
      using "1.prems"(2) drain_frames_Some [OF Some [unfolded lr] c(1)] by (auto split: prod.splits)
    have "suffix rest (pp_buf p)" using Some lr by (auto simp: find_char_Some suffix_def)
    moreover have "pairs_ok (pp_pairs q) \<and> CHR 0x0A \<notin> set (pp_buf q) \<and>
        suffix (pp_buf q) (pp_buf \<lparr>pp_buf = rest, pp_pairs = ps\<rparr>) \<and>
        e = (if length (pp_buf q) > 256 then Some (LineTooLong (length (pp_buf q))) else None)"
      by (rule "1.IH" [OF Some lr [symmetric] c(1) refl]) (use c d in auto)
    ultimately show ?thesis by (auto intro: suffix_order.trans)
  qed
qed

text \<open>Feeding any bytes to a parser in a reachable state keeps at most
  eight pairs, all under interesting keys, never raises the frame-size error, and when it does
  not raise leaves at most 256 bytes with no newline in the buffer.\<close>

theorem progress_memory_bounded:
  assumes "pairs_ok (pp_pairs p)" "parser_feed p data = (q, fs, e)"
  shows "pairs_ok (pp_pairs q) \<and> length (pp_pairs q) \<le> 8 \<and> e \<noteq> Some FrameTooLong \<and>
    (e = None \<longrightarrow> length (pp_buf q) \<le> PROGRESS_LINE_MAX_LEN \<and> CHR 0x0A \<notin> set (pp_buf q))"
  using drain_frames_ok [of "p\<lparr>pp_buf := pp_buf p @ data\<rparr>" q fs e] assms pairs_ok_length [of "pp_pairs q"]
  by (auto simp: parser_feed_def PROGRESS_LINE_MAX_LEN_def split: if_splits)

theorem progress_memory_bounded_witness:
  "pairs_ok (pp_pairs \<lparr>pp_buf = ''fp'', pp_pairs = [(''frame'', ''7'')]\<rparr>)"
proof -
  have h: "pairs_ok (pp_pairs new_progress_parser)" by (simp add: new_progress_parser_def)
  have d: "parser_feed new_progress_parser (''frame=7'' @ [CHR 0x0A] @ ''fp'') =
      (\<lparr>pp_buf = ''fp'', pp_pairs = [(''frame'', ''7'')]\<rparr>, [], None)"
    by (simp add: parser_feed_def new_progress_parser_def drain_frames.simps consume_line_def Let_def
        decode_replace_def rstrip_char_def INTEREST_def PROGRESS_FRAME_MAX_LINES_def
        PROGRESS_LINE_MAX_LEN_def)
  show ?thesis using progress_memory_bounded [OF h d] by simp
qed

section \<open>Chunks\<close>

lemma drain_frames_more:
  assumes "drain_frames p = (q, fs, None)"
  shows "drain_frames (p\<lparr>pp_buf := pp_buf p @ b\<rparr>) =
    (let (r, gs, e) = drain_frames (q\<lparr>pp_buf := pp_buf q @ b\<rparr>) in (r, fs @ gs, e))"
  using assms
proof (induction p arbitrary: fs rule: drain_frames.induct)
  case (1 p)
  show ?case
  proof (cases "find_char (CHR 0x0A) (pp_buf p)")
    case None
    then have "q = p" "fs = []"
      using "1.prems" by (simp_all add: drain_frames_None)
    then show ?thesis by (simp add: Let_def split: prod.split)
  next
    case (Some lr)
    obtain line rest where lr: "lr = (line, rest)" by (cases lr)
    obtain ps f where c: "consume_line line (pp_pairs p) = Inr (ps, f)"
      using "1.prems" drain_frames_Inl [OF Some [unfolded lr]]
      by (cases "consume_line line (pp_pairs p)") auto
    obtain gs where d: "drain_frames \<lparr>pp_buf = rest, pp_pairs = ps\<rparr> = (q, gs, None)"
        and fs: "fs = (case f of None \<Rightarrow> gs | Some x \<Rightarrow> x # gs)"
      using "1.prems" drain_frames_Some [OF Some [unfolded lr] c] by (auto split: prod.splits)
    have more: "find_char (CHR 0x0A) (pp_buf p @ b) = Some (line, rest @ b)"
      using Some lr by (simp add: find_char_more)
    have "drain_frames (\<lparr>pp_buf = rest, pp_pairs = ps\<rparr>\<lparr>pp_buf := rest @ b\<rparr>) =
        (let (r, hs, e) = drain_frames (q\<lparr>pp_buf := pp_buf q @ b\<rparr>) in (r, gs @ hs, e))"
      using "1.IH" [OF Some lr [symmetric] c refl d] by simp
    then show ?thesis
      using drain_frames_Some [of "p\<lparr>pp_buf := pp_buf p @ b\<rparr>" line "rest @ b" ps f] more c fs
      by (auto split: prod.split option.split)
  qed
qed

text \<open>C24: cutting the byte stream at any point where the first part did not
  raise changes nothing: the frames, the final state and the error are those of one feed of all
  bytes.\<close>

theorem progress_chunk_invariant:
  assumes "parser_feed p a = (q, fs, None)"
  shows "parser_feed p (a @ b) = (let (r, gs, e) = parser_feed q b in (r, fs @ gs, e))"
  using drain_frames_more [of "p\<lparr>pp_buf := pp_buf p @ a\<rparr>" q fs b] assms
  by (simp add: parser_feed_def)

theorem progress_chunk_invariant_witness:
  "fst (parser_feed new_progress_parser (''fps=2'' @ [CHR 0x0A])) =
     \<lparr>pp_buf = [], pp_pairs = [(''fps'', ''2'')]\<rparr>"
proof -
  have h: "parser_feed new_progress_parser ''fps'' = (\<lparr>pp_buf = ''fps'', pp_pairs = []\<rparr>, [], None)"
    by (simp add: parser_feed_def new_progress_parser_def drain_frames.simps PROGRESS_LINE_MAX_LEN_def)
  have d: "parser_feed \<lparr>pp_buf = ''fps'', pp_pairs = []\<rparr> (''=2'' @ [CHR 0x0A]) =
      (\<lparr>pp_buf = [], pp_pairs = [(''fps'', ''2'')]\<rparr>, [], None)"
    by (simp add: parser_feed_def drain_frames.simps consume_line_def Let_def
        decode_replace_def rstrip_char_def INTEREST_def PROGRESS_FRAME_MAX_LINES_def
        PROGRESS_LINE_MAX_LEN_def)
  have "parser_feed new_progress_parser (''fps'' @ (''=2'' @ [CHR 0x0A])) =
      (\<lparr>pp_buf = [], pp_pairs = [(''fps'', ''2'')]\<rparr>, [], None)"
    unfolding progress_chunk_invariant [OF h] d by simp
  then show ?thesis by simp
qed

section \<open>Whole frames\<close>

text \<open>A line as ffmpeg prints it, and the lines the parser reads back unchanged: ASCII, no line
  break, no equals sign in the key, no carriage return at the end of the value.\<close>

definition render_line :: "pystr \<times> pystr \<Rightarrow> bytes" where
  "render_line kv = fst kv @ ''='' @ snd kv @ [CHR 0x0A]"

definition plain_line :: "pystr \<times> pystr \<Rightarrow> bool" where
  "plain_line kv \<longleftrightarrow> list_all (\<lambda>c. (of_char c :: nat) < 128 \<and> c \<noteq> CHR 0x0A) (fst kv @ snd kv) \<and>
     CHR ''='' \<notin> set (fst kv) \<and> (snd kv = [] \<or> last (snd kv) \<noteq> CHR 0x0D)"

definition collect :: "pairs \<Rightarrow> pystr \<times> pystr \<Rightarrow> pairs" where
  "collect ps kv = (if fst kv \<in> set INTEREST then AList.update (fst kv) (snd kv) ps else ps)"

lemma decode_plain: "list_all (\<lambda>c. (of_char c :: nat) < 128 \<and> c \<noteq> CHR 0x0A) s \<Longrightarrow> decode_replace s = s"
  by (induction s) (auto simp: decode_replace_def)

lemma find_line:
  "plain_line kv \<Longrightarrow> find_char (CHR 0x0A) (render_line kv @ rest) = Some (fst kv @ ''='' @ snd kv, rest)"
  by (auto simp: find_char_Some render_line_def plain_line_def list_all_iff)

lemma line_split:
  assumes "plain_line kv"
  shows "find_char (CHR ''='') (rstrip_char (CHR 0x0D) (decode_replace (fst kv @ ''='' @ snd kv))) =
    Some (fst kv, snd kv)"
proof -
  have d: "decode_replace (fst kv @ ''='' @ snd kv) = fst kv @ ''='' @ snd kv"
    by (rule decode_plain) (use assms in \<open>simp add: plain_line_def\<close>)
  have "rstrip_char (CHR 0x0D) (fst kv @ ''='' @ snd kv) = fst kv @ ''='' @ snd kv"
    by (rule rstrip_char_id) (use assms in \<open>auto simp: plain_line_def\<close>)
  then show ?thesis using assms d by (cases kv) (simp add: find_char_Some plain_line_def)
qed

lemma consume_plain:
  assumes "plain_line kv" "fst kv \<noteq> ''progress''" "pairs_ok ps"
  shows "consume_line (fst kv @ ''='' @ snd kv) ps = Inr (collect ps kv, None)"
proof -
  have "\<not> 64 < length (AList.update (fst kv) (snd kv) ps)" if "fst kv \<in> set INTEREST"
    using pairs_ok_length [OF pairs_ok_update [OF assms(3) that, of "snd kv"]] by simp
  then show ?thesis
    unfolding consume_line_def Let_def line_split [OF assms(1)]
    using assms by (cases kv) (auto simp: collect_def PROGRESS_FRAME_MAX_LINES_def)
qed

lemma pairs_ok_collect: "pairs_ok ps \<Longrightarrow> pairs_ok (collect ps kv)"
  by (simp add: collect_def pairs_ok_update)

lemma drain_plain:
  assumes "\<forall>kv\<in>set kvs. plain_line kv \<and> fst kv \<noteq> ''progress''" "pairs_ok ps"
  shows "drain_frames \<lparr>pp_buf = concat (map render_line kvs) @ rest, pp_pairs = ps\<rparr> =
    drain_frames \<lparr>pp_buf = rest, pp_pairs = foldl collect ps kvs\<rparr>"
  using assms
proof (induction kvs arbitrary: ps)
  case Nil
  then show ?case by simp
next
  case (Cons kv kvs)
  let ?p = "\<lparr>pp_buf = concat (map render_line (kv # kvs)) @ rest, pp_pairs = ps\<rparr>"
  have f: "find_char (CHR 0x0A) (pp_buf ?p) =
      Some (fst kv @ ''='' @ snd kv, concat (map render_line kvs) @ rest)"
    using find_line Cons.prems(1) by simp
  have c: "consume_line (fst kv @ ''='' @ snd kv) (pp_pairs ?p) = Inr (collect ps kv, None)"
    using consume_plain Cons.prems by simp
  show ?case
    unfolding drain_frames_Some [OF f c]
    using Cons.IH [OF _ pairs_ok_collect [OF Cons.prems(2)], of kv] Cons.prems(1)
    by (simp add: Let_def)
qed

lemma map_of_collect:
  "k \<in> set INTEREST \<Longrightarrow> map_of (foldl collect ps kvs) k = (map_of ps ++ map_of (rev kvs)) k"
  by (induction kvs arbitrary: ps) (auto simp: collect_def update_conv' map_add_def split: option.splits)

text \<open>The frame the lines denote: every field is read from the last line with its key.\<close>

definition frame_of :: "(pystr \<times> pystr) list \<Rightarrow> progress_flag \<Rightarrow> progress_frame" where
  "frame_of kvs flag =
     (let get = map_of (rev kvs)
      in \<lparr>pf_frame = parse_int_field (get ''frame''), pf_fps = parse_float_field (get ''fps''),
        pf_bitrate_kbps = parse_bitrate (get ''bitrate''),
        pf_out_time_us = parse_int_field (get ''out_time_us''),
        pf_dup_frames = parse_int_field (get ''dup_frames''),
        pf_drop_frames = parse_int_field (get ''drop_frames''),
        pf_speed = parse_speed (get ''speed''), pf_progress = flag\<rparr>)"

definition flag_text :: "progress_flag \<Rightarrow> pystr" where
  "flag_text flag = (case flag of CONTINUE \<Rightarrow> ''continue'' | END \<Rightarrow> ''end'')"

lemma flag_plain: "plain_line (''progress'', flag_text flag)"
  by (cases flag) (simp_all add: plain_line_def flag_text_def)

lemma build_frame_collect:
  "build_frame (AList.update ''progress'' (flag_text flag) (foldl collect [] kvs)) = Some (frame_of kvs flag)"
proof -
  have get: "map_of (AList.update ''progress'' (flag_text flag) (foldl collect [] kvs)) k =
      map_of (rev kvs) k" if "k \<in> set INTEREST" "k \<noteq> ''progress''" for k
    using that by (simp add: update_conv' map_of_collect)
  have key: "map_of (AList.update ''progress'' (flag_text flag) (foldl collect [] kvs)) ''progress'' =
      Some (flag_text flag)"
    by (simp add: update_conv')
  have flag: "flag_text flag \<in> {''continue'', ''end''}" "(flag_text flag = ''end'') = (flag = END)"
    by (cases flag; simp add: flag_text_def)+
  have g: "map_of (AList.update ''progress'' (flag_text flag) (foldl collect [] kvs)) k =
      map_of (rev kvs) k" if "k \<in> {''frame'', ''fps'', ''bitrate'', ''out_time_us'', ''dup_frames'',
      ''drop_frames'', ''speed''}" for k
    by (rule get) (use that in \<open>auto simp: INTEREST_def\<close>)
  show ?thesis
    using flag by (simp add: build_frame_def frame_of_def Let_def key g) (cases flag; simp)
qed

text \<open>C25: printing any list of plain lines followed by the framing line and
  feeding it to a fresh parser yields exactly one frame, with every field parsed from the last
  line of its key, and leaves the parser fresh.\<close>

theorem progress_frame_roundtrip:
  assumes "\<forall>kv\<in>set kvs. plain_line kv \<and> fst kv \<noteq> ''progress''"
  shows "parser_feed new_progress_parser (concat (map render_line (kvs @ [(''progress'', flag_text flag)]))) =
    (new_progress_parser, [frame_of kvs flag], None)"
proof -
  let ?ps = "foldl collect [] kvs" and ?fl = "(''progress'', flag_text flag)"
  let ?p = "\<lparr>pp_buf = render_line ?fl, pp_pairs = ?ps\<rparr>"
  have ok: "pairs_ok (foldl collect ps kvs)" if "pairs_ok ps" for ps
    using that by (induction kvs arbitrary: ps) (simp_all add: pairs_ok_collect)
  have f: "find_char (CHR 0x0A) (pp_buf ?p) = Some (fst ?fl @ ''='' @ snd ?fl, [])"
    using find_line [OF flag_plain, of flag "[]"] by simp
  have prog: "''progress'' \<in> set INTEREST" by (simp add: INTEREST_def)
  have len: "\<not> 64 < length (AList.update ''progress'' (flag_text flag) ?ps)"
    using pairs_ok_length [OF pairs_ok_update [OF ok [OF pairs_ok_Nil] prog, of "flag_text flag"]] by simp
  have c: "consume_line (fst ?fl @ ''='' @ snd ?fl) (pp_pairs ?p) = Inr ([], Some (frame_of kvs flag))"
    unfolding consume_line_def Let_def line_split [OF flag_plain]
    using len prog by (simp add: PROGRESS_FRAME_MAX_LINES_def build_frame_collect)
  have "drain_frames \<lparr>pp_buf = concat (map render_line kvs) @ render_line ?fl, pp_pairs = []\<rparr> =
      drain_frames ?p"
    by (rule drain_plain) (use assms in simp_all)
  also have "\<dots> = (new_progress_parser, [frame_of kvs flag], None)"
    unfolding drain_frames_Some [OF f c] by (simp add: drain_frames_None new_progress_parser_def)
  finally show ?thesis by (simp add: parser_feed_def new_progress_parser_def)
qed

theorem progress_frame_roundtrip_witness:
  "parser_feed new_progress_parser (concat (map render_line [(''frame'', ''10''), (''speed'', ''1.5x''),
      (''progress'', ''end'')])) =
    (new_progress_parser, [\<lparr>pf_frame = 10, pf_fps = Fin 0, pf_bitrate_kbps = Fin 0, pf_out_time_us = 0,
      pf_dup_frames = 0, pf_drop_frames = 0, pf_speed = Fin (3/2), pf_progress = END\<rparr>], None)"
proof -
  let ?kvs = "[(''frame'', ''10''), (''speed'', ''1.5x'')]"
  have h: "\<forall>kv\<in>set ?kvs. plain_line kv \<and> fst kv \<noteq> ''progress''"
    by (simp add: plain_line_def)
  have i: "py_int ''10'' = Some 10"
    by (simp add: py_int_def strip_by_def number_space_def is_digit_def digits_value_def digit_value_def)
  have f: "py_float ''1.5'' = Some (Fin (3/2))"
    by (simp add: py_float_def strip_by_def number_space_def is_digit_def lower_char_def parse_decimal_def
        parse_exponent_def scale10_def digits_value_def digit_value_def float_overflow_def)
  have "frame_of ?kvs END = \<lparr>pf_frame = 10, pf_fps = Fin 0, pf_bitrate_kbps = Fin 0, pf_out_time_us = 0,
      pf_dup_frames = 0, pf_drop_frames = 0, pf_speed = Fin (3/2), pf_progress = END\<rparr>"
    by (simp add: frame_of_def parse_int_field_def parse_float_field_def parse_bitrate_def parse_speed_def
        remove_suffix_def suffix_def NA_def i f Let_def)
  then show ?thesis
    using progress_frame_roundtrip [OF h, of END] by (simp add: flag_text_def)
qed

end
