(* ===== verification/Redaction.thy ===== *)
theory Redaction
  imports Worker_Contract "HOL-Library.Monad_Syntax"
begin

text \<open>
  The stderr sanitizer of one worker, \<^verbatim>\<open>app/fanout/redaction.py\<close>: the literal pass, the
  regular-expression pass as a deterministic matcher, and the line-buffered sink with its forced
  split. The loop of \<^verbatim>\<open>feed\<close> is a partial function: not returning is \<open>None\<close>, and it is shown to
  return for URLs of 14 to 8000 bytes (14 is the length of the placeholder, so the literal pass
  never lengthens a window; each match of the other pass has at least 19 bytes and grows by at
  most 6).
\<close>

definition MAX_LINE_LEN :: nat where
  "MAX_LINE_LEN = 4096"

definition REDACTION_PLACEHOLDER :: bytes where
  "REDACTION_PLACEHOLDER = ''***REDACTED***''"

section \<open>The two passes\<close>

text \<open>\<^verbatim>\<open>[^/\s]\<close> and \<^verbatim>\<open>[A-Za-z0-9_\-]\<close> on bytes.\<close>

definition path_char :: "char \<Rightarrow> bool" where
  "path_char c \<longleftrightarrow> c \<noteq> CHR ''/'' \<and> \<not> byte_space c"

definition key_char :: "char \<Rightarrow> bool" where
  "key_char c \<longleftrightarrow> (let n = (of_char c :: nat) in (65 \<le> n \<and> n \<le> 90) \<or> (97 \<le> n \<and> n \<le> 122) \<or>
     (48 \<le> n \<and> n \<le> 57) \<or> c = CHR ''_'' \<or> c = CHR ''-'')"

text \<open>One or more path characters and a slash. The classes of consecutive items are disjoint, so
  the greedy match is the only one.\<close>

definition path_segment :: "bytes \<Rightarrow> (bytes \<times> bytes) option" where
  "path_segment s =
     (let seg = takeWhile path_char s; r = dropWhile path_char s
      in if seg = [] \<or> r = [] \<or> hd r \<noteq> CHR ''/'' then None else Some (seg @ ''/'', tl r))"

definition rtmp_head :: "bytes \<Rightarrow> (bytes \<times> bytes) option" where
  "rtmp_head s =
     (if prefix ''rtmp://'' s then Some (''rtmp://'', drop 7 s)
      else if prefix ''rtmps://'' s then Some (''rtmps://'', drop 8 s) else None)"

text \<open>A match at the start of the input: group 1, group 2 and what follows.\<close>

definition match_tail :: "bytes \<Rightarrow> (bytes \<times> bytes \<times> bytes) option" where
  "match_tail s =
     do {
       (hd1, r1) \<leftarrow> rtmp_head s;
       (host, r2) \<leftarrow> path_segment r1;
       (app, r3) \<leftarrow> path_segment r2;
       (let key = takeWhile key_char r3
        in if length key < 8 then None else Some (hd1 @ host @ app, key, dropWhile key_char r3))
     }"

lemma path_segment_split:
  assumes "path_segment s = Some (a, r)"
  shows "s = a @ r \<and> 2 \<le> length a"
proof -
  let ?seg = "takeWhile path_char s" and ?r = "dropWhile path_char s"
  have n: "?seg \<noteq> []" "?r \<noteq> []" "hd ?r = CHR ''/''" "a = ?seg @ ''/''" "r = tl ?r"
    using assms by (simp_all add: path_segment_def Let_def split: if_splits)
  then have "?r = CHR ''/'' # r" by (metis list.collapse)
  then have "?seg @ CHR ''/'' # r = s" by (metis takeWhile_dropWhile_id)
  then show ?thesis using n(1,4) by (cases ?seg) auto
qed

lemma rtmp_head_split: "rtmp_head s = Some (a, r) \<Longrightarrow> s = a @ r \<and> 7 \<le> length a"
  by (auto simp: rtmp_head_def prefix_def split: if_splits)

lemma match_tail_split:
  assumes "match_tail s = Some (g1, g2, r)"
  shows "s = g1 @ g2 @ r \<and> 11 \<le> length g1 \<and> 8 \<le> length g2"
proof -
  obtain h r1 host r2 app r3 where
    h: "rtmp_head s = Some (h, r1)" "path_segment r1 = Some (host, r2)" "path_segment r2 = Some (app, r3)"
    and g: "g1 = h @ host @ app" "g2 = takeWhile key_char r3" "r = dropWhile key_char r3" "8 \<le> length g2"
    using assms by (auto simp: match_tail_def Let_def split: Option.bind_splits if_splits)
  show ?thesis
    using rtmp_head_split [OF h(1)] path_segment_split [OF h(2)] path_segment_split [OF h(3)] g
    by auto
qed

function sub_tail :: "bytes \<Rightarrow> bytes" where
  "sub_tail s =
     (case s of
        [] \<Rightarrow> []
      | c # cs \<Rightarrow>
          (case match_tail s of
             None \<Rightarrow> c # sub_tail cs
           | Some (g1, g2, r) \<Rightarrow> g1 @ REDACTION_PLACEHOLDER @ sub_tail r))"
  by auto
termination
proof (relation "measure length", goal_cases)
  case (3 s c cs m g1 y g2 r)
  then have "length r < length (g1 @ g2 @ r)" using match_tail_split [of s g1 g2 r] by auto
  then show ?case using 3 match_tail_split [of s g1 g2 r] by auto
qed auto

declare sub_tail.simps [simp del]

lemma sub_tail_Nil [simp]: "sub_tail [] = []"
  by (simp add: sub_tail.simps)

lemma sub_tail_skip: "match_tail (c # cs) = None \<Longrightarrow> sub_tail (c # cs) = c # sub_tail cs"
  by (simp add: sub_tail.simps)

lemma sub_tail_match:
  "match_tail s = Some (g1, g2, r) \<Longrightarrow> sub_tail s = g1 @ REDACTION_PLACEHOLDER @ sub_tail r"
  by (cases s) (auto simp: sub_tail.simps dest: match_tail_split)

definition redact_line :: "bytes \<Rightarrow> bytes \<Rightarrow> bytes" where
  "redact_line url line =
     (let line1 = (if sublist url line then replace_all url REDACTION_PLACEHOLDER line else line)
      in sub_tail line1)"

section \<open>The sink\<close>

record redaction_sink =
  rd_url :: bytes
  rd_buf :: bytes

definition new_sink :: "pystr \<Rightarrow> value_error + redaction_sink" where
  "new_sink url =
     (if url = [] then Inl (ValueError ''worker_url must not be empty'')
      else Inr \<lparr>rd_url = utf8_encode url, rd_buf = []\<rparr>)"

partial_function (option) sink_loop :: "bytes \<Rightarrow> bytes \<Rightarrow> (bytes list \<times> bytes) option" where
  "sink_loop url buf =
     (case find_char (CHR 0x0A) buf of
        Some (line, rest) \<Rightarrow>
          do { (out, b) \<leftarrow> sink_loop url rest; Some (redact_line url line # out, b) }
      | None \<Rightarrow>
          (let threshold = MAX_LINE_LEN + length url
           in if length buf < threshold then Some ([], buf)
              else (let redacted = redact_line url (take threshold buf);
                        overflow = (if length redacted > MAX_LINE_LEN then drop MAX_LINE_LEN redacted else [])
                    in do { (out, b) \<leftarrow> sink_loop url (overflow @ drop threshold buf);
                            Some (take MAX_LINE_LEN redacted # out, b) })))"

definition sink_feed :: "redaction_sink \<Rightarrow> bytes \<Rightarrow> (bytes list \<times> redaction_sink) option" where
  "sink_feed s data =
     do { (out, b) \<leftarrow> sink_loop (rd_url s) (rd_buf s @ data); Some (out, s\<lparr>rd_buf := b\<rparr>) }"

definition sink_flush :: "redaction_sink \<Rightarrow> bytes list \<times> redaction_sink" where
  "sink_flush s =
     (if rd_buf s = [] then ([], s) else ([redact_line (rd_url s) (rd_buf s)], s\<lparr>rd_buf := []\<rparr>))"

section \<open>A redacted line never contains the URL\<close>

lemma sublist_past_star: "sublist u (g @ c # t) \<Longrightarrow> c \<notin> set u \<Longrightarrow> u \<noteq> [] \<Longrightarrow> sublist u g \<or> sublist u t"
  by (auto simp: sublist_append sublist_Cons_right prefix_Cons)

lemma sublist_past_fresh: "sublist u (g @ t) \<Longrightarrow> u \<noteq> [] \<Longrightarrow> hd u \<notin> set g \<Longrightarrow> sublist u t"
proof (induction g)
  case (Cons x g)
  have "\<not> prefix u (x # g @ t)" using Cons.prems by (cases u) auto
  then show ?case using Cons by (auto simp: sublist_Cons_right)
qed simp

lemma placeholder_star: "REDACTION_PLACEHOLDER = CHR ''*'' # ''**REDACTED***''"
  by (simp add: REDACTION_PLACEHOLDER_def)

lemma prefix_replace_from:
  "prefix u (replace_from pat REDACTION_PLACEHOLDER k s) \<Longrightarrow> CHR ''*'' \<notin> set u \<Longrightarrow> prefix u (drop k s)"
proof (induction pat REDACTION_PLACEHOLDER k s arbitrary: u rule: replace_from.induct)
  case (3 pat x xs)
  show ?case
  proof (cases "prefix pat (x # xs) \<and> pat \<noteq> []")
    case True
    then show ?thesis using "3.prems" by (cases u) (auto simp: placeholder_star)
  next
    case False
    then show ?thesis using "3.prems" "3.hyps"(2) by (cases u) auto
  qed
qed auto

lemma replace_from_removes:
  assumes "pat \<noteq> []" "CHR ''*'' \<notin> set pat" "hd pat \<notin> set REDACTION_PLACEHOLDER"
  shows "\<not> sublist pat (replace_from pat REDACTION_PLACEHOLDER k s)"
  using assms
proof (induction pat REDACTION_PLACEHOLDER k s rule: replace_from.induct)
  case (3 pat x xs)
  show ?case
  proof (cases "prefix pat (x # xs)")
    case True
    then show ?thesis using 3 sublist_past_fresh [of pat REDACTION_PLACEHOLDER] by auto
  next
    case False
    then have "\<not> prefix pat (x # replace_from pat REDACTION_PLACEHOLDER 0 xs)"
      using prefix_replace_from [of pat pat 0 "x # xs"] "3.prems" by auto
    then show ?thesis using 3 False by (simp add: sublist_Cons_right)
  qed
qed auto

lemma sublist_sub_tail:
  assumes "sublist u (sub_tail s)" "u \<noteq> []" "CHR ''*'' \<notin> set u" "hd u \<notin> set REDACTION_PLACEHOLDER"
  shows "sublist u s"
proof -
  have pre: "prefix v (sub_tail t) \<Longrightarrow> CHR ''*'' \<notin> set v \<Longrightarrow> prefix v t" for v t
  proof (induction t arbitrary: v rule: length_induct)
    case (1 t)
    show ?case
    proof (cases t)
      case Nil
      then show ?thesis using 1 by simp
    next
      case (Cons c cs)
      show ?thesis
      proof (cases "match_tail t")
        case None
        then show ?thesis using 1 Cons by (cases v) (auto simp: sub_tail_skip)
      next
        case (Some m)
        obtain g1 g2 r where m: "m = (g1, g2, r)" by (cases m)
        have "prefix v g1"
          using "1.prems" by (simp add: sub_tail_match [OF Some [unfolded m]] placeholder_star prefix_append
              prefix_Cons) auto
        then show ?thesis using match_tail_split [OF Some [unfolded m]] by auto
      qed
    qed
  qed
  show ?thesis using assms
  proof (induction s rule: length_induct)
    case (1 s)
    show ?case
    proof (cases s)
      case Nil
      then show ?thesis using 1 by simp
    next
      case (Cons c cs)
      show ?thesis
      proof (cases "match_tail s")
        case None
        then have "prefix u (sub_tail s) \<or> sublist u (sub_tail cs)"
          using "1.prems"(1) Cons by (simp add: sub_tail_skip sublist_Cons_right)
        then show ?thesis using pre 1 Cons by (auto simp: sublist_Cons_right)
      next
        case (Some m)
        obtain g1 g2 r where m: "m = (g1, g2, r)" by (cases m)
        note split = match_tail_split [OF Some [unfolded m]]
        have "sublist u g1 \<or> sublist u (''**REDACTED***'' @ sub_tail r)"
          using "1.prems"(1-3) sublist_past_star [of u g1 "CHR ''*''"]
          by (simp add: sub_tail_match [OF Some [unfolded m]] placeholder_star)
        moreover have "hd u \<notin> set ''**REDACTED***''" using "1.prems"(4) by (simp add: placeholder_star)
        ultimately have "sublist u g1 \<or> sublist u (sub_tail r)"
          using sublist_past_fresh [of u "''**REDACTED***''"] "1.prems"(2) by blast
        moreover have "sublist u r" if "sublist u (sub_tail r)"
        proof -
          have "length r < length s" using split by auto
          then show ?thesis using "1.IH" that "1.prems"(2-4) by blast
        qed
        ultimately have "sublist u g1 \<or> sublist u r" by blast
        then show ?thesis using split by (auto simp: sublist_append)
      qed
    qed
  qed
qed

lemma redact_line_clean:
  assumes "url \<noteq> []" "CHR ''*'' \<notin> set url" "hd url \<notin> set REDACTION_PLACEHOLDER"
  shows "\<not> sublist url (redact_line url line)"
  using sublist_sub_tail [OF _ assms] replace_from_removes [OF assms]
  by (auto simp: redact_line_def replace_all_def Let_def split: if_splits)

section \<open>The loop returns\<close>

lemma length_replace_from:
  assumes "length REDACTION_PLACEHOLDER \<le> length pat"
  shows "length (replace_from pat REDACTION_PLACEHOLDER k s) \<le> length (drop k s)"
  using assms
proof (induction pat REDACTION_PLACEHOLDER k s rule: replace_from.induct)
  case (3 pat x xs)
  show ?case
  proof (cases "prefix pat (x # xs) \<and> pat \<noteq> []")
    case True
    then have "length pat \<le> length (x # xs)" by (auto dest: prefix_length_le)
    then show ?thesis using 3 True by (auto simp: placeholder_star)
  next
    case False
    then show ?thesis using 3 by auto
  qed
qed auto

lemma length_sub_tail: "19 * length (sub_tail s) \<le> 25 * length s"
proof (induction s rule: length_induct)
  case (1 s)
  show ?case
  proof (cases s)
    case (Cons c cs)
    show ?thesis
    proof (cases "match_tail s")
      case None
      then show ?thesis using 1 Cons by (auto simp: sub_tail_skip)
    next
      case (Some m)
      obtain g1 g2 r where m: "m = (g1, g2, r)" by (cases m)
      note split = match_tail_split [OF Some [unfolded m]]
      have "length r < length s" using split by auto
      then have "19 * length (sub_tail r) \<le> 25 * length r" using 1 by blast
      moreover have "length (sub_tail s) = length g1 + 14 + length (sub_tail r)"
        by (simp add: sub_tail_match [OF Some [unfolded m]] REDACTION_PLACEHOLDER_def)
      moreover have "length s = length g1 + length g2 + length r" using split by simp
      ultimately show ?thesis using split by simp
    qed
  qed simp
qed

lemma length_redact_line:
  assumes "14 \<le> length url"
  shows "19 * length (redact_line url line) \<le> 25 * length line"
proof -
  have p: "length REDACTION_PLACEHOLDER \<le> length url" using assms by (simp add: REDACTION_PLACEHOLDER_def)
  have "length (replace_all url REDACTION_PLACEHOLDER line) \<le> length line"
    using length_replace_from [OF p, of 0 line] by (simp add: replace_all_def)
  then show ?thesis
    using length_sub_tail [of line] length_sub_tail [of "replace_all url REDACTION_PLACEHOLDER line"]
    by (simp add: redact_line_def Let_def)
qed

lemma set_replace_from: "set (replace_from pat rep k s) \<subseteq> set rep \<union> set s"
  by (induction pat rep k s rule: replace_from.induct) auto

lemma set_sub_tail: "set (sub_tail s) \<subseteq> set REDACTION_PLACEHOLDER \<union> set s"
proof (induction s rule: length_induct)
  case (1 s)
  show ?case
  proof (cases s)
    case (Cons c cs)
    show ?thesis
    proof (cases "match_tail s")
      case None
      then show ?thesis using 1 Cons by (fastforce simp: sub_tail_skip)
    next
      case (Some m)
      obtain g1 g2 r where m: "m = (g1, g2, r)" by (cases m)
      note split = match_tail_split [OF Some [unfolded m]]
      have "length r < length s" using split by auto
      then have "set (sub_tail r) \<subseteq> set REDACTION_PLACEHOLDER \<union> set r" using 1 by blast
      moreover have "sub_tail s = g1 @ REDACTION_PLACEHOLDER @ sub_tail r"
        by (rule sub_tail_match [OF Some [unfolded m]])
      ultimately have "set (sub_tail s) \<subseteq> set g1 \<union> set REDACTION_PLACEHOLDER \<union> set r" by auto
      then show ?thesis using split by auto
    qed
  qed simp
qed

lemma newline_redact_line: "CHR 0x0A \<notin> set line \<Longrightarrow> CHR 0x0A \<notin> set (redact_line url line)"
proof -
  assume "CHR 0x0A \<notin> set line"
  moreover have "CHR 0x0A \<notin> set REDACTION_PLACEHOLDER" by (simp add: REDACTION_PLACEHOLDER_def)
  ultimately show ?thesis
    using set_sub_tail [of line] set_sub_tail [of "replace_all url REDACTION_PLACEHOLDER line"]
      set_replace_from [of url REDACTION_PLACEHOLDER 0 line]
    by (auto simp: redact_line_def replace_all_def Let_def)
qed

lemma sink_loop_newline:
  "find_char (CHR 0x0A) buf = Some (line, rest) \<Longrightarrow>
    sink_loop url buf = do { (out, b) \<leftarrow> sink_loop url rest; Some (redact_line url line # out, b) }"
  by (subst sink_loop.simps) simp

lemma sink_loop_partial:
  "CHR 0x0A \<notin> set buf \<Longrightarrow> length buf < MAX_LINE_LEN + length url \<Longrightarrow> sink_loop url buf = Some ([], buf)"
  by (subst sink_loop.simps) (simp add: find_char_None [THEN iffD2])

definition split_window :: "bytes \<Rightarrow> bytes \<Rightarrow> bytes" where
  "split_window url buf = redact_line url (take (MAX_LINE_LEN + length url) buf)"

lemma sink_loop_split:
  "CHR 0x0A \<notin> set buf \<Longrightarrow> \<not> length buf < MAX_LINE_LEN + length url \<Longrightarrow> sink_loop url buf =
    do { (out, b) \<leftarrow> sink_loop url (drop MAX_LINE_LEN (split_window url buf) @ drop (MAX_LINE_LEN + length url) buf);
         Some (take MAX_LINE_LEN (split_window url buf) # out, b) }"
  by (subst sink_loop.simps) (simp add: find_char_None [THEN iffD2] split_window_def Let_def)

lemma split_window_shrinks:
  assumes "14 \<le> length url" "length url \<le> 8000" "\<not> length buf < MAX_LINE_LEN + length url"
  shows "length (drop MAX_LINE_LEN (split_window url buf) @ drop (MAX_LINE_LEN + length url) buf) < length buf"
proof -
  have "length (take (MAX_LINE_LEN + length url) buf) = MAX_LINE_LEN + length url"
    using assms(3) by simp
  then have "19 * length (split_window url buf) \<le> 25 * (MAX_LINE_LEN + length url)"
    using length_redact_line [OF assms(1), of "take (MAX_LINE_LEN + length url) buf"]
    by (simp add: split_window_def)
  then have "length (split_window url buf) < 2 * MAX_LINE_LEN + length url"
    using assms(2) by (simp add: MAX_LINE_LEN_def)
  then show ?thesis using assms(3) by simp
qed

lemma newline_split_window:
  "CHR 0x0A \<notin> set buf \<Longrightarrow> CHR 0x0A \<notin> set (split_window url buf)"
  unfolding split_window_def by (rule newline_redact_line) (auto dest: in_set_takeD)

lemma sink_loop_returns:
  assumes "14 \<le> length url" "length url \<le> 8000"
  shows "\<exists>out b. sink_loop url buf = Some (out, b) \<and> CHR 0x0A \<notin> set b \<and>
    length b < MAX_LINE_LEN + length url \<and> (\<forall>l\<in>set out. CHR 0x0A \<notin> set l)"
proof (induction buf rule: length_induct)
  case (1 buf)
  show ?case
  proof (cases "find_char (CHR 0x0A) buf")
    case (Some lr)
    obtain line rest where lr: "lr = (line, rest)" by (cases lr)
    have "CHR 0x0A \<notin> set line" "length rest < length buf"
      using Some lr by (auto simp: find_char_Some)
    then show ?thesis
      using "1.IH" newline_redact_line by (fastforce simp: sink_loop_newline [OF Some [unfolded lr]])
  next
    case None
    then have nl: "CHR 0x0A \<notin> set buf" by simp
    show ?thesis
    proof (cases "length buf < MAX_LINE_LEN + length url")
      case True
      then show ?thesis using nl by (simp add: sink_loop_partial)
    next
      case False
      let ?next = "drop MAX_LINE_LEN (split_window url buf) @ drop (MAX_LINE_LEN + length url) buf"
      obtain out b where "sink_loop url ?next = Some (out, b)" "CHR 0x0A \<notin> set b"
        "length b < MAX_LINE_LEN + length url" "\<forall>l\<in>set out. CHR 0x0A \<notin> set l"
        using "1.IH" split_window_shrinks [OF assms False] by blast
      then show ?thesis
        using newline_split_window [OF nl, of url]
        by (auto simp: sink_loop_split [OF nl False] dest: in_set_takeD)
    qed
  qed
qed

text \<open>Feeding any bytes returns, every line it emits is free of newlines, and
  the sink keeps less than the line cap plus the URL's length, with no newline in it.\<close>

theorem sink_feed_returns:
  assumes "14 \<le> length (rd_url s)" "length (rd_url s) \<le> 8000"
  shows "\<exists>out s'. sink_feed s data = Some (out, s') \<and> rd_url s' = rd_url s \<and>
    length (rd_buf s') < MAX_LINE_LEN + length (rd_url s) \<and> CHR 0x0A \<notin> set (rd_buf s') \<and>
    (\<forall>l\<in>set out. CHR 0x0A \<notin> set l)"
  using sink_loop_returns [OF assms, of "rd_buf s @ data"] by (auto simp: sink_feed_def)

theorem sink_feed_returns_witness:
  "\<exists>out s'. sink_feed \<lparr>rd_url = ''rtmp://h/app/key1'', rd_buf = []\<rparr> ''x'' = Some (out, s') \<and>
    CHR 0x0A \<notin> set (rd_buf s')"
proof -
  let ?s = "\<lparr>rd_url = ''rtmp://h/app/key1'', rd_buf = []\<rparr>"
  have h: "14 \<le> length (rd_url ?s)" "length (rd_url ?s) \<le> 8000" by simp_all
  show ?thesis using sink_feed_returns [OF h, of "''x''"] by blast
qed

section \<open>Whole lines\<close>

lemma sink_loop_lines:
  assumes "length (last (split_char (CHR 0x0A) buf)) < MAX_LINE_LEN + length url"
  shows "sink_loop url buf = Some (map (redact_line url) (butlast (split_char (CHR 0x0A) buf)),
    last (split_char (CHR 0x0A) buf))"
  using assms
proof (induction buf rule: length_induct)
  case (1 buf)
  show ?case
  proof (cases "find_char (CHR 0x0A) buf")
    case (Some lr)
    obtain line rest where lr: "lr = (line, rest)" by (cases lr)
    have "length rest < length buf" using Some lr by (auto dest: find_char_length)
    then show ?thesis
      using 1 by (simp add: sink_loop_newline [OF Some [unfolded lr]] split_char_Some [OF Some [unfolded lr]])
  next
    case None
    then show ?thesis using 1 by (simp add: split_char_None [OF None] sink_loop_partial)
  qed
qed

text \<open>C23: as long as the unfinished line stays below the forced-split threshold,
  feeding emits exactly the complete lines of buffer and data, each redacted, and none of them
  contains the worker's output URL; the rest stays buffered.\<close>

theorem sink_redacts_lines:
  assumes url: "prefix ''rtmp'' (rd_url s)" "CHR ''*'' \<notin> set (rd_url s)"
    and short: "length (last (split_char (CHR 0x0A) (rd_buf s @ data))) < MAX_LINE_LEN + length (rd_url s)"
  shows "sink_feed s data = Some (map (redact_line (rd_url s)) (butlast (split_char (CHR 0x0A) (rd_buf s @ data))),
      s\<lparr>rd_buf := last (split_char (CHR 0x0A) (rd_buf s @ data))\<rparr>) \<and>
    (\<forall>line. \<not> sublist (rd_url s) (redact_line (rd_url s) line))"
proof -
  have "rd_url s \<noteq> []" "hd (rd_url s) \<notin> set REDACTION_PLACEHOLDER"
    using url(1) by (auto simp: REDACTION_PLACEHOLDER_def prefix_def)
  then show ?thesis
    using redact_line_clean url(2) by (auto simp: sink_feed_def sink_loop_lines [OF short])
qed

theorem sink_redacts_lines_witness:
  "\<not> sublist ''rtmp://h/a/k'' (redact_line ''rtmp://h/a/k'' ''to rtmp://h/a/k failed'') \<and>
   redact_line ''rtmp://h/a/k'' ''to rtmp://h/a/k failed'' = ''to ***REDACTED*** failed''"
proof -
  let ?s = "\<lparr>rd_url = ''rtmp://h/a/k'', rd_buf = []\<rparr>"
  have h: "prefix ''rtmp'' (rd_url ?s)" "CHR ''*'' \<notin> set (rd_url ?s)"
    "length (last (split_char (CHR 0x0A) (rd_buf ?s @ ''x''))) < MAX_LINE_LEN + length (rd_url ?s)"
    by (simp_all add: MAX_LINE_LEN_def)
  have "redact_line ''rtmp://h/a/k'' ''to rtmp://h/a/k failed'' = ''to ***REDACTED*** failed''"
    by (simp add: redact_line_def replace_all_def sub_tail.simps match_tail_def rtmp_head_def
        sublist_Cons_right REDACTION_PLACEHOLDER_def)
  then show ?thesis using sink_redacts_lines [OF h, THEN conjunct2]
    by (metis redaction_sink.select_convs(1))
qed

end
