(* ===== verification/Backoff.thy ===== *)
theory Backoff
  imports Prelude
begin

text \<open>
  The reconnect schedule of \<^verbatim>\<open>app/fanout/backoff.py\<close>. Durations are whole microseconds; the
  intermediate floats are rationals, and the random draw in [0, 1) is an argument. The conversion
  of \<^verbatim>\<open>2 ** attempt\<close> to a float, which fails from 2 to the 1024 on, is kept: it is an exception of
  this function.
\<close>

definition BACKOFF_BASE :: timedelta where
  "BACKOFF_BASE = seconds 1"

definition BACKOFF_CAP :: timedelta where
  "BACKOFF_CAP = seconds 60"

definition JITTER_PCT :: rat where
  "JITTER_PCT = 20 / 100"

datatype backoff_error = BadArgument pystr | FloatOverflow

definition total_seconds :: "timedelta \<Rightarrow> rat" where
  "total_seconds d = of_int d / 1000000"

text \<open>\<^verbatim>\<open>timedelta(seconds=x)\<close> rounds to the nearest microsecond, ties to even.\<close>

definition timedelta_of_seconds :: "rat \<Rightarrow> timedelta" where
  "timedelta_of_seconds x =
     (let y = x * 1000000; n = \<lfloor>y\<rfloor>; f = y - of_int n
      in if f < 1 / 2 then n else if f > 1 / 2 then n + 1 else if even n then n else n + 1)"

definition compute_backoff ::
    "int \<Rightarrow> timedelta \<Rightarrow> timedelta \<Rightarrow> rat \<Rightarrow> rat \<Rightarrow> backoff_error + timedelta" where
  "compute_backoff attempt base cap jitter_pct r =
     (if attempt < 0 then Inl (BadArgument ''attempt must be >= 0'')
      else if jitter_pct < 0 then Inl (BadArgument ''jitter_pct must be >= 0'')
      else if attempt \<ge> 1024 then Inl FloatOverflow
      else (let raw = min (total_seconds cap) (total_seconds base * 2 ^ nat attempt);
                jitter = raw * jitter_pct * (2 * r - 1)
            in Inr (timedelta_of_seconds (max 0 (raw + jitter)))))"

text \<open>The worker's call: default base, cap and jitter.\<close>

abbreviation worker_backoff :: "int \<Rightarrow> rat \<Rightarrow> backoff_error + timedelta" where
  "worker_backoff attempt r \<equiv> compute_backoff attempt BACKOFF_BASE BACKOFF_CAP JITTER_PCT r"

section \<open>Bounds\<close>

lemma timedelta_of_seconds_between:
  assumes "of_int a \<le> x * 1000000" "x * 1000000 \<le> of_int b"
  shows "a \<le> timedelta_of_seconds x \<and> timedelta_of_seconds x \<le> b"
proof -
  let ?y = "x * 1000000"
  have a: "a \<le> \<lfloor>?y\<rfloor>" using assms(1) by (simp add: le_floor_iff)
  have b: "\<lfloor>?y\<rfloor> \<le> b" using assms(2) by linarith
  have "\<lfloor>?y\<rfloor> + 1 \<le> b" if "0 < ?y - of_int \<lfloor>?y\<rfloor>"
    using that assms(2) by linarith
  then show ?thesis
    using a b by (auto simp: timedelta_of_seconds_def Let_def not_less)
qed

lemma timedelta_of_seconds_nonneg: "0 \<le> x \<Longrightarrow> 0 \<le> timedelta_of_seconds x"
  by (auto simp: timedelta_of_seconds_def Let_def)

lemma worker_backoff_range:
  assumes "0 \<le> r" "r < 1" "0 \<le> attempt" "attempt < 1024"
  obtains d where "worker_backoff attempt r = Inr d"
    "800000 * min 60 (2 ^ nat attempt) \<le> d" "d \<le> 1200000 * min 60 (2 ^ nat attempt)"
proof -
  let ?m = "min 60 (2 ^ nat attempt) :: int"
  let ?raw = "min (total_seconds BACKOFF_CAP) (total_seconds BACKOFF_BASE * 2 ^ nat attempt)"
  let ?x = "max 0 (?raw + ?raw * JITTER_PCT * (2 * r - 1))"
  have raw: "?raw = of_int ?m"
    by (simp add: total_seconds_def BACKOFF_CAP_def BACKOFF_BASE_def of_int_min)
  have m: "1 \<le> ?m" by simp
  then have m': "0 \<le> (of_int ?m :: rat)" by linarith
  have "- 1 \<le> 2 * r - 1" "2 * r - 1 \<le> 1" using assms by auto
  then have "of_int ?m * - 1 \<le> of_int ?m * (2 * r - 1)" "of_int ?m * (2 * r - 1) \<le> of_int ?m * 1"
    using m' mult_left_mono by blast+
  then have "of_int (800000 * ?m) \<le> ?x * 1000000" "?x * 1000000 \<le> of_int (1200000 * ?m)"
    unfolding raw JITTER_PCT_def using m' by (auto simp: max_def field_simps)
  then have "800000 * ?m \<le> timedelta_of_seconds ?x \<and> timedelta_of_seconds ?x \<le> 1200000 * ?m"
    by (rule timedelta_of_seconds_between)
  then show ?thesis using that assms by (simp add: compute_backoff_def JITTER_PCT_def Let_def)
qed

text \<open>C27: below the float range a worker's delay for any draw stays within 20 percent
  of one second doubled per attempt and capped at 60 seconds, so between 0.8 and 72 seconds;
  from attempt 1024 on the call raises instead.\<close>

theorem backoff_bounds:
  assumes "0 \<le> r" "r < 1" "0 \<le> attempt"
  shows "case worker_backoff attempt r of
      Inl e \<Rightarrow> e = FloatOverflow \<and> 1024 \<le> attempt
    | Inr d \<Rightarrow> attempt < 1024 \<and>
        800000 * min 60 (2 ^ nat attempt) \<le> d \<and> d \<le> 1200000 * min 60 (2 ^ nat attempt)"
proof (cases "attempt < 1024")
  case False
  then show ?thesis using assms by (simp add: compute_backoff_def JITTER_PCT_def)
next
  case True
  obtain d where "worker_backoff attempt r = Inr d"
    "800000 * min 60 (2 ^ nat attempt) \<le> d" "d \<le> 1200000 * min 60 (2 ^ nat attempt)"
    by (rule worker_backoff_range [OF assms True])
  then show ?thesis using True by simp
qed

theorem backoff_bounds_witness:
  "case worker_backoff 3 (1/2) of Inl e \<Rightarrow> False | Inr d \<Rightarrow> 6400000 \<le> d \<and> d \<le> 9600000"
proof -
  have h: "0 \<le> (1/2 :: rat)" "(1/2 :: rat) < 1" "0 \<le> (3 :: int)" by simp_all
  show ?thesis using backoff_bounds [OF h] by (simp split: sum.splits)
qed

end
