(* ===== verification/Ffmpeg_Worker.thy ===== *)
theory Ffmpeg_Worker
  imports Progress_Parser Redaction Backoff
begin

text \<open>
  The concrete worker of \<^verbatim>\<open>app/fanout/ffmpeg_worker.py\<close>. Its fields are a record; each method is
  a definition over it; the lifecycle coroutine is cut at its suspension points into a control
  state. An input is what the outside does to the worker: the outcome of a spawn, a chunk on
  stdout or stderr, a tick of the stall watcher, the exit of the child, a timer, or one of the
  steps of \<^verbatim>\<open>stop\<close> and \<^verbatim>\<open>user_reset\<close>. \<open>fw_step\<close> performs one input; it is undefined where the
  coroutine cannot take it. Each step reads the wall clock (\<open>now\<close>, microseconds) and the
  monotonic clock (\<open>mns\<close>, nanoseconds) once. The event channel is the list of events sent;
  back-pressure (a blocked send) delays a step and is not a state. The loop condition and the spawn
  that follows it are one step: a stop that comes while the spawn is in flight does not call it off.
\<close>

section \<open>State\<close>

definition STALL_TIMEOUT :: timedelta where
  "STALL_TIMEOUT = seconds 5"

definition LOG_RING_LINES :: nat where
  "LOG_RING_LINES = 200"

record spawned_process =
  proc_pid :: int
  proc_returncode :: "int option"

text \<open>Where the lifecycle coroutine is suspended.\<close>

datatype lifecycle_point =
  NotStarted | Launched | Spawning | Pumping | AfterRun | WaitReset | InBackoff datetime
| LoopExit | Finished | Crashed | Cancelled

record ffmpeg_worker =
  fw_spec :: worker_spec
  fw_breaker :: breaker
  fw_stall_timeout :: timedelta
  fw_state :: worker_state
  fw_attempt :: int
  fw_last_event_at :: datetime
  fw_last_error :: "pystr option"
  fw_last_progress_at_ns :: int
  fw_last_progress :: "progress_snapshot option"
  fw_log_ring :: "bytes list"
  fw_redaction :: redaction_sink
  fw_parser :: progress_parser
  fw_process :: "spawned_process option"
  fw_spawn_at_ns :: int
  fw_stall_armed :: bool
  fw_stop_requested :: bool
  fw_user_reset_event :: bool
  fw_ctl :: lifecycle_point
  fw_started_at :: "datetime option"
  fw_channel_open :: bool
  fw_send_open :: bool
  fw_events :: "worker_event list"
  fw_warnings :: "pystr list"

definition new_ffmpeg_worker ::
    "worker_spec \<Rightarrow> breaker_policy option \<Rightarrow> datetime \<Rightarrow> int \<Rightarrow> value_error + ffmpeg_worker" where
  "new_ffmpeg_worker spec pol now mns =
     (case new_sink (sc_output_url spec) of
        Inl e \<Rightarrow> Inl e
      | Inr sink \<Rightarrow> Inr
         \<lparr>fw_spec = spec,
          fw_breaker = new_breaker (case pol of None \<Rightarrow> default_breaker_policy | Some p \<Rightarrow> p),
          fw_stall_timeout = STALL_TIMEOUT, fw_state = W_IDLE, fw_attempt = 0,
          fw_last_event_at = now, fw_last_error = None, fw_last_progress_at_ns = mns,
          fw_last_progress = None, fw_log_ring = [], fw_redaction = sink,
          fw_parser = new_progress_parser, fw_process = None, fw_spawn_at_ns = mns,
          fw_stall_armed = False, fw_stop_requested = False, fw_user_reset_event = False,
          fw_ctl = NotStarted, fw_started_at = None, fw_channel_open = True, fw_send_open = True,
          fw_events = [],
          fw_warnings = []\<rparr>)"

definition fw_pid :: "ffmpeg_worker \<Rightarrow> int option" where
  "fw_pid w = map_option proc_pid (fw_process w)"

definition fw_snapshot :: "ffmpeg_worker \<Rightarrow> datetime \<Rightarrow> ffmpeg_worker \<times> worker_snapshot" where
  "fw_snapshot w now =
     (let (b, n) = failure_count_in_window (fw_breaker w) now
      in (w\<lparr>fw_breaker := b\<rparr>,
          \<lparr>ws_role = wid_role (sc_worker_id (fw_spec w)), ws_state = fw_state w,
           ws_last_event_at = fw_last_event_at w, ws_last_error = fw_last_error w,
           ws_breaker_failures_in_window = n, ws_last_progress = fw_last_progress w\<rparr>))"

section \<open>Emission\<close>

text \<open>\<open>fw_channel_open\<close>: the receiving end is open; a send without it raises \<^verbatim>\<open>BrokenResourceError\<close>, which
  drops the event. \<open>fw_send_open\<close>: the sending end is open; a send on a closed one raises \<^verbatim>\<open>ClosedResourceError\<close>, which
  nobody catches. Only \<^verbatim>\<open>stop\<close> closes it, after the lifecycle task has ended, so no method sends on it
  (\<open>closed_send_is_quiet\<close>) but that of a lifecycle started again, whose first event ends it (\<open>fw_resume\<close>).\<close>

definition fw_emit ::
    "ffmpeg_worker \<Rightarrow> worker_payload \<Rightarrow> worker_event_kind \<Rightarrow> datetime \<Rightarrow> int \<Rightarrow> ffmpeg_worker" where
  "fw_emit w p k now mns =
     (let ev = \<lparr>we_worker_id = sc_worker_id (fw_spec w), we_at = now, we_monotonic_ns = mns,
                we_kind = k, we_payload = p\<rparr>
      in w\<lparr>fw_last_event_at := now,
           fw_events := (if fw_channel_open w then fw_events w @ [ev] else fw_events w)\<rparr>)"

definition fw_emit_state_change ::
    "ffmpeg_worker \<Rightarrow> worker_state \<Rightarrow> pystr \<Rightarrow> datetime \<Rightarrow> int \<Rightarrow> ffmpeg_worker" where
  "fw_emit_state_change w new c now mns = fw_emit w (StateEvent new (fw_state w) c) K_STATE now mns"

definition fw_emit_error :: "ffmpeg_worker \<Rightarrow> pystr \<Rightarrow> bool \<Rightarrow> datetime \<Rightarrow> int \<Rightarrow> ffmpeg_worker" where
  "fw_emit_error w msg fat now mns = fw_emit w (ErrorEvent msg fat) K_ERROR now mns"

definition fw_emit_progress ::
    "ffmpeg_worker \<Rightarrow> progress_frame \<Rightarrow> datetime \<Rightarrow> int \<Rightarrow> ffmpeg_worker" where
  "fw_emit_progress w f now mns =
     (let w1 = w\<lparr>fw_last_progress := Some \<lparr>ps_bitrate_kbps = pf_bitrate_kbps f, ps_fps = pf_fps f,
            ps_drop_frames = pf_drop_frames f, ps_speed = pf_speed f, ps_at = now\<rparr>\<rparr>
      in fw_emit w1 (ProgressEvent f) K_PROGRESS now mns)"

definition fw_set_state ::
    "ffmpeg_worker \<Rightarrow> worker_state \<Rightarrow> worker_action \<Rightarrow> pystr \<Rightarrow> datetime \<Rightarrow> int \<Rightarrow> ffmpeg_worker" where
  "fw_set_state w new ac c now mns =
     (case worker_transition (fw_state w) ac None of
        Inl _ \<Rightarrow> w\<lparr>fw_warnings := fw_warnings w @ [''ffmpeg_worker_illegal_transition'']\<rparr>
      | Inr verified \<Rightarrow>
          (let w1 = (if verified \<noteq> new
                then w\<lparr>fw_warnings := fw_warnings w @ [''ffmpeg_worker_state_action_mismatch'']\<rparr> else w)
           in (fw_emit_state_change w1 verified c now mns)\<lparr>fw_state := verified\<rparr>))"

definition fw_apply_reconnect_verdict ::
    "ffmpeg_worker \<Rightarrow> breaker_verdict \<Rightarrow> datetime \<Rightarrow> int \<Rightarrow> ffmpeg_worker" where
  "fw_apply_reconnect_verdict w verdict now mns =
     (case worker_transition (fw_state w) RECONNECT (Some verdict) of
        Inl _ \<Rightarrow> w
      | Inr new \<Rightarrow>
          (if new = fw_state w then w
           else (let (b, n) = failure_count_in_window (fw_breaker w) now;
                     c = ''breaker '' @ verdict_value verdict @ '' ('' @ show_int n @ '' failures)''
                 in (fw_emit_state_change (w\<lparr>fw_breaker := b\<rparr>) new c now mns)\<lparr>fw_state := new\<rparr>)))"

section \<open>The pumps\<close>

definition parse_error_message :: "progress_parse_error \<Rightarrow> pystr" where
  "parse_error_message e =
     (case e of
        LineTooLong n \<Rightarrow> ''line exceeded 256-byte cap (no newline in '' @ show_int (int n) @ '' bytes)''
      | FrameTooLong \<Rightarrow> ''frame exceeded 64 interesting key=value pairs'')"

definition fw_on_frame :: "datetime \<Rightarrow> int \<Rightarrow> ffmpeg_worker \<Rightarrow> progress_frame \<Rightarrow> ffmpeg_worker" where
  "fw_on_frame now mns w f =
     (let w1 = w\<lparr>fw_last_progress_at_ns := mns\<rparr>;
          w2 = (if fw_state w1 = W_STARTING
                then fw_set_state w1 W_RUNNING PROCESS_HEALTHY ''first progress frame'' now mns
                else if fw_state w1 = W_RECONNECTING
                then (fw_set_state w1 W_RUNNING PROCESS_HEALTHY ''progress resumed after reconnect'' now mns)
                       \<lparr>fw_attempt := 0\<rparr>
                else w1);
          w3 = (if fw_state w2 = W_RUNNING
                then w2\<lparr>fw_breaker := record_healthy (fw_breaker w2) now\<rparr> else w2)
      in fw_emit_progress w3 f now mns)"

definition fw_stdout_chunk :: "ffmpeg_worker \<Rightarrow> bytes \<Rightarrow> datetime \<Rightarrow> int \<Rightarrow> ffmpeg_worker" where
  "fw_stdout_chunk w chunk now mns =
     (case parser_feed (fw_parser w) chunk of
        (p, fs, Some e) \<Rightarrow>
          (let msg = ''progress parse: '' @ parse_error_message e
           in (fw_emit_error (w\<lparr>fw_last_error := Some msg\<rparr>) msg False now mns)
                \<lparr>fw_parser := new_progress_parser\<rparr>)
      | (p, fs, None) \<Rightarrow> foldl (fw_on_frame now mns) (w\<lparr>fw_parser := p\<rparr>) fs)"

definition fw_consume_stderr_line :: "ffmpeg_worker \<Rightarrow> bytes \<Rightarrow> ffmpeg_worker" where
  "fw_consume_stderr_line w line =
     w\<lparr>fw_log_ring := tail_slice LOG_RING_LINES (fw_log_ring w @ [line])\<rparr>"

text \<open>An empty chunk is the end of the stream.\<close>

definition fw_stderr_chunk :: "ffmpeg_worker \<Rightarrow> bytes \<Rightarrow> ffmpeg_worker option" where
  "fw_stderr_chunk w chunk =
     (if chunk = []
      then (let (out, s) = sink_flush (fw_redaction w)
            in Some (foldl fw_consume_stderr_line (w\<lparr>fw_redaction := s\<rparr>) out))
      else (case sink_feed (fw_redaction w) chunk of
              None \<Rightarrow> None
            | Some (out, s) \<Rightarrow> Some (foldl fw_consume_stderr_line (w\<lparr>fw_redaction := s\<rparr>) out)))"

definition fw_recent_log_lines :: "ffmpeg_worker \<Rightarrow> bytes list" where
  "fw_recent_log_lines w = fw_log_ring w"

definition fw_stall_tick :: "ffmpeg_worker \<Rightarrow> datetime \<Rightarrow> int \<Rightarrow> ffmpeg_worker" where
  "fw_stall_tick w now mns =
     (case fw_process w of
        None \<Rightarrow> w\<lparr>fw_stall_armed := False\<rparr>
      | Some proc \<Rightarrow>
          (if proc_returncode proc \<noteq> None then w\<lparr>fw_stall_armed := False\<rparr>
           else (let elapsed = mns - fw_last_progress_at_ns w
             in if elapsed > fw_stall_timeout w * 1000
                then (fw_emit w (StalledEvent (timedelta_of_seconds (of_int elapsed / 10 ^ 9))) K_STALLED now mns)
                       \<lparr>fw_stall_armed := False\<rparr>
                else w)))"

section \<open>One spawn\<close>

text \<open>The spawner returned a process, or raised the named exception.\<close>

datatype spawn_result = Spawned int | SpawnFailed pystr

definition fw_spawn_result ::
    "ffmpeg_worker \<Rightarrow> spawn_result \<Rightarrow> datetime \<Rightarrow> int \<Rightarrow> ffmpeg_worker" where
  "fw_spawn_result w r now mns =
     (case r of
        SpawnFailed exc \<Rightarrow>
          (let msg = ''spawn failed: '' @ exc
           in (fw_emit_error (w\<lparr>fw_last_error := Some msg\<rparr>) msg False now mns)\<lparr>fw_ctl := AfterRun\<rparr>)
      | Spawned pid \<Rightarrow>
          w\<lparr>fw_process := Some \<lparr>proc_pid = pid, proc_returncode = None\<rparr>,
            fw_last_progress_at_ns := mns, fw_spawn_at_ns := mns, fw_parser := new_progress_parser,
            fw_stall_armed := True, fw_ctl := Pumping\<rparr>)"

definition fw_process_exit :: "ffmpeg_worker \<Rightarrow> int \<Rightarrow> datetime \<Rightarrow> int \<Rightarrow> ffmpeg_worker" where
  "fw_process_exit w code now mns =
     (let rc = (if code < 0 then None else Some code);
          sg = (if code < 0 then Some (- code) else None);
          d = timedelta_of_seconds (of_int (mns - fw_spawn_at_ns w) / 10 ^ 9)
      in (fw_emit w (ExitEvent rc sg d) K_EXITED now mns)
           \<lparr>fw_process := None, fw_stall_armed := False, fw_ctl := AfterRun\<rparr>)"

section \<open>The lifecycle loop\<close>

text \<open>The tail of an iteration: leaving STARTING or RUNNING, the breaker's verdict, and then either
  the wait for a reset or the backoff. \<open>r\<close> is the draw of the jitter.\<close>

definition fw_note_failure :: "ffmpeg_worker \<Rightarrow> datetime \<Rightarrow> int \<Rightarrow> ffmpeg_worker" where
  "fw_note_failure w now mns =
     (if fw_state w = W_STARTING
      then fw_set_state w W_RECONNECTING PROCESS_EXITED ''process exited during startup'' now mns
      else if fw_state w = W_RUNNING
      then fw_set_state w W_RECONNECTING PROCESS_EXITED ''process exited'' now mns
      else w)"

definition fw_after_verdict :: "ffmpeg_worker \<Rightarrow> rat \<Rightarrow> datetime \<Rightarrow> ffmpeg_worker" where
  "fw_after_verdict w r now =
     (if fw_state w = W_FAILED_OPEN then w\<lparr>fw_user_reset_event := False, fw_ctl := WaitReset\<rparr>
      else (case worker_backoff (fw_attempt w) r of
              Inl _ \<Rightarrow> w\<lparr>fw_ctl := Crashed\<rparr>
            | Inr d \<Rightarrow> w\<lparr>fw_attempt := fw_attempt w + 1, fw_ctl := InBackoff (now + d)\<rparr>))"

definition fw_after_run :: "ffmpeg_worker \<Rightarrow> rat \<Rightarrow> datetime \<Rightarrow> int \<Rightarrow> ffmpeg_worker" where
  "fw_after_run w r now mns =
     (if fw_stop_requested w then w\<lparr>fw_ctl := LoopExit\<rparr>
      else
       (let (b, verdict) = should_open (record_failure (fw_breaker w) now) now;
            err = (case fw_last_error w of None \<Rightarrow> ''process exited unexpectedly''
                   | Some e \<Rightarrow> if e = [] then ''process exited unexpectedly'' else e);
            w1 = w\<lparr>fw_breaker := b, fw_last_error := Some err\<rparr>;
            w2 = fw_note_failure w1 now mns;
            w3 = fw_apply_reconnect_verdict w2 verdict now mns
        in fw_after_verdict w3 r now))"

text \<open>The loop condition: out of the loop, or into the spawn, which is in flight from here on.\<close>

definition fw_loop_top :: "ffmpeg_worker \<Rightarrow> ffmpeg_worker" where
  "fw_loop_top w = w\<lparr>fw_ctl := (if fw_stop_requested w then LoopExit else Spawning)\<rparr>"

definition fw_leave_failed_open :: "ffmpeg_worker \<Rightarrow> datetime \<Rightarrow> int \<Rightarrow> ffmpeg_worker" where
  "fw_leave_failed_open w now mns =
     (if fw_stop_requested w then w\<lparr>fw_ctl := LoopExit\<rparr>
      else fw_loop_top (fw_set_state w W_STARTING USER_RESET ''user reset'' now mns))"

definition fw_loop_exit :: "ffmpeg_worker \<Rightarrow> datetime \<Rightarrow> int \<Rightarrow> ffmpeg_worker" where
  "fw_loop_exit w now mns =
     (let w1 = (if fw_state w \<notin> {W_STOPPING, W_IDLE}
                then fw_set_state w W_STOPPING W_STOP_REQUESTED ''stop requested'' now mns else w);
          w2 = (if fw_state w1 = W_STOPPING
                then fw_set_state w1 W_IDLE STOPPED ''stopped'' now mns else w1)
      in w2\<lparr>fw_ctl := Finished\<rparr>)"

section \<open>The protocol methods\<close>

definition lifecycle_done :: "ffmpeg_worker \<Rightarrow> bool" where
  "lifecycle_done w \<longleftrightarrow> fw_ctl w \<in> {NotStarted, Finished, Crashed, Cancelled}"

definition fw_start :: "ffmpeg_worker \<Rightarrow> datetime \<Rightarrow> ffmpeg_worker" where
  "fw_start w now =
     (if \<not> lifecycle_done w then w
      else w\<lparr>fw_stop_requested := False, fw_user_reset_event := False, fw_started_at := Some now,
             fw_last_progress := None, fw_ctl := Launched\<rparr>)"

definition fw_user_reset :: "ffmpeg_worker \<Rightarrow> ffmpeg_worker" where
  "fw_user_reset w =
     (if fw_state w \<noteq> W_FAILED_OPEN then w
      else w\<lparr>fw_breaker := breaker_reset (fw_breaker w), fw_attempt := 0, fw_user_reset_event := True\<rparr>)"

text \<open>The steps of \<^verbatim>\<open>stop\<close>: the request (with SIGTERM, then SIGKILL, to a live child, whose exit is
  an input of its own), waking a waiting lifecycle, cancelling one that does not wind down, and
  closing the channel. \<open>Worker_Stop\<close> puts them together.\<close>

definition fw_stop_request :: "ffmpeg_worker \<Rightarrow> ffmpeg_worker" where
  "fw_stop_request w = w\<lparr>fw_stop_requested := True\<rparr>"

definition fw_stop_wake :: "ffmpeg_worker \<Rightarrow> ffmpeg_worker" where
  "fw_stop_wake w = w\<lparr>fw_user_reset_event := True\<rparr>"

definition fw_stop_cancel :: "ffmpeg_worker \<Rightarrow> ffmpeg_worker" where
  "fw_stop_cancel w = (if lifecycle_done w then w else w\<lparr>fw_ctl := Cancelled\<rparr>)"

definition fw_stop_close :: "ffmpeg_worker \<Rightarrow> ffmpeg_worker" where
  "fw_stop_close w = w\<lparr>fw_channel_open := False, fw_send_open := False\<rparr>"

datatype fw_input =
  Resume rat | SpawnDone spawn_result | StdoutData bytes | StderrData bytes | StallTick
| ProcessExit int | UserReset | StopRequest | StopWake | StopCancel | StopClose | ReceiverGone

text \<open>One step. \<open>Resume\<close> lets the suspended coroutine go on where it can.\<close>

definition fw_resume :: "ffmpeg_worker \<Rightarrow> rat \<Rightarrow> datetime \<Rightarrow> int \<Rightarrow> ffmpeg_worker option" where
  "fw_resume w r now mns =
     (case fw_ctl w of
        Launched \<Rightarrow>
          (if \<not> fw_send_open w then Some (w\<lparr>fw_last_event_at := now, fw_ctl := Crashed\<rparr>)
           else Some (fw_loop_top (fw_set_state w W_STARTING W_START ''initial start'' now mns)))
      | AfterRun \<Rightarrow> Some (fw_after_run w r now mns)
      | WaitReset \<Rightarrow> (if fw_user_reset_event w then Some (fw_leave_failed_open w now mns) else None)
      | InBackoff wake \<Rightarrow>
          (if fw_stop_requested w \<or> wake \<le> now then Some (fw_loop_top w) else None)
      | LoopExit \<Rightarrow> Some (fw_loop_exit w now mns)
      | _ \<Rightarrow> None)"

definition fw_step :: "ffmpeg_worker \<Rightarrow> fw_input \<Rightarrow> datetime \<Rightarrow> int \<Rightarrow> ffmpeg_worker option" where
  "fw_step w i now mns =
     (case i of
        Resume r \<Rightarrow> (if 0 \<le> r \<and> r < 1 then fw_resume w r now mns else None)
      | SpawnDone res \<Rightarrow>
          (if fw_ctl w = Spawning then Some (fw_spawn_result w res now mns) else None)
      | StdoutData d \<Rightarrow> (if fw_ctl w = Pumping \<and> d \<noteq> [] then Some (fw_stdout_chunk w d now mns) else None)
      | StderrData d \<Rightarrow> (if fw_ctl w = Pumping then fw_stderr_chunk w d else None)
      | StallTick \<Rightarrow> (if fw_ctl w = Pumping \<and> fw_stall_armed w then Some (fw_stall_tick w now mns) else None)
      | ProcessExit c \<Rightarrow> (if fw_ctl w = Pumping then Some (fw_process_exit w c now mns) else None)
      | UserReset \<Rightarrow> Some (fw_user_reset w)
      | StopRequest \<Rightarrow> Some (fw_stop_request w)
      | StopWake \<Rightarrow> (if fw_stop_requested w then Some (fw_stop_wake w) else None)
      | StopCancel \<Rightarrow> (if fw_stop_requested w then Some (fw_stop_cancel w) else None)
      | StopClose \<Rightarrow> (if fw_stop_requested w \<and> lifecycle_done w then Some (fw_stop_close w) else None)
      | ReceiverGone \<Rightarrow> Some (w\<lparr>fw_channel_open := False\<rparr>))"

section \<open>Runs\<close>

text \<open>A worker with the clock of its last step; clocks do not go back.\<close>

type_synonym fw_timed_input = "fw_input \<times> datetime \<times> int"

definition fw_timed :: "ffmpeg_worker \<times> datetime \<Rightarrow> fw_timed_input \<Rightarrow> (ffmpeg_worker \<times> datetime) option" where
  "fw_timed s i = (case s of (w, clk) \<Rightarrow> case i of (inp, now, mns) \<Rightarrow>
     if now < clk then None
     else (case fw_step w inp now mns of None \<Rightarrow> None | Some w' \<Rightarrow> Some (w', now)))"

fun fw_run :: "ffmpeg_worker \<times> datetime \<Rightarrow> fw_timed_input list \<Rightarrow> (ffmpeg_worker \<times> datetime) option" where
  "fw_run s [] = Some s"
| "fw_run s (i # is) = (case fw_timed s i of None \<Rightarrow> None | Some t \<Rightarrow> fw_run t is)"

interpretation fwm: step_machine fw_timed fw_run
  by unfold_locales auto

lemma fw_timed_Some:
  "fw_timed (w, clk) (i, now, mns) = Some (w', t) \<longleftrightarrow> clk \<le> now \<and> t = now \<and> fw_step w i now mns = Some w'"
  by (auto simp: fw_timed_def split: option.splits)

section \<open>The event stream is a run of the worker machine\<close>

text \<open>Replaying the state events from a state: each must start where the last one ended and be a
  transition of the machine.\<close>

definition worker_edge :: "worker_state \<Rightarrow> worker_state \<Rightarrow> bool" where
  "worker_edge s t \<longleftrightarrow> (\<exists>a v. worker_transition s a v = Inr t)"

fun replay :: "worker_state \<Rightarrow> worker_event list \<Rightarrow> worker_state option" where
  "replay s [] = Some s"
| "replay s (ev # evs) =
     (case we_payload ev of
        StateEvent n p _ \<Rightarrow> if p = s \<and> worker_edge s n then replay n evs else None
      | _ \<Rightarrow> replay s evs)"

lemma replay_append:
  "replay s (xs @ ys) = (case replay s xs of None \<Rightarrow> None | Some t \<Rightarrow> replay t ys)"
  by (induction s xs rule: replay.induct) (auto split: worker_payload.split)

text \<open>Which states the machine can be in at each suspension point.\<close>

fun fw_ctl_ok :: "lifecycle_point \<Rightarrow> worker_state \<Rightarrow> bool" where
  "fw_ctl_ok NotStarted s = (s = W_IDLE)"
| "fw_ctl_ok Launched s = (s = W_IDLE)"
| "fw_ctl_ok Spawning s = (s = W_STARTING \<or> s = W_RECONNECTING)"
| "fw_ctl_ok Pumping s = (s = W_STARTING \<or> s = W_RUNNING \<or> s = W_RECONNECTING)"
| "fw_ctl_ok AfterRun s = (s = W_STARTING \<or> s = W_RUNNING \<or> s = W_RECONNECTING)"
| "fw_ctl_ok WaitReset s = (s = W_FAILED_OPEN)"
| "fw_ctl_ok (InBackoff _) s = (s = W_RECONNECTING)"
| "fw_ctl_ok LoopExit s = (s \<noteq> W_IDLE \<and> s \<noteq> W_STOPPING)"
| "fw_ctl_ok Finished s = (s = W_IDLE)"
| "fw_ctl_ok Crashed s = (s = W_RECONNECTING)"
| "fw_ctl_ok Cancelled s = (s \<noteq> W_STOPPING)"

fun ctl_done :: "lifecycle_point \<Rightarrow> bool" where
  "ctl_done NotStarted = True"
| "ctl_done Finished = True"
| "ctl_done Crashed = True"
| "ctl_done Cancelled = True"
| "ctl_done _ = False"

lemma lifecycle_done_ctl: "lifecycle_done w = ctl_done (fw_ctl w)"
  by (cases "fw_ctl w") (simp_all add: lifecycle_done_def)

definition fw_ok :: "ffmpeg_worker \<Rightarrow> bool" where
  "fw_ok w \<longleftrightarrow> fw_ctl_ok (fw_ctl w) (fw_state w) \<and> fw_warnings w = [] \<and>
     (fw_channel_open w \<longrightarrow> replay W_IDLE (fw_events w) = Some (fw_state w)) \<and>
     (\<not> fw_send_open w \<longrightarrow> ctl_done (fw_ctl w)) \<and>
     (fw_ctl w = LoopExit \<or> fw_ctl w = Cancelled \<longrightarrow> fw_stop_requested w) \<and>
     (fw_process w \<noteq> None \<longrightarrow> fw_ctl w = Pumping \<or> (fw_ctl w = Cancelled \<and> fw_state w \<noteq> W_FAILED_OPEN)) \<and>
     length (fw_log_ring w) \<le> LOG_RING_LINES"

lemma fw_set_state_legal:
  "worker_transition (fw_state w) ac None = Inr new \<Longrightarrow>
    fw_set_state w new ac c now mns = (fw_emit w (StateEvent new (fw_state w) c) K_STATE now mns)\<lparr>fw_state := new\<rparr>"
  by (simp add: fw_set_state_def fw_emit_state_change_def Let_def)

lemma fw_emit_fields [simp]:
  "fw_state (fw_emit w p k now mns) = fw_state w" "fw_ctl (fw_emit w p k now mns) = fw_ctl w"
  "fw_warnings (fw_emit w p k now mns) = fw_warnings w"
  "fw_channel_open (fw_emit w p k now mns) = fw_channel_open w"
  "fw_send_open (fw_emit w p k now mns) = fw_send_open w"
  "fw_stop_requested (fw_emit w p k now mns) = fw_stop_requested w"
  "fw_process (fw_emit w p k now mns) = fw_process w" "fw_log_ring (fw_emit w p k now mns) = fw_log_ring w"
  "fw_breaker (fw_emit w p k now mns) = fw_breaker w" "fw_attempt (fw_emit w p k now mns) = fw_attempt w"
  "fw_user_reset_event (fw_emit w p k now mns) = fw_user_reset_event w"
  by (simp_all add: fw_emit_def Let_def)

lemma replay_emit:
  "fw_channel_open w \<Longrightarrow> replay W_IDLE (fw_events (fw_emit w p k now mns)) =
    (case replay W_IDLE (fw_events w) of None \<Rightarrow> None
     | Some s \<Rightarrow> (case p of StateEvent n q _ \<Rightarrow> if q = s \<and> worker_edge s n then Some n else None | _ \<Rightarrow> Some s))"
  by (cases p) (simp_all add: fw_emit_def replay_append Let_def split: option.split)

text \<open>What one state change does to the invariant's parts.\<close>

lemma fw_change_replay:
  assumes "fw_channel_open w \<longrightarrow> replay W_IDLE (fw_events w) = Some (fw_state w)"
    and "worker_edge (fw_state w) new"
  shows "fw_channel_open w \<longrightarrow>
    replay W_IDLE (fw_events (fw_emit w (StateEvent new (fw_state w) c) K_STATE now mns)) = Some new"
  using assms by (simp add: replay_emit)

lemma worker_edges [simp]:
  "worker_edge W_IDLE W_STARTING" "worker_edge W_STARTING W_RUNNING" "worker_edge W_STARTING W_RECONNECTING"
  "worker_edge W_STARTING W_STOPPING" "worker_edge W_RUNNING W_RECONNECTING" "worker_edge W_RUNNING W_STOPPING"
  "worker_edge W_RECONNECTING W_RUNNING" "worker_edge W_RECONNECTING W_STOPPING"
  "worker_edge W_RECONNECTING W_FAILED_OPEN" "worker_edge W_STOPPING W_IDLE"
  "worker_edge W_FAILED_OPEN W_STARTING" "worker_edge W_FAILED_OPEN W_STOPPING"
proof -
  have "worker_transition W_RECONNECTING RECONNECT (Some OPEN) = Inr W_FAILED_OPEN" by simp
  then show "worker_edge W_RECONNECTING W_FAILED_OPEN" unfolding worker_edge_def by blast
  show "worker_edge W_IDLE W_STARTING" "worker_edge W_STARTING W_RUNNING" "worker_edge W_STARTING W_RECONNECTING"
    "worker_edge W_STARTING W_STOPPING" "worker_edge W_RUNNING W_RECONNECTING" "worker_edge W_RUNNING W_STOPPING"
    "worker_edge W_RECONNECTING W_RUNNING" "worker_edge W_RECONNECTING W_STOPPING" "worker_edge W_STOPPING W_IDLE"
    "worker_edge W_FAILED_OPEN W_STARTING" "worker_edge W_FAILED_OPEN W_STOPPING"
    unfolding worker_edge_def
    by (rule exI [of _ W_START] exI [of _ PROCESS_HEALTHY] exI [of _ PROCESS_EXITED]
        exI [of _ W_STOP_REQUESTED] exI [of _ STOPPED] exI [of _ USER_RESET], simp)+
qed

lemma fw_set_state_ok:
  assumes "worker_transition (fw_state w) ac None = Inr new" "worker_edge (fw_state w) new"
    and "fw_channel_open w \<longrightarrow> replay W_IDLE (fw_events w) = Some (fw_state w)"
  shows "fw_state (fw_set_state w new ac c now mns) = new"
    "fw_warnings (fw_set_state w new ac c now mns) = fw_warnings w"
    "fw_ctl (fw_set_state w new ac c now mns) = fw_ctl w"
    "fw_process (fw_set_state w new ac c now mns) = fw_process w"
    "fw_log_ring (fw_set_state w new ac c now mns) = fw_log_ring w"
    "fw_stop_requested (fw_set_state w new ac c now mns) = fw_stop_requested w"
    "fw_breaker (fw_set_state w new ac c now mns) = fw_breaker w"
    "fw_attempt (fw_set_state w new ac c now mns) = fw_attempt w"
    "fw_channel_open (fw_set_state w new ac c now mns) = fw_channel_open w"
    "fw_send_open (fw_set_state w new ac c now mns) = fw_send_open w"
    "fw_channel_open w \<longrightarrow> replay W_IDLE (fw_events (fw_set_state w new ac c now mns)) = Some new"
  using fw_change_replay [OF assms(3,2)] by (simp_all add: fw_set_state_legal [OF assms(1)])

lemma fw_emit_other_ok:
  "(case p of StateEvent _ _ _ \<Rightarrow> False | _ \<Rightarrow> True) \<Longrightarrow> fw_ok w \<Longrightarrow> fw_ok (fw_emit w p k now mns)"
  by (auto simp: fw_ok_def replay_emit split: worker_payload.splits)

lemma fw_ok_frame [simp]:
  "fw_ok (w\<lparr>fw_last_error := e\<rparr>) = fw_ok w" "fw_ok (w\<lparr>fw_parser := pp\<rparr>) = fw_ok w"
  "fw_ok (w\<lparr>fw_breaker := b\<rparr>) = fw_ok w" "fw_ok (w\<lparr>fw_attempt := a\<rparr>) = fw_ok w"
  "fw_ok (w\<lparr>fw_last_progress_at_ns := n\<rparr>) = fw_ok w" "fw_ok (w\<lparr>fw_last_progress := lp\<rparr>) = fw_ok w"
  "fw_ok (w\<lparr>fw_stall_armed := sa\<rparr>) = fw_ok w" "fw_ok (w\<lparr>fw_redaction := rs\<rparr>) = fw_ok w"
  "fw_ok (w\<lparr>fw_user_reset_event := u\<rparr>) = fw_ok w" "fw_ok (w\<lparr>fw_spawn_at_ns := n\<rparr>) = fw_ok w"
  by (simp_all add: fw_ok_def)

lemma fw_set_state_keeps_ok:
  assumes "fw_ok w" "worker_transition (fw_state w) ac None = Inr new" "worker_edge (fw_state w) new"
    "fw_ctl_ok (fw_ctl w) new" "new = W_FAILED_OPEN \<longrightarrow> fw_process w = None"
  shows "fw_ok (fw_set_state w new ac c now mns)"
proof -
  have "fw_channel_open w \<longrightarrow> replay W_IDLE (fw_events w) = Some (fw_state w)"
    using assms(1) by (simp add: fw_ok_def)
  from fw_set_state_ok [OF assms(2,3) this, of c now mns] show ?thesis
    using assms by (auto simp: fw_ok_def)
qed

lemma fw_on_frame_ok:
  assumes "fw_ok w" "fw_ctl w = Pumping"
  shows "fw_ok (fw_on_frame now mns w f) \<and> fw_ctl (fw_on_frame now mns w f) = Pumping"
proof -
  have keep: "fw_ok (fw_emit_progress v f now mns) \<and> fw_ctl (fw_emit_progress v f now mns) = Pumping"
    if "fw_ok v" "fw_ctl v = Pumping" for v
    using that by (simp add: fw_emit_progress_def fw_emit_other_ok)
  let ?w1 = "w\<lparr>fw_last_progress_at_ns := mns\<rparr>"
  have set: "fw_ok (fw_set_state ?w1 W_RUNNING PROCESS_HEALTHY c now mns) \<and>
      fw_ctl (fw_set_state ?w1 W_RUNNING PROCESS_HEALTHY c now mns) = Pumping"
    if "fw_state w = W_STARTING \<or> fw_state w = W_RECONNECTING" for c
  proof -
    have t: "worker_transition (fw_state ?w1) PROCESS_HEALTHY None = Inr W_RUNNING"
      using that by auto
    have e: "worker_edge (fw_state ?w1) W_RUNNING" using that by auto
    have "fw_ok ?w1" using assms by simp
    then show ?thesis
      using fw_set_state_keeps_ok [OF _ t e, of c now mns] assms(2)
        fw_set_state_legal [OF t, of c now mns] by simp
  qed
  show ?thesis
    using assms set unfolding fw_on_frame_def Let_def by (auto intro!: keep)
qed

lemma fw_frames_ok:
  "fw_ok w \<Longrightarrow> fw_ctl w = Pumping \<Longrightarrow> fw_ok (foldl (fw_on_frame now mns) w fs)"
  by (induction fs arbitrary: w) (simp_all add: fw_on_frame_ok)

lemma fw_stdout_chunk_ok:
  assumes "fw_ok w" "fw_ctl w = Pumping"
  shows "fw_ok (fw_stdout_chunk w d now mns)"
proof -
  have "fw_ok (fw_emit_error (w\<lparr>fw_last_error := x\<rparr>) msg False now mns)" for x msg
    using assms by (simp add: fw_emit_error_def fw_emit_other_ok)
  then show ?thesis using assms fw_frames_ok
    by (auto simp: fw_stdout_chunk_def Let_def split: prod.split option.split)
qed

lemma fw_consume_lines_ok: "fw_ok w \<Longrightarrow> fw_ok (foldl fw_consume_stderr_line w ls)"
proof (induction ls arbitrary: w)
  case (Cons l ls)
  have "fw_ok (fw_consume_stderr_line w l)"
    using Cons.prems by (simp add: fw_consume_stderr_line_def fw_ok_def)
  then show ?case using Cons.IH by simp
qed simp

lemma fw_stderr_chunk_ok: "fw_ok w \<Longrightarrow> fw_stderr_chunk w d = Some w' \<Longrightarrow> fw_ok w'"
  by (auto simp: fw_stderr_chunk_def fw_consume_lines_ok split: if_splits prod.splits option.splits)

lemma fw_stall_tick_ok: "fw_ok w \<Longrightarrow> fw_ok (fw_stall_tick w now mns)"
  by (auto simp: fw_stall_tick_def Let_def fw_emit_other_ok split: option.split)

lemma fw_spawn_result_ok:
  assumes "fw_ok w" "fw_ctl w = Spawning"
  shows "fw_ok (fw_spawn_result w r now mns)"
proof (cases r)
  case (Spawned pid)
  then show ?thesis using assms by (auto simp: fw_spawn_result_def fw_ok_def)
next
  case (SpawnFailed exc)
  have "fw_ok (fw_emit_error (w\<lparr>fw_last_error := x\<rparr>) msg False now mns)" for x msg
    using assms by (simp add: fw_emit_error_def fw_emit_other_ok)
  then show ?thesis using assms SpawnFailed
    by (auto simp: fw_spawn_result_def fw_ok_def fw_emit_error_def Let_def)
qed

lemma fw_process_exit_ok:
  assumes "fw_ok w" "fw_ctl w = Pumping"
  shows "fw_ok (fw_process_exit w c now mns)"
proof -
  have "fw_ok (fw_emit w (ExitEvent x y z) K_EXITED now mns)" for x y z
    using assms by (simp add: fw_emit_other_ok)
  then show ?thesis using assms by (auto simp: fw_process_exit_def fw_ok_def Let_def)
qed

lemma fw_note_failure_ok:
  assumes "fw_ok w" "fw_ctl w = AfterRun"
  shows "fw_ok (fw_note_failure w now mns)" "fw_state (fw_note_failure w now mns) = W_RECONNECTING"
    "fw_ctl (fw_note_failure w now mns) = AfterRun"
    "fw_stop_requested (fw_note_failure w now mns) = fw_stop_requested w"
    "fw_breaker (fw_note_failure w now mns) = fw_breaker w"
    "fw_attempt (fw_note_failure w now mns) = fw_attempt w"
proof -
  have set: "fw_ok (fw_set_state w W_RECONNECTING PROCESS_EXITED c now mns) \<and>
      fw_state (fw_set_state w W_RECONNECTING PROCESS_EXITED c now mns) = W_RECONNECTING \<and>
      fw_ctl (fw_set_state w W_RECONNECTING PROCESS_EXITED c now mns) = AfterRun \<and>
      fw_stop_requested (fw_set_state w W_RECONNECTING PROCESS_EXITED c now mns) = fw_stop_requested w \<and>
      fw_breaker (fw_set_state w W_RECONNECTING PROCESS_EXITED c now mns) = fw_breaker w \<and>
      fw_attempt (fw_set_state w W_RECONNECTING PROCESS_EXITED c now mns) = fw_attempt w"
    if "fw_state w = W_STARTING \<or> fw_state w = W_RUNNING" for c
  proof -
    have t: "worker_transition (fw_state w) PROCESS_EXITED None = Inr W_RECONNECTING" using that by auto
    have e: "worker_edge (fw_state w) W_RECONNECTING" using that by auto
    have o: "fw_channel_open w \<longrightarrow> replay W_IDLE (fw_events w) = Some (fw_state w)"
      using assms(1) by (simp add: fw_ok_def)
    show ?thesis
      using fw_set_state_keeps_ok [OF assms(1) t e] fw_set_state_ok [OF t e o] assms(2) by simp
  qed
  have "fw_state w = W_STARTING \<or> fw_state w = W_RUNNING \<or> fw_state w = W_RECONNECTING"
    using assms by (simp add: fw_ok_def)
  then have "fw_ok (fw_note_failure w now mns) \<and> fw_state (fw_note_failure w now mns) = W_RECONNECTING \<and>
      fw_ctl (fw_note_failure w now mns) = AfterRun \<and>
      fw_stop_requested (fw_note_failure w now mns) = fw_stop_requested w \<and>
      fw_breaker (fw_note_failure w now mns) = fw_breaker w \<and>
      fw_attempt (fw_note_failure w now mns) = fw_attempt w"
  proof (elim disjE)
    assume "fw_state w = W_RECONNECTING"
    then show ?thesis using assms by (simp add: fw_note_failure_def)
  next
    assume "fw_state w = W_STARTING"
    then show ?thesis using set [of "''process exited during startup''"]
      unfolding fw_note_failure_def by (simp only: if_True simp_thms)
  next
    assume s: "fw_state w = W_RUNNING"
    then have "fw_note_failure w now mns = fw_set_state w W_RECONNECTING PROCESS_EXITED ''process exited'' now mns"
      by (simp add: fw_note_failure_def)
    then show ?thesis using set [of "''process exited''"] s by (simp only: simp_thms)
  qed
  then show "fw_ok (fw_note_failure w now mns)" "fw_state (fw_note_failure w now mns) = W_RECONNECTING"
    "fw_ctl (fw_note_failure w now mns) = AfterRun"
    "fw_stop_requested (fw_note_failure w now mns) = fw_stop_requested w"
    "fw_breaker (fw_note_failure w now mns) = fw_breaker w"
    "fw_attempt (fw_note_failure w now mns) = fw_attempt w" by simp_all
qed

lemma fw_apply_verdict_cases:
  assumes "fw_state w = W_RECONNECTING"
  shows "fw_apply_reconnect_verdict w CLOSED now mns = w"
    "\<exists>c. fw_apply_reconnect_verdict w OPEN now mns =
      (fw_emit (w\<lparr>fw_breaker := evict_old (fw_breaker w) now\<rparr>) (StateEvent W_FAILED_OPEN W_RECONNECTING c) K_STATE now mns)
        \<lparr>fw_state := W_FAILED_OPEN\<rparr>"
  using assms by (auto simp: fw_apply_reconnect_verdict_def fw_emit_state_change_def failure_count_in_window_def Let_def)

lemma fw_verdict_ok:
  assumes "fw_ok u" "fw_ctl u = AfterRun" "fw_state u = W_RECONNECTING"
  shows "fw_ok (fw_after_verdict (fw_apply_reconnect_verdict u verdict now mns) r now)"
proof (cases verdict)
  case CLOSED
  then show ?thesis using fw_apply_verdict_cases(1) [OF assms(3)] assms
    by (auto simp: fw_after_verdict_def fw_ok_def split: sum.split)
next
  case OPEN
  obtain c where "fw_apply_reconnect_verdict u OPEN now mns = (fw_emit (u\<lparr>fw_breaker := evict_old (fw_breaker u) now\<rparr>)
      (StateEvent W_FAILED_OPEN W_RECONNECTING c) K_STATE now mns)\<lparr>fw_state := W_FAILED_OPEN\<rparr>"
    using fw_apply_verdict_cases(2) [OF assms(3)] by blast
  then show ?thesis using assms OPEN by (auto simp: fw_after_verdict_def fw_ok_def replay_emit)
qed

lemma fw_after_run_ok:
  assumes "fw_ok w" "fw_ctl w = AfterRun"
  shows "fw_ok (fw_after_run w r now mns)"
proof (cases "fw_stop_requested w")
  case True
  then show ?thesis using assms by (auto simp: fw_after_run_def fw_ok_def)
next
  case False
  obtain b verdict where v: "should_open (record_failure (fw_breaker w) now) now = (b, verdict)"
    by (cases "should_open (record_failure (fw_breaker w) now) now")
  obtain err where err: "fw_after_run w r now mns = fw_after_verdict
      (fw_apply_reconnect_verdict (fw_note_failure (w\<lparr>fw_breaker := b, fw_last_error := Some err\<rparr>) now mns)
        verdict now mns) r now"
    using False v by (simp add: fw_after_run_def Let_def)
  let ?w1 = "w\<lparr>fw_breaker := b, fw_last_error := Some err\<rparr>"
  have "fw_ok ?w1" "fw_ctl ?w1 = AfterRun" using assms by simp_all
  from fw_note_failure_ok [OF this, of now mns] show ?thesis
    unfolding err using fw_verdict_ok by blast
qed

lemma fw_leave_failed_open_ok:
  assumes "fw_ok w" "fw_ctl w = WaitReset"
  shows "fw_ok (fw_leave_failed_open w now mns)"
proof (cases "fw_stop_requested w")
  case False
  have st: "fw_state w = W_FAILED_OPEN" using assms by (simp add: fw_ok_def)
  then have t: "worker_transition (fw_state w) USER_RESET None = Inr W_STARTING" by simp
  have "fw_channel_open w \<longrightarrow> replay W_IDLE (fw_events w) = Some (fw_state w)"
    using assms by (simp add: fw_ok_def)
  from fw_set_state_ok [OF t _ this, of "''user reset''" now mns] show ?thesis
    using False assms st by (auto simp: fw_leave_failed_open_def fw_loop_top_def fw_ok_def)
qed (use assms in \<open>auto simp: fw_leave_failed_open_def fw_ok_def\<close>)

lemma fw_loop_exit_ok:
  assumes "fw_ok w" "fw_ctl w = LoopExit"
  shows "fw_ok (fw_loop_exit w now mns)"
proof -
  have st: "fw_state w \<noteq> W_IDLE" "fw_state w \<noteq> W_STOPPING" using assms by (simp_all add: fw_ok_def)
  then have t: "worker_transition (fw_state w) W_STOP_REQUESTED None = Inr W_STOPPING"
    and e: "worker_edge (fw_state w) W_STOPPING"
    by (cases "fw_state w"; simp)+
  let ?w1 = "fw_set_state w W_STOPPING W_STOP_REQUESTED ''stop requested'' now mns"
  have o: "fw_channel_open w \<longrightarrow> replay W_IDLE (fw_events w) = Some (fw_state w)"
    using assms by (simp add: fw_ok_def)
  note s1 = fw_set_state_ok [OF t e o, of "''stop requested''" now mns]
  have t2: "worker_transition (fw_state ?w1) STOPPED None = Inr W_IDLE" using s1 by simp
  have o2: "fw_channel_open ?w1 \<longrightarrow> replay W_IDLE (fw_events ?w1) = Some (fw_state ?w1)" using s1 by simp
  have e2: "worker_edge (fw_state ?w1) W_IDLE" using s1 by simp
  note s2 = fw_set_state_ok [OF t2 e2 o2, of "''stopped''" now mns]
  show ?thesis using st s1 s2 assms by (auto simp: fw_loop_exit_def Let_def fw_ok_def)
qed

lemma fw_resume_ok:
  assumes "fw_ok w" "fw_resume w r now mns = Some w'"
  shows "fw_ok w'"
proof (cases "fw_ctl w")
  case Launched
  have o: "fw_channel_open w \<longrightarrow> replay W_IDLE (fw_events w) = Some (fw_state w)"
    using assms by (simp add: fw_ok_def)
  have st: "fw_state w = W_IDLE" using assms Launched by (simp add: fw_ok_def)
  then have t: "worker_transition (fw_state w) W_START None = Inr W_STARTING" by simp
  from fw_set_state_ok [OF t _ o, of "''initial start''" now mns] show ?thesis
    using assms Launched st by (auto simp: fw_resume_def fw_loop_top_def fw_ok_def)
next
  case AfterRun
  then show ?thesis using assms fw_after_run_ok by (auto simp: fw_resume_def)
next
  case WaitReset
  then show ?thesis using assms fw_leave_failed_open_ok by (auto simp: fw_resume_def split: if_splits)
next
  case LoopExit
  then show ?thesis using assms fw_loop_exit_ok by (auto simp: fw_resume_def)
qed (use assms in \<open>auto simp: fw_resume_def fw_loop_top_def fw_ok_def split: if_splits\<close>)

lemma fw_step_ok [inv_intros]:
  assumes "fw_ok w" "fw_step w i now mns = Some w'"
  shows "fw_ok w'"
proof -
  have reset: "fw_ok (fw_user_reset w)" using assms(1) by (simp add: fw_user_reset_def)
  have stop: "fw_ok (fw_stop_request w)" "fw_ok (fw_stop_wake w)"
    "lifecycle_done w \<Longrightarrow> fw_ok (fw_stop_close w)" "fw_ok (w\<lparr>fw_channel_open := False\<rparr>)"
    using assms(1) by (simp_all add: fw_stop_request_def fw_stop_close_def fw_stop_wake_def fw_ok_def lifecycle_done_ctl)
  have cancel: "fw_stop_requested w \<Longrightarrow> fw_ok (fw_stop_cancel w)"
    using assms(1) by (cases "fw_ctl w") (auto simp: fw_stop_cancel_def lifecycle_done_ctl fw_ok_def)
  note step = assms(2) [unfolded fw_step_def]
  show ?thesis
  proof (cases i)
    case (Resume r)
    then show ?thesis using step fw_resume_ok [OF assms(1)] by (simp split: if_splits)
  next
    case (SpawnDone res)
    then show ?thesis using step fw_spawn_result_ok [OF assms(1)] by (auto split: if_splits)
  next
    case (StdoutData d)
    then show ?thesis using step fw_stdout_chunk_ok [OF assms(1)] by (auto split: if_splits)
  next
    case (StderrData d)
    then show ?thesis using step fw_stderr_chunk_ok [OF assms(1)] by (auto split: if_splits)
  next
    case StallTick
    then show ?thesis using step fw_stall_tick_ok [OF assms(1)] by (auto split: if_splits)
  next
    case (ProcessExit c)
    then show ?thesis using step fw_process_exit_ok [OF assms(1)] by (auto split: if_splits)
  qed (use step reset stop cancel in \<open>auto split: if_splits\<close>)
qed

lemma fw_new_ok:
  "new_ffmpeg_worker spec pol t0 m0 = Inr w \<Longrightarrow> fw_ok (fw_start w t0)"
  by (auto simp: new_ffmpeg_worker_def fw_ok_def fw_start_def lifecycle_done_def LOG_RING_LINES_def
      split: sum.splits)

lemma fw_run_ok:
  assumes "fw_run (w, clk) is = Some (w', t)" "fw_ok w"
  shows "fw_ok w'"
proof -
  have "(\<lambda>s. fw_ok (fst s)) (w', t)"
    by (rule fwm.run_invariant [OF assms(1)])
      (use assms(2) fw_step_ok in \<open>auto simp: fw_timed_Some split: prod.splits\<close>)
  then show ?thesis by simp
qed

text \<open>After \<^verbatim>\<open>stop\<close> has closed the sending end no step sends an event.\<close>

lemma closed_send_is_quiet:
  assumes "fw_ok w" "\<not> fw_send_open w" "fw_step w i now mns = Some w'"
  shows "fw_events w' = fw_events w \<and> fw_last_event_at w' = fw_last_event_at w \<and> \<not> fw_send_open w' \<and> lifecycle_done w'"
proof -
  have "ctl_done (fw_ctl w)" using assms(1,2) by (simp add: fw_ok_def)
  then show ?thesis using assms(2,3) unfolding lifecycle_done_ctl
    by (cases i; cases "fw_ctl w") (auto simp: fw_step_def fw_resume_def lifecycle_done_ctl fw_user_reset_def fw_stop_request_def
        fw_stop_wake_def fw_stop_cancel_def fw_stop_close_def split: if_splits)
qed

text \<open>C15: in every run of a started worker no transition is refused, the log
  ring stays within its bound, and while the channel is open the state events it has sent,
  replayed from IDLE, form a run of the worker machine that ends in the worker's state.\<close>

theorem worker_event_stream_legal:
  assumes "new_ffmpeg_worker spec pol t0 m0 = Inr w0" "fw_run (fw_start w0 t0, t0) is = Some (w, t)"
  shows "fw_warnings w = [] \<and> length (fw_recent_log_lines w) \<le> LOG_RING_LINES \<and>
    (fw_channel_open w \<longrightarrow> replay W_IDLE (fw_events w) = Some (fw_state w)) \<and>
    fw_ctl_ok (fw_ctl w) (fw_state w)"
  using fw_run_ok [OF assms(2) fw_new_ok [OF assms(1)]] by (simp add: fw_ok_def fw_recent_log_lines_def)

text \<open>A failed-open worker has no child process, and no spawn outcome is
  accepted until it leaves that state.\<close>

theorem failed_open_is_quiet:
  assumes "new_ffmpeg_worker spec pol t0 m0 = Inr w0" "fw_run (fw_start w0 t0, t0) is = Some (w, t)"
    and "fw_state w = W_FAILED_OPEN"
  shows "fw_pid w = None \<and> fw_step w (SpawnDone res) now mns = None \<and>
    (fw_stop_requested w \<or> fw_ctl w = WaitReset)"
proof -
  have ok: "fw_ok w" by (rule fw_run_ok [OF assms(2) fw_new_ok [OF assms(1)]])
  have "fw_ctl w = WaitReset \<or> fw_ctl w = LoopExit \<or> fw_ctl w = Cancelled"
    using ok assms(3) by (cases "fw_ctl w") (auto simp: fw_ok_def)
  then show ?thesis using ok assms(3) by (auto simp: fw_ok_def fw_pid_def fw_step_def)
qed

section \<open>Witnesses\<close>

definition one_strike :: breaker_policy where
  "one_strike = \<lparr>max_failures = 1, window = minutes 5, healthy_reset_after = seconds 60\<rparr>"

definition failing_inputs :: "fw_timed_input list" where
  "failing_inputs = [(Resume 0, 1, 1), (SpawnDone (SpawnFailed ''OSError''), 2, 2), (Resume 0, 3, 3)]"

lemma twitch_worker:
  "\<exists>w. new_ffmpeg_worker twitch_spec (Some one_strike) 0 0 = Inr w \<and>
    (\<exists>v. fw_run (fw_start w 0, 0) failing_inputs = Some (v, 3) \<and> fw_state v = W_FAILED_OPEN)"
  by (simp add: new_ffmpeg_worker_def new_sink_def twitch_spec_def fw_start_def lifecycle_done_def
      failing_inputs_def fw_timed_def fw_step_def fw_resume_def fw_loop_top_def fw_set_state_def fw_emit_state_change_def
      fw_spawn_result_def fw_emit_error_def fw_after_run_def fw_note_failure_def fw_apply_reconnect_verdict_def
      fw_after_verdict_def fw_emit_def Let_def should_open_def record_failure_def evict_old_def
      new_breaker_def one_strike_def failure_count_in_window_def)

theorem worker_event_stream_legal_witness:
  "\<exists>v :: ffmpeg_worker. fw_warnings v = [] \<and> fw_state v = W_FAILED_OPEN"
proof -
  obtain w v where w: "new_ffmpeg_worker twitch_spec (Some one_strike) 0 0 = Inr w"
    "fw_run (fw_start w 0, 0) failing_inputs = Some (v, 3)" "fw_state v = W_FAILED_OPEN"
    using twitch_worker by blast
  from worker_event_stream_legal [OF w(1,2)] w(3) show ?thesis by - (rule exI [of _ v], simp)
qed

theorem failed_open_is_quiet_witness:
  "\<exists>v. fw_state v = W_FAILED_OPEN \<and> fw_pid v = None"
proof -
  obtain w v where w: "new_ffmpeg_worker twitch_spec (Some one_strike) 0 0 = Inr w"
    "fw_run (fw_start w 0, 0) failing_inputs = Some (v, 3)" "fw_state v = W_FAILED_OPEN"
    using twitch_worker by blast
  from failed_open_is_quiet [OF w] w(3) show ?thesis by - (rule exI [of _ v], simp)
qed

section \<open>The breaker cannot open before the first progress frame\<close>

text \<open>With the default policy (30 failures in 5 minutes) the backoff spaces the failures of a worker
  that never delivers a frame so far apart that the window never holds 30 of them.\<close>

definition saw_progress :: "ffmpeg_worker \<Rightarrow> bool" where
  "saw_progress w \<longleftrightarrow> fw_last_progress w \<noteq> None"

definition spaced :: "datetime list \<Rightarrow> bool" where
  "spaced ts \<longleftrightarrow> (\<forall>i. 6 \<le> i \<and> Suc i < length ts \<longrightarrow> ts ! i + seconds 48 \<le> ts ! Suc i)"

definition failure_gap :: "int \<Rightarrow> timedelta" where
  "failure_gap attempt = 800000 * min 60 (2 ^ nat (attempt - 1))"

lemma spaced_drop: "spaced ts \<Longrightarrow> spaced (drop k ts)"
  unfolding spaced_def
proof (intro allI impI)
  fix i assume s: "\<forall>i. 6 \<le> i \<and> Suc i < length ts \<longrightarrow> ts ! i + seconds 48 \<le> ts ! Suc i"
    and i: "6 \<le> i \<and> Suc i < length (drop k ts)"
  from s i have "ts ! (k + i) + seconds 48 \<le> ts ! Suc (k + i)" by auto
  moreover have "k \<le> length ts" using i by auto
  ultimately show "drop k ts ! i + seconds 48 \<le> drop k ts ! Suc i" by simp
qed

lemma spaced_evict: "spaced ts \<Longrightarrow> spaced (evict_before c ts)"
proof -
  assume s: "spaced ts"
  have "evict_before c ts = dropWhile (\<lambda>t. t < c) ts" by (induction ts) auto
  then show ?thesis using spaced_drop [OF s] by (simp add: dropWhile_eq_drop)
qed

lemma spaced_snoc:
  assumes "spaced ts" "7 \<le> length ts \<Longrightarrow> last ts + seconds 48 \<le> t"
  shows "spaced (ts @ [t])"
  unfolding spaced_def
proof (intro allI impI)
  fix i assume i: "6 \<le> i \<and> Suc i < length (ts @ [t])"
  show "(ts @ [t]) ! i + seconds 48 \<le> (ts @ [t]) ! Suc i"
  proof (cases "Suc i < length ts")
    case True
    then show ?thesis using assms(1) i by (simp add: spaced_def nth_append)
  next
    case False
    then have "length ts = Suc i" "ts \<noteq> []" using i by auto
    then show ?thesis using assms(2) i by (simp add: nth_append last_conv_nth)
  qed
qed

lemma spaced_span: "spaced ts \<Longrightarrow> 6 + n < length ts \<Longrightarrow> ts ! 6 + seconds 48 * int n \<le> ts ! (6 + n)"
proof (induction n)
  case (Suc n)
  have "ts ! (6 + n) + seconds 48 \<le> ts ! Suc (6 + n)"
    using Suc.prems(1) [unfolded spaced_def, rule_format, of "6 + n"] Suc.prems(2) by simp
  then show ?case using Suc by (simp add: algebra_simps)
qed simp

lemma spaced_few:
  assumes "spaced ts" "\<forall>t\<in>set ts. now - minutes 5 \<le> t \<and> t \<le> now"
  shows "length ts < 30"
proof (rule ccontr)
  assume "\<not> length ts < 30"
  then have l: "6 + 23 < length ts" by simp
  have "now - minutes 5 \<le> ts ! 6" "ts ! (6 + 23) \<le> now"
    using assms(2) l by (simp_all add: nth_mem del: One_nat_def)
  then show False using spaced_span [OF assms(1) l] by simp
qed

lemma evict_before_ge: "t \<in> set (evict_before c ts) \<Longrightarrow> sorted ts \<Longrightarrow> c \<le> t"
  by (induction ts) (auto split: if_splits)

lemma evict_before_part:
  "set (evict_before c ts) \<subseteq> set ts \<and> length (evict_before c ts) \<le> length ts \<and>
    (evict_before c ts \<noteq> [] \<longrightarrow> last (evict_before c ts) = last ts)"
  by (induction ts) auto

lemma evict_again: "c \<le> now \<Longrightarrow> evict_before c (evict_before c ts @ [now]) = evict_before c ts @ [now]"
  by (induction ts) auto

text \<open>What the schedule guarantees between failures.\<close>

definition fw_sched :: "datetime \<Rightarrow> ffmpeg_worker \<Rightarrow> bool" where
  "fw_sched clk w \<longleftrightarrow>
     (let ts = failures (fw_breaker w)
      in policy (fw_breaker w) = default_breaker_policy \<and> sorted ts \<and> spaced ts \<and>
         (fw_ctl w \<noteq> Crashed \<longrightarrow> int (length ts) \<le> fw_attempt w) \<and> (\<forall>t\<in>set ts. t \<le> clk) \<and>
         (ts \<noteq> [] \<longrightarrow> (case fw_ctl w of
              InBackoff wake \<Rightarrow> last ts + failure_gap (fw_attempt w) \<le> wake
            | Launched \<Rightarrow> False
            | Spawning \<Rightarrow> last ts + failure_gap (fw_attempt w) \<le> clk
            | Pumping \<Rightarrow> last ts + failure_gap (fw_attempt w) \<le> clk
            | AfterRun \<Rightarrow> last ts + failure_gap (fw_attempt w) \<le> clk
            | _ \<Rightarrow> True)))"

definition fw_quiet :: "datetime \<Rightarrow> ffmpeg_worker \<Rightarrow> bool" where
  "fw_quiet clk w \<longleftrightarrow> saw_progress w \<or>
     (fw_state w \<noteq> W_FAILED_OPEN \<and> (fw_stop_requested w \<or> fw_sched clk w))"

lemma fw_sched_later: "fw_sched clk w \<Longrightarrow> clk \<le> now \<Longrightarrow> fw_sched now w"
  by (fastforce simp: fw_sched_def Let_def split: lifecycle_point.splits)

lemma failure_gap_48: "7 \<le> a \<Longrightarrow> failure_gap a = seconds 48"
proof -
  assume "7 \<le> a"
  then have "(2 :: int) ^ 6 \<le> 2 ^ nat (a - 1)" by (intro power_increasing) auto
  then show ?thesis by (simp add: failure_gap_def)
qed

text \<open>One failure on the schedule: the window stays below the limit and the schedule goes on.\<close>

lemma fw_sched_failure:
  assumes s: "fw_sched clk w" "fw_ctl w = AfterRun" "clk \<le> now"
    and b: "should_open (record_failure (fw_breaker w) now) now = (b, verdict)"
  shows "verdict = CLOSED \<and> policy b = default_breaker_policy \<and> sorted (failures b) \<and> spaced (failures b) \<and>
    failures b \<noteq> [] \<and> last (failures b) = now \<and> (\<forall>t\<in>set (failures b). t \<le> now) \<and>
    int (length (failures b)) \<le> fw_attempt w + 1"
proof -
  let ?ts = "failures (fw_breaker w)" and ?c = "now - minutes 5"
  let ?e = "evict_before ?c ?ts"
  have pol: "window (policy (fw_breaker w)) = minutes 5" "max_failures (policy (fw_breaker w)) = 30"
    using s(1) by (simp_all add: fw_sched_def Let_def default_breaker_policy_def)
  have fb: "failures b = ?e @ [now]" and pb: "policy b = policy (fw_breaker w)"
    and v: "verdict = (if 30 \<le> int (length (?e @ [now])) then OPEN else CLOSED)"
    using b pol evict_again [of ?c now ?ts]
    by (auto simp: should_open_def record_failure_def evict_old_def Let_def)
  have ts: "sorted ?ts" "spaced ?ts" "int (length ?ts) \<le> fw_attempt w" "\<forall>t\<in>set ?ts. t \<le> clk"
    and gap: "?ts \<noteq> [] \<longrightarrow> last ?ts + failure_gap (fw_attempt w) \<le> clk"
    using s(1,2) by (simp_all add: fw_sched_def Let_def)
  have sub: "set ?e \<subseteq> set ?ts" and len: "length ?e \<le> length ?ts"
    and lst: "?e \<noteq> [] \<Longrightarrow> last ?e = last ?ts"
    using evict_before_part [of ?c ?ts] by blast+
  have sp: "spaced (?e @ [now])"
  proof (rule spaced_snoc)
    show "spaced ?e" using ts(2) by (rule spaced_evict)
    assume "7 \<le> length ?e"
    then have "?e \<noteq> []" "7 \<le> fw_attempt w" using len ts(3) by auto
    then show "last ?e + seconds 48 \<le> now"
      using gap lst failure_gap_48 [of "fw_attempt w"] s(3) by (cases ?ts) auto
  qed
  have so: "sorted (?e @ [now])"
    using ts(1,4) sub s(3) cbw.evict_sorted [of ?ts now "minutes 5"] by (fastforce simp: sorted_append)
  have "\<forall>t\<in>set (?e @ [now]). ?c \<le> t \<and> t \<le> now"
    using evict_before_ge [OF _ ts(1)] sub ts(4) s(3) by fastforce
  then have "length (?e @ [now]) < 30" and le: "\<forall>t\<in>set (?e @ [now]). t \<le> now"
    using spaced_few [OF sp, of now] by blast+
  then show ?thesis using fb pb v sp so len ts(3) s(1) by (auto simp: fw_sched_def Let_def)
qed

lemma saw_emit [simp]:
  "saw_progress (fw_emit w p k now mns) = saw_progress w"
  by (simp add: saw_progress_def fw_emit_def Let_def)

lemma saw_frame [simp]:
  "saw_progress (w\<lparr>fw_last_error := e\<rparr>) = saw_progress w" "saw_progress (w\<lparr>fw_parser := pp\<rparr>) = saw_progress w"
  "saw_progress (w\<lparr>fw_breaker := b\<rparr>) = saw_progress w" "saw_progress (w\<lparr>fw_attempt := a\<rparr>) = saw_progress w"
  "saw_progress (w\<lparr>fw_last_progress_at_ns := n\<rparr>) = saw_progress w"
  "saw_progress (w\<lparr>fw_last_progress := Some lp\<rparr>)" "saw_progress (w\<lparr>fw_send_open := so\<rparr>) = saw_progress w"
  "saw_progress (w\<lparr>fw_stall_armed := sa\<rparr>) = saw_progress w" "saw_progress (w\<lparr>fw_redaction := rs\<rparr>) = saw_progress w"
  "saw_progress (w\<lparr>fw_user_reset_event := u\<rparr>) = saw_progress w" "saw_progress (w\<lparr>fw_ctl := c\<rparr>) = saw_progress w"
  "saw_progress (w\<lparr>fw_process := pr\<rparr>) = saw_progress w" "saw_progress (w\<lparr>fw_state := st\<rparr>) = saw_progress w"
  "saw_progress (w\<lparr>fw_stop_requested := sr\<rparr>) = saw_progress w" "saw_progress (w\<lparr>fw_warnings := ws\<rparr>) = saw_progress w"
  "saw_progress (w\<lparr>fw_channel_open := co\<rparr>) = saw_progress w" "saw_progress (w\<lparr>fw_log_ring := lr\<rparr>) = saw_progress w"
  "saw_progress (w\<lparr>fw_spawn_at_ns := sn\<rparr>) = saw_progress w"
  by (simp_all add: saw_progress_def)

lemma saw_set_state [simp]: "saw_progress (fw_set_state w new ac c now mns) = saw_progress w"
  by (simp add: fw_set_state_def fw_emit_state_change_def Let_def split: sum.split)

lemma set_state_frame [simp]:
  "fw_stop_requested (fw_set_state w new ac c now mns) = fw_stop_requested w"
  "fw_channel_open (fw_set_state w new ac c now mns) = fw_channel_open w"
  "fw_breaker (fw_set_state w new ac c now mns) = fw_breaker w"
  "fw_attempt (fw_set_state w new ac c now mns) = fw_attempt w"
  "fw_ctl (fw_set_state w new ac c now mns) = fw_ctl w"
  by (simp_all add: fw_set_state_def fw_emit_state_change_def Let_def split: sum.split)

lemma saw_verdict [simp]:
  "saw_progress (fw_apply_reconnect_verdict w v now mns) = saw_progress w"
  by (simp add: fw_apply_reconnect_verdict_def fw_emit_state_change_def Let_def split: sum.split prod.split)

lemma saw_after_verdict [simp]: "saw_progress (fw_after_verdict w r now) = saw_progress w"
  by (simp add: fw_after_verdict_def split: sum.split)

lemma saw_note_failure [simp]: "saw_progress (fw_note_failure w now mns) = saw_progress w"
  by (simp add: fw_note_failure_def)

lemma saw_after_run [simp]: "saw_progress (fw_after_run w r now mns) = saw_progress w"
  by (simp add: fw_after_run_def Let_def split: prod.split)

lemma on_frame_saw:
  "saw_progress (fw_on_frame now mns w f)"
  "fw_channel_open (fw_on_frame now mns w f) = fw_channel_open w"
  "fw_stop_requested (fw_on_frame now mns w f) = fw_stop_requested w"
  by (auto simp: fw_on_frame_def fw_emit_progress_def Let_def)

lemma on_frame_state:
  "fw_state w \<noteq> W_FAILED_OPEN \<Longrightarrow> fw_state (fw_on_frame now mns w f) \<noteq> W_FAILED_OPEN"
  by (simp add: fw_on_frame_def fw_emit_progress_def fw_set_state_def fw_emit_state_change_def Let_def)

lemma frames_saw:
  "saw_progress (foldl (fw_on_frame now mns) w fs) \<longleftrightarrow> saw_progress w \<or> fs \<noteq> []"
  "fw_stop_requested (foldl (fw_on_frame now mns) w fs) = fw_stop_requested w"
  by (induction fs arbitrary: w) (auto simp: on_frame_saw)

lemma frames_state:
  "fw_state w \<noteq> W_FAILED_OPEN \<Longrightarrow> fw_state (foldl (fw_on_frame now mns) w fs) \<noteq> W_FAILED_OPEN"
  by (induction fs arbitrary: w) (simp_all add: on_frame_state)

text \<open>The parts of a worker the schedule and the two flags look at.\<close>

lemma fw_quiet_cong:
  assumes "fw_quiet clk w" "clk \<le> now" "saw_progress w \<longrightarrow> saw_progress w'"
    "fw_state w' = fw_state w" "fw_stop_requested w \<longrightarrow> fw_stop_requested w'"
    "fw_breaker w' = fw_breaker w" "fw_attempt w' = fw_attempt w" "fw_ctl w' = fw_ctl w"
  shows "fw_quiet now w'"
proof -
  have "fw_sched now w' = fw_sched now w" using assms
    by (simp add: fw_sched_def split: lifecycle_point.split)
  then show ?thesis using assms fw_sched_later [of clk w now] by (auto simp: fw_quiet_def)
qed

lemma fw_quiet_moved:
  assumes "fw_quiet clk w" "clk \<le> now" "saw_progress w \<longrightarrow> saw_progress w'"
    "fw_state w' = fw_state w" "fw_stop_requested w \<longrightarrow> fw_stop_requested w'"
    "fw_breaker w' = fw_breaker w" "fw_attempt w' = fw_attempt w"
    "fw_ctl w \<in> {Spawning, Pumping}" "fw_ctl w' \<in> {Spawning, Pumping, AfterRun}"
  shows "fw_quiet now w'"
proof -
  have "fw_sched now w \<Longrightarrow> fw_sched now w'"
    using assms by (auto simp: fw_sched_def Let_def)
  then show ?thesis using assms fw_sched_later [of clk w now] by (auto simp: fw_quiet_def)
qed

lemma fw_quiet_stopped:
  "fw_quiet clk w \<Longrightarrow> saw_progress w \<longrightarrow> saw_progress w' \<Longrightarrow> fw_state w' \<noteq> W_FAILED_OPEN \<Longrightarrow>
    fw_stop_requested w' \<Longrightarrow> fw_quiet now w'"
  by (auto simp: fw_quiet_def)

lemma fw_quiet_after_run:
  assumes ok: "fw_ok w" "fw_ctl w = AfterRun" and q: "fw_quiet clk w" "clk \<le> now" and r: "0 \<le> r" "r < 1"
  shows "fw_quiet now (fw_after_run w r now mns)"
proof (cases "fw_stop_requested w \<or> saw_progress w")
  case True
  moreover have "fw_after_run w r now mns = w\<lparr>fw_ctl := LoopExit\<rparr>" if "fw_stop_requested w"
    using that by (simp add: fw_after_run_def)
  ultimately show ?thesis
    using q(1) by (auto simp: fw_quiet_def)
next
  case False
  then have s: "fw_sched clk w" and st: "fw_state w \<noteq> W_FAILED_OPEN" using q(1) by (auto simp: fw_quiet_def)
  obtain b verdict where v: "should_open (record_failure (fw_breaker w) now) now = (b, verdict)"
    by (cases "should_open (record_failure (fw_breaker w) now) now")
  note f = fw_sched_failure [OF s ok(2) q(2) v]
  obtain err where err: "fw_after_run w r now mns = fw_after_verdict
      (fw_apply_reconnect_verdict (fw_note_failure (w\<lparr>fw_breaker := b, fw_last_error := Some err\<rparr>) now mns)
        verdict now mns) r now"
    using False v by (simp add: fw_after_run_def Let_def)
  let ?w1 = "w\<lparr>fw_breaker := b, fw_last_error := Some err\<rparr>"
  let ?w2 = "fw_note_failure ?w1 now mns"
  have o1: "fw_ok ?w1" "fw_ctl ?w1 = AfterRun" using ok by simp_all
  note n = fw_note_failure_ok [OF o1, of now mns]
  have w3: "fw_after_run w r now mns = fw_after_verdict ?w2 r now"
    using err f fw_apply_verdict_cases(1) [OF n(2)] by simp
  have att: "fw_attempt ?w2 = fw_attempt w" "fw_breaker ?w2 = b" using n by simp_all
  have a0: "0 \<le> fw_attempt w" using s ok(2) by (auto simp: fw_sched_def Let_def)
  show ?thesis
  proof (cases "worker_backoff (fw_attempt w) r")
    case (Inl e)
    then have "fw_after_run w r now mns = ?w2\<lparr>fw_ctl := Crashed\<rparr>"
      using w3 n att by (simp add: fw_after_verdict_def)
    then show ?thesis using f n att by (simp add: fw_quiet_def fw_sched_def Let_def)
  next
    case (Inr d)
    have a1: "fw_attempt w < 1024"
      using Inr a0 by (simp add: compute_backoff_def JITTER_PCT_def split: if_splits)
    obtain d' where "worker_backoff (fw_attempt w) r = Inr d'" "800000 * min 60 (2 ^ nat (fw_attempt w)) \<le> d'"
      by (rule worker_backoff_range [OF r a0 a1])
    then have d: "failure_gap (fw_attempt w + 1) \<le> d" using Inr by (simp add: failure_gap_def)
    have "fw_after_run w r now mns = ?w2\<lparr>fw_attempt := fw_attempt w + 1, fw_ctl := InBackoff (now + d)\<rparr>"
      using w3 n att Inr by (simp add: fw_after_verdict_def)
    then show ?thesis using f n att d by (simp add: fw_quiet_def fw_sched_def Let_def)
  qed
qed

lemma fw_quiet_resume:
  assumes ok: "fw_ok w" and q: "fw_quiet clk w" "clk \<le> now" and r: "0 \<le> r" "r < 1"
    and step: "fw_resume w r now mns = Some w'"
  shows "fw_quiet now w'"
proof (cases "fw_ctl w")
  case Launched
  have "worker_transition (fw_state w) W_START None = Inr W_STARTING"
    using ok Launched by (simp add: fw_ok_def)
  note set = fw_set_state_legal [OF this, of "''initial start''" now mns]
  have w': "w' = fw_loop_top (fw_set_state w W_STARTING W_START ''initial start'' now mns)"
    using step Launched ok by (simp add: fw_resume_def fw_ok_def split: if_splits)
  have "fw_sched clk w \<Longrightarrow> fw_sched now w'"
    unfolding w' set fw_loop_top_def using Launched q(2) by (auto simp: fw_sched_def Let_def)
  moreover have "fw_state w' = W_STARTING" "saw_progress w' = saw_progress w"
    "fw_stop_requested w' = fw_stop_requested w"
    unfolding w' set fw_loop_top_def by simp_all
  ultimately show ?thesis using q(1) by (auto simp: fw_quiet_def)
next
  case AfterRun
  then show ?thesis using step fw_quiet_after_run [OF ok AfterRun q r] by (auto simp: fw_resume_def)
next
  case WaitReset
  then have "fw_state w = W_FAILED_OPEN" using ok by (simp add: fw_ok_def)
  then have "saw_progress w" using q(1) by (simp add: fw_quiet_def)
  then show ?thesis using step WaitReset
    by (auto simp: fw_quiet_def fw_resume_def fw_leave_failed_open_def fw_loop_top_def split: if_splits)
next
  case (InBackoff wake)
  then have "w' = fw_loop_top w" "fw_stop_requested w \<or> wake \<le> now"
    using step by (auto simp: fw_resume_def split: if_splits)
  moreover have "fw_sched now (fw_loop_top w)" if "fw_sched clk w" "wake \<le> now"
    using fw_sched_later [OF that(1) q(2)] that(2) InBackoff by (auto simp: fw_sched_def fw_loop_top_def Let_def)
  moreover have "saw_progress (fw_loop_top w) = saw_progress w" by (simp add: fw_loop_top_def)
  ultimately show ?thesis using q(1) by (auto simp: fw_quiet_def fw_loop_top_def)
next
  case LoopExit
  then have "fw_stop_requested w" using ok by (simp add: fw_ok_def)
  moreover have w': "w' = fw_loop_exit w now mns" using step LoopExit by (simp add: fw_resume_def)
  moreover have "fw_ok w'" "fw_ctl w' = Finished"
    using w' fw_loop_exit_ok [OF ok LoopExit] by (simp_all add: fw_loop_exit_def Let_def)
  ultimately show ?thesis using q(1)
    by (auto simp: fw_quiet_def fw_ok_def fw_loop_exit_def Let_def)
qed (use step in \<open>simp_all add: fw_resume_def\<close>)

lemma fw_quiet_stdout:
  assumes ok: "fw_ok w" and q: "fw_quiet clk w" "clk \<le> now"
  shows "fw_quiet now (fw_stdout_chunk w d now mns)"
proof -
  obtain p fs e where f: "parser_feed (fw_parser w) d = (p, fs, e)" by (cases "parser_feed (fw_parser w) d")
  show ?thesis
  proof (cases "e = None \<and> fs \<noteq> []")
    case True
    then have w': "fw_stdout_chunk w d now mns = foldl (fw_on_frame now mns) (w\<lparr>fw_parser := p\<rparr>) fs"
      using f by (simp add: fw_stdout_chunk_def)
    show ?thesis using True q(1) unfolding w' fw_quiet_def
      by (auto simp: frames_saw frames_state)
  next
    case False
    show ?thesis
      by (rule fw_quiet_cong [OF q])
        (use False f in \<open>auto simp: fw_stdout_chunk_def fw_emit_error_def Let_def split: option.split\<close>)
  qed
qed

lemma fw_quiet_step:
  assumes ok: "fw_ok w" and q: "fw_quiet clk w" "clk \<le> now" and step: "fw_step w i now mns = Some w'"
  shows "fw_quiet now w'"
proof (cases i)
  case (Resume r)
  then show ?thesis using step fw_quiet_resume [OF ok q] by (auto simp: fw_step_def split: if_splits)
next
  case (StdoutData d)
  then show ?thesis using step fw_quiet_stdout [OF ok q] by (auto simp: fw_step_def split: if_splits)
next
  case (SpawnDone res)
  show ?thesis
    by (rule fw_quiet_moved [OF q])
      (use SpawnDone step in \<open>auto simp: fw_step_def fw_spawn_result_def fw_emit_error_def Let_def
          split: if_splits spawn_result.splits\<close>)
next
  case (ProcessExit c)
  show ?thesis
    by (rule fw_quiet_moved [OF q])
      (use ProcessExit step in \<open>auto simp: fw_step_def fw_process_exit_def Let_def split: if_splits\<close>)
next
  case (StderrData d)
  have lines: "saw_progress (foldl fw_consume_stderr_line v ls) = saw_progress v \<and>
      fw_state (foldl fw_consume_stderr_line v ls) = fw_state v \<and>
      fw_stop_requested (foldl fw_consume_stderr_line v ls) = fw_stop_requested v \<and>
      fw_breaker (foldl fw_consume_stderr_line v ls) = fw_breaker v \<and>
      fw_attempt (foldl fw_consume_stderr_line v ls) = fw_attempt v \<and>
      fw_ctl (foldl fw_consume_stderr_line v ls) = fw_ctl v" for v ls
    by (induction ls arbitrary: v) (simp_all add: fw_consume_stderr_line_def)
  obtain s out where w': "w' = foldl fw_consume_stderr_line (w\<lparr>fw_redaction := s\<rparr>) out"
    using StderrData step
    by (auto simp: fw_step_def fw_stderr_chunk_def split: if_splits prod.splits option.splits)
  show ?thesis unfolding w' by (rule fw_quiet_cong [OF q]) (simp_all add: lines)
next
  case StallTick
  show ?thesis
    by (rule fw_quiet_cong [OF q])
      (use StallTick step in \<open>auto simp: fw_step_def fw_stall_tick_def Let_def split: if_splits option.splits\<close>)
next
  case UserReset
  then have "w' = fw_user_reset w" using step by (simp add: fw_step_def)
  then show ?thesis
  proof (cases "fw_state w = W_FAILED_OPEN")
    case True
    then have "saw_progress w" using q(1) by (simp add: fw_quiet_def)
    then show ?thesis using \<open>w' = fw_user_reset w\<close> by (simp add: fw_quiet_def fw_user_reset_def)
  next
    case False
    then have "w' = w" using \<open>w' = fw_user_reset w\<close> by (simp add: fw_user_reset_def)
    then show ?thesis using fw_quiet_cong [OF q, of w] by simp
  qed
next
  case StopCancel
  have w': "w' = fw_stop_cancel w" "fw_stop_requested w"
    using StopCancel step by (auto simp: fw_step_def split: if_splits)
  show ?thesis using w' q(1) by (auto simp: fw_quiet_def fw_stop_cancel_def)
next
  case StopRequest
  then show ?thesis using step fw_quiet_cong [OF q, of w'] by (auto simp: fw_step_def fw_stop_request_def)
next
  case StopWake
  then show ?thesis using step fw_quiet_cong [OF q, of w']
    by (auto simp: fw_step_def fw_stop_wake_def split: if_splits)
next
  case StopClose
  then show ?thesis using step fw_quiet_cong [OF q, of w']
    by (auto simp: fw_step_def fw_stop_close_def split: if_splits)
next
  case ReceiverGone
  then show ?thesis using step fw_quiet_cong [OF q, of w'] by (auto simp: fw_step_def)
qed

text \<open>A worker with the default breaker that has not seen a progress frame since its start
  is never failed open, however long its ffmpeg keeps failing.\<close>

theorem breaker_needs_progress:
  assumes "new_ffmpeg_worker spec None t0 m0 = Inr w0" "fw_run (fw_start w0 t0, t0) is = Some (w, t)"
    and "fw_last_progress w = None"
  shows "fw_state w \<noteq> W_FAILED_OPEN"
proof -
  have init: "fw_quiet t0 (fw_start w0 t0)"
    using assms(1) by (auto simp: new_ffmpeg_worker_def fw_start_def lifecycle_done_def fw_quiet_def
        fw_sched_def new_breaker_def spaced_def Let_def split: sum.splits)
  have "(\<lambda>s. fw_ok (fst s) \<and> fw_quiet (snd s) (fst s)) (w, t)"
  proof (rule fwm.run_invariant [OF assms(2)])
    show "fw_ok (fst (fw_start w0 t0, t0)) \<and> fw_quiet (snd (fw_start w0 t0, t0)) (fst (fw_start w0 t0, t0))"
      using init fw_new_ok [OF assms(1)] by simp
    fix u i v
    assume I: "fw_ok (fst u) \<and> fw_quiet (snd u) (fst u)" and s: "fw_timed u i = Some v"
    obtain w clk inp now mns where u: "u = (w, clk)" "i = (inp, now, mns)" by (cases u, cases i)
    obtain w' where v: "v = (w', now)" "clk \<le> now" "fw_step w inp now mns = Some w'"
      using s u by (cases v) (auto simp: fw_timed_Some)
    show "fw_ok (fst v) \<and> fw_quiet (snd v) (fst v)"
      using I u v fw_step_ok [OF _ v(3)] fw_quiet_step [OF _ _ v(2,3)] by simp
  qed
  then show ?thesis using assms(3) by (auto simp: fw_quiet_def saw_progress_def)
qed

theorem breaker_needs_progress_witness:
  "\<exists>w v. new_ffmpeg_worker twitch_spec None 0 0 = Inr w \<and>
    fw_run (fw_start w 0, 0) failing_inputs = Some (v, 3) \<and> fw_state v \<noteq> W_FAILED_OPEN"
proof -
  have "\<exists>w v. new_ffmpeg_worker twitch_spec None 0 0 = Inr w \<and>
    fw_run (fw_start w 0, 0) failing_inputs = Some (v, 3) \<and> fw_last_progress v = None"
    by (simp add: new_ffmpeg_worker_def new_sink_def twitch_spec_def fw_start_def lifecycle_done_def
      failing_inputs_def fw_timed_def fw_step_def fw_resume_def fw_loop_top_def fw_set_state_def fw_emit_state_change_def
      fw_spawn_result_def fw_emit_error_def fw_after_run_def fw_note_failure_def fw_apply_reconnect_verdict_def
      fw_after_verdict_def fw_emit_def Let_def should_open_def record_failure_def evict_old_def
      new_breaker_def default_breaker_policy_def compute_backoff_def JITTER_PCT_def)
  then obtain w v where w: "new_ffmpeg_worker twitch_spec None 0 0 = Inr w"
    "fw_run (fw_start w 0, 0) failing_inputs = Some (v, 3)" "fw_last_progress v = None"
    by blast
  from breaker_needs_progress [OF w] w(1,2) show ?thesis by blast
qed

text \<open>The backoff of attempt 1024 raises, and the lifecycle ends there: the worker stays in
  RECONNECTING without a process for good.\<close>

lemma reconnect_overflow_is_final:
  assumes "fw_ok w" "fw_ctl w = AfterRun" "1024 \<le> fw_attempt w" "\<not> fw_stop_requested w"
    and "snd (should_open (record_failure (fw_breaker w) now) now) = CLOSED"
  shows "fw_ctl (fw_after_run w r now mns) = Crashed \<and> fw_state (fw_after_run w r now mns) = W_RECONNECTING"
proof -
  obtain b where v: "should_open (record_failure (fw_breaker w) now) now = (b, CLOSED)"
    using assms(5) by (cases "should_open (record_failure (fw_breaker w) now) now") auto
  obtain err where err: "fw_after_run w r now mns = fw_after_verdict
      (fw_apply_reconnect_verdict (fw_note_failure (w\<lparr>fw_breaker := b, fw_last_error := Some err\<rparr>) now mns)
        CLOSED now mns) r now"
    using assms(4) v by (simp add: fw_after_run_def Let_def)
  let ?w1 = "w\<lparr>fw_breaker := b, fw_last_error := Some err\<rparr>"
  have o1: "fw_ok ?w1" "fw_ctl ?w1 = AfterRun" using assms by simp_all
  note n = fw_note_failure_ok [OF o1, of now mns]
  show ?thesis unfolding err fw_apply_verdict_cases(1) [OF n(2)]
    using n assms(3) by (simp add: fw_after_verdict_def compute_backoff_def JITTER_PCT_def)
qed

lemma crashed_never_spawns:
  "fw_ctl w = Crashed \<Longrightarrow> fw_step w (SpawnDone res) now mns = None \<and> fw_step w (Resume r) now mns = None"
  by (simp add: fw_step_def fw_resume_def)

end
