(* ===== verification/Run_State.thy ===== *)
theory Run_State
  imports Interfaces
begin

text \<open>
  The system-wide run state: \<^verbatim>\<open>app/domain/run_state.py\<close> and its exception of
  \<^verbatim>\<open>app/domain/errors.py\<close>. The transition table is the source's dictionary, entry by entry;
  \<open>run_transition\<close>, \<open>run_is_legal\<close> and \<open>run_legal_actions\<close> are its three readers. The last
  section says which runs of the machine exist.
\<close>

datatype run_state = OFFLINE | STARTING | ARMED | LIVE | STOPPING | ERROR

datatype run_action =
  START_REQUESTED | WORKERS_SPAWNED | OBS_PUBLISH_BEGAN | OBS_PUBLISH_ENDED
| STOP_REQUESTED | WORKERS_DRAINED | UNRECOVERABLE_FAILED | ERROR_CLEARED

datatype run_error = IllegalRunStateTransitionError (err_state: run_state) (err_action: run_action)

fun run_state_value :: "run_state \<Rightarrow> pystr" where
  "run_state_value OFFLINE = ''offline''"
| "run_state_value STARTING = ''starting''"
| "run_state_value ARMED = ''armed''"
| "run_state_value LIVE = ''live''"
| "run_state_value STOPPING = ''stopping''"
| "run_state_value ERROR = ''error''"

fun run_action_value :: "run_action \<Rightarrow> pystr" where
  "run_action_value START_REQUESTED = ''start_requested''"
| "run_action_value WORKERS_SPAWNED = ''workers_spawned''"
| "run_action_value OBS_PUBLISH_BEGAN = ''obs_publish_began''"
| "run_action_value OBS_PUBLISH_ENDED = ''obs_publish_ended''"
| "run_action_value STOP_REQUESTED = ''stop_requested''"
| "run_action_value WORKERS_DRAINED = ''workers_drained''"
| "run_action_value UNRECOVERABLE_FAILED = ''unrecoverable_failed''"
| "run_action_value ERROR_CLEARED = ''error_cleared''"

definition run_error_message :: "run_error \<Rightarrow> pystr" where
  "run_error_message e = ''illegal run transition: '' @ run_state_value (err_state e) @ '' -['' @
     run_action_value (err_action e) @ '']-> ?''"

definition run_TRANSITIONS :: "((run_state \<times> run_action) \<times> run_state) list" where
  "run_TRANSITIONS =
    [((OFFLINE, START_REQUESTED), STARTING),
     ((STARTING, WORKERS_SPAWNED), ARMED),
     ((ARMED, OBS_PUBLISH_BEGAN), LIVE),
     ((LIVE, OBS_PUBLISH_ENDED), ARMED),
     ((STARTING, STOP_REQUESTED), STOPPING),
     ((ARMED, STOP_REQUESTED), STOPPING),
     ((LIVE, STOP_REQUESTED), STOPPING),
     ((STOPPING, WORKERS_DRAINED), OFFLINE),
     ((ERROR, ERROR_CLEARED), OFFLINE),
     ((STARTING, UNRECOVERABLE_FAILED), ERROR),
     ((ARMED, UNRECOVERABLE_FAILED), ERROR),
     ((LIVE, UNRECOVERABLE_FAILED), ERROR),
     ((STOPPING, UNRECOVERABLE_FAILED), ERROR)]"

definition run_transition :: "run_state \<Rightarrow> run_action \<Rightarrow> run_error + run_state" where
  "run_transition st ac =
     (case map_of run_TRANSITIONS (st, ac) of
        Some t \<Rightarrow> Inr t
      | None \<Rightarrow> Inl (IllegalRunStateTransitionError st ac))"

definition run_is_legal :: "run_state \<Rightarrow> run_action \<Rightarrow> bool" where
  "run_is_legal st ac \<longleftrightarrow> (st, ac) \<in> set (map fst run_TRANSITIONS)"

definition run_legal_actions :: "run_state \<Rightarrow> run_action set" where
  "run_legal_actions st = set (map (\<lambda>((s, a), t). a) (filter (\<lambda>((s, a), t). s = st) run_TRANSITIONS))"

section \<open>The three readers agree\<close>

lemma run_transition_simps [simp]:
  "run_transition OFFLINE a = (if a = START_REQUESTED then Inr STARTING else Inl (IllegalRunStateTransitionError OFFLINE a))"
  "run_transition STARTING a =
     (case a of WORKERS_SPAWNED \<Rightarrow> Inr ARMED | STOP_REQUESTED \<Rightarrow> Inr STOPPING
      | UNRECOVERABLE_FAILED \<Rightarrow> Inr ERROR | _ \<Rightarrow> Inl (IllegalRunStateTransitionError STARTING a))"
  "run_transition ARMED a =
     (case a of OBS_PUBLISH_BEGAN \<Rightarrow> Inr LIVE | STOP_REQUESTED \<Rightarrow> Inr STOPPING
      | UNRECOVERABLE_FAILED \<Rightarrow> Inr ERROR | _ \<Rightarrow> Inl (IllegalRunStateTransitionError ARMED a))"
  "run_transition LIVE a =
     (case a of OBS_PUBLISH_ENDED \<Rightarrow> Inr ARMED | STOP_REQUESTED \<Rightarrow> Inr STOPPING
      | UNRECOVERABLE_FAILED \<Rightarrow> Inr ERROR | _ \<Rightarrow> Inl (IllegalRunStateTransitionError LIVE a))"
  "run_transition STOPPING a =
     (case a of WORKERS_DRAINED \<Rightarrow> Inr OFFLINE
      | UNRECOVERABLE_FAILED \<Rightarrow> Inr ERROR | _ \<Rightarrow> Inl (IllegalRunStateTransitionError STOPPING a))"
  "run_transition ERROR a = (if a = ERROR_CLEARED then Inr OFFLINE else Inl (IllegalRunStateTransitionError ERROR a))"
  by (cases a; simp add: run_transition_def run_TRANSITIONS_def)+

lemma run_is_legal_iff: "run_is_legal st ac \<longleftrightarrow> is_ok (run_transition st ac)"
  by (cases st; cases ac; simp add: run_is_legal_def run_TRANSITIONS_def)

lemma run_legal_actions_iff: "ac \<in> run_legal_actions st \<longleftrightarrow> run_is_legal st ac"
  by (cases st; cases ac; simp add: run_is_legal_def run_legal_actions_def run_TRANSITIONS_def)

lemma run_transition_error:
  "run_transition st ac = Inl e \<Longrightarrow> e = IllegalRunStateTransitionError st ac"
  by (auto simp: run_transition_def split: option.splits)

text \<open>A run transition succeeds exactly for the pairs \<^verbatim>\<open>is_legal\<close> accepts,
  which are the ones \<^verbatim>\<open>legal_actions\<close> lists; a refusal carries the state and action it refused.\<close>

theorem run_readers_agree:
  "(ac \<in> run_legal_actions st) = run_is_legal st ac \<and>
   run_is_legal st ac = (\<exists>t. run_transition st ac = Inr t) \<and>
   (\<not> run_is_legal st ac) = (run_transition st ac = Inl (IllegalRunStateTransitionError st ac))"
  by (cases st; cases ac; simp add: run_legal_actions_iff run_is_legal_iff)

section \<open>Runs of the machine\<close>

definition run_step :: "run_state \<Rightarrow> run_action \<Rightarrow> run_state option" where
  "run_step st ac = (case run_transition st ac of Inl _ \<Rightarrow> None | Inr t \<Rightarrow> Some t)"

fun run_actions :: "run_state \<Rightarrow> run_action list \<Rightarrow> run_state option" where
  "run_actions st [] = Some st"
| "run_actions st (a # as) = (case run_step st a of None \<Rightarrow> None | Some t \<Rightarrow> run_actions t as)"

interpretation rsm: step_machine run_step run_actions
  by unfold_locales auto

lemma run_step_into_LIVE: "run_step st ac = Some LIVE \<Longrightarrow> st = ARMED \<and> ac = OBS_PUBLISH_BEGAN"
  by (cases st; cases ac; simp add: run_step_def)

lemma run_step_into_ARMED:
  "run_step st ac = Some ARMED \<Longrightarrow> (st = STARTING \<and> ac = WORKERS_SPAWNED) \<or> (st = LIVE \<and> ac = OBS_PUBLISH_ENDED)"
  by (cases st; cases ac; simp add: run_step_def)

lemma run_step_into_OFFLINE:
  "run_step st ac = Some OFFLINE \<Longrightarrow> (st = STOPPING \<and> ac = WORKERS_DRAINED) \<or> (st = ERROR \<and> ac = ERROR_CLEARED)"
  by (cases st; cases ac; simp add: run_step_def)

lemma run_step_into_STARTING:
  "run_step st ac = Some STARTING \<Longrightarrow> st = OFFLINE \<and> ac = START_REQUESTED"
  by (cases st; cases ac; simp add: run_step_def)

text \<open>Every action sequence that takes the machine from OFFLINE to LIVE
  requests a start, then reports the workers spawned, and ends with an OBS publish.\<close>

theorem run_live_history:
  assumes "run_actions OFFLINE as = Some LIVE"
  shows "\<exists>xs ys. as = xs @ ys @ [OBS_PUBLISH_BEGAN] \<and> START_REQUESTED \<in> set xs \<and>
    WORKERS_SPAWNED \<in> set ys"
proof -
  obtain bs a u where as: "as = bs @ [a]" and u: "run_actions OFFLINE bs = Some u" "run_step u a = Some LIVE"
    using assms by (cases as rule: rev_cases) (auto simp: rsm.run_snoc)
  then have ua: "u = ARMED" "a = OBS_PUBLISH_BEGAN"
    using run_step_into_LIVE by auto
  let ?P = "\<lambda>s. s = ARMED \<or> s = LIVE"
  obtain xs b ys v w where bs: "bs = xs @ b # ys" and v: "run_actions OFFLINE xs = Some v" "\<not> ?P v"
    "run_step v b = Some w" "?P w"
    using rsm.run_crosses [of OFFLINE bs u ?P] u ua by auto
  then have vb: "v = STARTING" "b = WORKERS_SPAWNED"
    using run_step_into_ARMED run_step_into_LIVE by blast+
  obtain xs' c xs'' p q where xs: "xs = xs' @ c # xs''" and p: "run_step p c = Some q" "q = STARTING"
    using rsm.run_crosses [of OFFLINE xs v "\<lambda>s. s = STARTING"] v vb by auto
  then have "c = START_REQUESTED" using run_step_into_STARTING by blast
  then show ?thesis using as bs xs vb ua
    by (intro exI [of _ xs] exI [of _ "b # ys"]) simp
qed

theorem run_live_history_witness:
  "run_actions OFFLINE [START_REQUESTED, WORKERS_SPAWNED, OBS_PUBLISH_BEGAN] = Some LIVE \<and>
   (\<exists>xs ys. [START_REQUESTED, WORKERS_SPAWNED, OBS_PUBLISH_BEGAN] = xs @ ys @ [OBS_PUBLISH_BEGAN] \<and>
     START_REQUESTED \<in> set xs \<and> WORKERS_SPAWNED \<in> set ys)"
proof -
  have h: "run_actions OFFLINE [START_REQUESTED, WORKERS_SPAWNED, OBS_PUBLISH_BEGAN] = Some LIVE"
    by (simp add: run_step_def)
  show ?thesis using h run_live_history [OF h] by blast
qed

text \<open>A stopped run passes through STOPPING and drained workers, a failed one needs ERROR_CLEARED:
  the only two ways back to OFFLINE.\<close>

lemma run_return_to_OFFLINE:
  assumes "run_actions st as = Some OFFLINE" "st \<noteq> OFFLINE"
  shows "WORKERS_DRAINED \<in> set as \<or> ERROR_CLEARED \<in> set as"
proof -
  obtain xs a ys u where "as = xs @ a # ys" "run_step u a = Some OFFLINE"
    using rsm.run_crosses [of st as OFFLINE "\<lambda>s. s = OFFLINE"] assms by auto
  then show ?thesis using run_step_into_OFFLINE by force
qed

text \<open>Without ERROR_CLEARED the ERROR state is absorbing.\<close>

lemma run_ERROR_absorbing:
  assumes "run_actions ERROR as = Some t" "ERROR_CLEARED \<notin> set as"
  shows "as = [] \<and> t = ERROR"
  using assms by (cases as) (auto simp: run_step_def split: if_splits)

end
