(* ===== verification/Event_Bus.thy ===== *)
theory Event_Bus
  imports Worker_Contract Run_State
begin

text \<open>
  The bounded bus from the supervisor to the API, \<^verbatim>\<open>app/fanout/event_bus.py\<close>: its event payloads,
  and the queue that drops its oldest entry instead of blocking the producer. \<open>drain\<close> takes the
  whole buffer; where the source awaits a non-empty buffer the model returns \<open>None\<close>.
  The specification of the queue is the list of events put since the last drain.
\<close>

section \<open>Events\<close>

record host_cpu_by_target =
  hc_worker_id :: worker_id
  hc_cpu_pct :: rat

datatype bus_payload =
  BusWorker worker_event
| RunStateChanged (rs_new: run_state) (rs_previous: run_state) (rs_cause: pystr)
| TargetSnapshot (ts_target: pystr) (ts_ui_state: target_ui_state) (ts_snapshots: "worker_snapshot list")
| DropAlert (dropped_so_far: int)
| HostStats (cpu_total_pct: rat) (cpu_by_target: "host_cpu_by_target list") (rss_bytes: int)
    (ingest_kbps: "rat option")

record bus_event =
  be_at :: datetime
  be_monotonic_ns :: int
  be_target_id :: "pystr option"
  be_payload :: bus_payload

section \<open>The queue\<close>

definition EVENT_BUS_CAPACITY :: int where
  "EVENT_BUS_CAPACITY = 10000"

record 'e event_bus =
  bus_buf :: "'e list"
  bus_capacity :: int
  dropped_total :: int

definition new_event_bus :: "int \<Rightarrow> value_error + 'e event_bus" where
  "new_event_bus cap =
     (if cap \<le> 0 then Inl (ValueError ''capacity must be > 0'')
      else Inr \<lparr>bus_buf = [], bus_capacity = cap, dropped_total = 0\<rparr>)"

text \<open>\<^verbatim>\<open>deque(maxlen=cap).append\<close>: a full deque loses its oldest entry.\<close>

definition deque_append :: "int \<Rightarrow> 'e list \<Rightarrow> 'e \<Rightarrow> 'e list" where
  "deque_append cap xs e = tail_slice (nat cap) (xs @ [e])"

definition bus_put :: "'e event_bus \<Rightarrow> 'e \<Rightarrow> 'e event_bus" where
  "bus_put b e =
     (let b1 = (if int (length (bus_buf b)) \<ge> bus_capacity b
                then b\<lparr>dropped_total := dropped_total b + 1\<rparr> else b)
      in b1\<lparr>bus_buf := deque_append (bus_capacity b1) (bus_buf b1) e\<rparr>)"

definition bus_drain :: "'e event_bus \<Rightarrow> ('e list \<times> 'e event_bus) option" where
  "bus_drain b = (if bus_buf b = [] then None else Some (bus_buf b, b\<lparr>bus_buf := []\<rparr>))"

section \<open>Sequences of puts and drains\<close>

datatype 'e bus_op = Put 'e | Drain

text \<open>The state and everything delivered so far; a drain of an empty bus waits, which changes
  nothing.\<close>

fun bus_do :: "'e event_bus \<times> 'e list \<Rightarrow> 'e bus_op \<Rightarrow> 'e event_bus \<times> 'e list" where
  "bus_do (b, out) (Put e) = (bus_put b e, out)"
| "bus_do (b, out) Drain = (case bus_drain b of None \<Rightarrow> (b, out) | Some (batch, b') \<Rightarrow> (b', out @ batch))"

fun puts_of :: "'e bus_op list \<Rightarrow> 'e list" where
  "puts_of [] = []"
| "puts_of (Put e # ops) = e # puts_of ops"
| "puts_of (Drain # ops) = puts_of ops"

definition bus_inv :: "'e event_bus \<Rightarrow> bool" where
  "bus_inv b \<longleftrightarrow> 0 < bus_capacity b \<and> int (length (bus_buf b)) \<le> bus_capacity b"

lemma puts_of_append [simp]: "puts_of (xs @ ys) = puts_of xs @ puts_of ys"
  by (induction xs rule: puts_of.induct) simp_all

lemma bus_put_room:
  "int (length (bus_buf b)) < bus_capacity b \<Longrightarrow>
    bus_put b e = b\<lparr>bus_buf := bus_buf b @ [e]\<rparr>"
  by (simp add: bus_put_def deque_append_def tail_slice_def Let_def)

lemma bus_put_full:
  assumes "bus_inv b" "\<not> int (length (bus_buf b)) < bus_capacity b"
  shows "bus_put b e = b\<lparr>bus_buf := tl (bus_buf b) @ [e], dropped_total := dropped_total b + 1\<rparr>"
proof -
  have "nat (bus_capacity b) = length (bus_buf b)" "bus_buf b \<noteq> []"
    using assms by (auto simp: bus_inv_def)
  then show ?thesis
    using assms(2) by (cases "bus_buf b") (simp_all add: bus_put_def deque_append_def tail_slice_def Let_def)
qed

lemma bus_inv_put [inv_intros]: "bus_inv b \<Longrightarrow> bus_inv (bus_put b e)"
  by (cases "int (length (bus_buf b)) < bus_capacity b")
    (auto simp: bus_put_room bus_put_full bus_inv_def)

lemma bus_inv_do [inv_intros]: "bus_inv b \<Longrightarrow> bus_inv (fst (bus_do (b, out) x))"
  by (cases x) (auto simp: bus_inv_put, auto simp: bus_drain_def bus_inv_def)

lemma bus_do_capacity: "bus_capacity (fst (bus_do (b, out) x)) = bus_capacity b"
  by (cases x) (auto simp: bus_put_def Let_def bus_drain_def)

definition bus_ok :: "int \<Rightarrow> 'e list \<Rightarrow> 'e event_bus \<Rightarrow> 'e list \<Rightarrow> bool" where
  "bus_ok cap ps b out \<longleftrightarrow> bus_inv b \<and> bus_capacity b = cap \<and> subseq (out @ bus_buf b) ps \<and>
     int (length ps) = int (length out) + int (length (bus_buf b)) + dropped_total b \<and> 0 \<le> dropped_total b"

lemma bus_ok_put: "bus_ok cap ps b out \<Longrightarrow> bus_ok cap (ps @ [e]) (bus_put b e) out"
proof -
  assume ok: "bus_ok cap ps b out"
  show ?thesis
  proof (cases "int (length (bus_buf b)) < bus_capacity b")
    case True
    then show ?thesis using ok bus_inv_put [of b e]
      by (simp add: bus_ok_def bus_put_room flip: append_assoc)
  next
    case False
    then obtain x xs where x: "bus_buf b = x # xs"
      using ok by (cases "bus_buf b") (auto simp: bus_ok_def bus_inv_def)
    have "subseq xs (x # xs)" by (rule subseq_Cons') simp
    then have "subseq (out @ xs) (out @ x # xs)" by (simp add: subseq_append')
    then have "subseq (out @ xs) ps" using ok x subseq_order.trans by (fastforce simp: bus_ok_def)
    then have "subseq ((out @ xs) @ [e]) (ps @ [e])" by (rule list_emb_append_mono) simp
    then show ?thesis using ok False x bus_inv_put [of b e]
      by (simp add: bus_ok_def bus_put_full)
  qed
qed

lemma bus_ok_do:
  "bus_ok cap ps b out \<Longrightarrow> bus_do (b, out) x = (b', out') \<Longrightarrow> bus_ok cap (ps @ puts_of [x]) b' out'"
  by (cases x) (auto simp: bus_ok_put, auto simp: bus_ok_def bus_drain_def bus_inv_def split: if_splits)

lemma bus_ok_run:
  "bus_ok cap ps b out \<Longrightarrow> foldl bus_do (b, out) ops = (b', out') \<Longrightarrow> bus_ok cap (ps @ puts_of ops) b' out'"
proof (induction ops arbitrary: b out ps)
  case Nil
  then show ?case by simp
next
  case (Cons x ops)
  obtain b1 out1 where s: "bus_do (b, out) x = (b1, out1)" by fastforce
  have "bus_ok cap (ps @ puts_of [x]) b1 out1" using Cons.prems(1) s by (rule bus_ok_do)
  then have "bus_ok cap ((ps @ puts_of [x]) @ puts_of ops) b' out'"
    by (rule Cons.IH) (use Cons.prems(2) s in simp)
  moreover have "puts_of (x # ops) = puts_of [x] @ puts_of ops" using puts_of_append [of "[x]" ops] by simp
  ultimately show ?case by simp
qed

text \<open>Whatever the order of puts and drains, the buffer stays within the
  capacity, what is delivered and still queued is in the order of the puts without duplicates,
  and every event put is delivered, queued or counted as dropped.\<close>

theorem event_bus_accounting:
  assumes "new_event_bus cap = Inr b0" "foldl bus_do (b0, []) ops = (b, out)"
  shows "int (length (bus_buf b)) \<le> cap \<and> subseq (out @ bus_buf b) (puts_of ops) \<and>
    int (length (puts_of ops)) = int (length out) + int (length (bus_buf b)) + dropped_total b \<and>
    0 \<le> dropped_total b"
proof -
  have "bus_ok cap [] b0 []"
    using assms(1) by (auto simp: new_event_bus_def bus_ok_def bus_inv_def split: if_splits)
  then have "bus_ok cap ([] @ puts_of ops) b out" using assms(2) by (rule bus_ok_run)
  then show ?thesis by (simp add: bus_ok_def bus_inv_def)
qed

theorem event_bus_accounting_witness:
  "dropped_total (fst (foldl bus_do (\<lparr>bus_buf = [], bus_capacity = 2, dropped_total = 0\<rparr>, [])
     [Put (1 :: int), Put 2, Put 3, Drain, Put 4])) = 1"
proof -
  have h: "new_event_bus 2 = Inr \<lparr>bus_buf = [], bus_capacity = 2, dropped_total = 0\<rparr>"
    by (simp add: new_event_bus_def)
  have r: "foldl bus_do (\<lparr>bus_buf = [], bus_capacity = 2, dropped_total = 0\<rparr>, [])
      [Put (1 :: int), Put 2, Put 3, Drain, Put 4] =
      (\<lparr>bus_buf = [4], bus_capacity = 2, dropped_total = 1\<rparr>, [2, 3])"
    by (simp add: bus_put_def deque_append_def tail_slice_def bus_drain_def)
  show ?thesis using event_bus_accounting [OF h r] r by simp
qed

lemma tail_slice_snoc: "0 < n \<Longrightarrow> tail_slice n (tail_slice n xs @ ys) = tail_slice n (xs @ ys)"
proof -
  assume "0 < n"
  have "n \<le> length xs \<or> length xs < n" by arith
  then show ?thesis
    by (auto simp: tail_slice_def Suc_diff_le add.commute)
qed

lemma bus_puts_tail:
  assumes "bus_inv b" "bus_buf b = tail_slice (nat (bus_capacity b)) xs"
  shows "bus_buf (foldl bus_put b es) = tail_slice (nat (bus_capacity b)) (xs @ es)"
  using assms
proof (induction es arbitrary: b xs)
  case Nil
  then show ?case by simp
next
  case (Cons e es)
  have cap: "bus_capacity (bus_put b e) = bus_capacity b" using bus_do_capacity [of b "[]" "Put e"] by simp
  have "bus_buf (bus_put b e) = tail_slice (nat (bus_capacity b)) (bus_buf b @ [e])"
    by (simp add: bus_put_def deque_append_def Let_def)
  then have "bus_buf (bus_put b e) = tail_slice (nat (bus_capacity (bus_put b e))) (xs @ [e])"
    using Cons.prems cap by (simp add: bus_inv_def tail_slice_snoc)
  then show ?case using Cons.IH [OF bus_inv_put [OF Cons.prems(1)], of e "xs @ [e]"] cap by simp
qed

text \<open>Puts after a drain leave exactly the newest events, as many as fit;
  the next drain delivers those and nothing older.\<close>

theorem event_bus_keeps_newest:
  assumes "bus_inv b" "bus_buf b = []" "es \<noteq> []"
  shows "bus_drain (foldl bus_put b es) =
    Some (tail_slice (nat (bus_capacity b)) es, (foldl bus_put b es)\<lparr>bus_buf := []\<rparr>)"
proof -
  have "bus_buf (foldl bus_put b es) = tail_slice (nat (bus_capacity b)) es"
    using bus_puts_tail [OF assms(1), of "[]" es] assms(2) by (simp add: tail_slice_def)
  moreover have "tail_slice (nat (bus_capacity b)) es \<noteq> []"
  proof -
    have "length (tail_slice (nat (bus_capacity b)) es) \<noteq> 0"
      unfolding length_tail_slice using assms by (simp add: bus_inv_def min_def)
    then show ?thesis by (metis list.size(3))
  qed
  ultimately show ?thesis by (simp add: bus_drain_def)
qed

theorem event_bus_keeps_newest_witness:
  "fst (the (bus_drain (foldl bus_put \<lparr>bus_buf = [], bus_capacity = 2, dropped_total = 0\<rparr> [1 :: int, 2, 3]))) = [2, 3]"
proof -
  let ?b = "\<lparr>bus_buf = [], bus_capacity = 2, dropped_total = 0\<rparr> :: int event_bus"
  have h: "bus_inv ?b" "bus_buf ?b = []" by (simp_all add: bus_inv_def)
  have "[1 :: int, 2, 3] \<noteq> []" by simp
  from event_bus_keeps_newest [OF h this] show ?thesis by (simp add: tail_slice_def)
qed

end
