(* ===== verification/Credential_Registry.thy ===== *)
theory Credential_Registry
  imports Redaction
begin

text \<open>
  The process-wide registry of secrets and the log processor that strips them,
  \<^verbatim>\<open>app/logging_setup.py\<close>. The set of secrets is a list without duplicates, in the order the set
  is iterated. A logged value is a tree of strings, bytes, dictionaries, lists and tuples.
\<close>

definition MIN_REDACTABLE_SECRET_LENGTH :: nat where
  "MIN_REDACTABLE_SECRET_LENGTH = 12"

definition LOG_PLACEHOLDER :: pystr where
  "LOG_PLACEHOLDER = ''***REDACTED***''"

type_synonym registry = "pystr list"

definition registry_register :: "pystr \<Rightarrow> registry \<Rightarrow> value_error + registry" where
  "registry_register secret r =
     (if length secret < MIN_REDACTABLE_SECRET_LENGTH
      then Inl (ValueError (''secret must be at least 12 characters to register for redaction; got '' @
             show_int (int (length secret))))
      else Inr (if secret \<in> set r then r else r @ [secret]))"

definition registry_unregister :: "pystr \<Rightarrow> registry \<Rightarrow> registry" where
  "registry_unregister secret r = removeAll secret r"

definition registry_clear :: "registry \<Rightarrow> registry" where
  "registry_clear r = []"

text \<open>Longest first; the sort keeps the order of equal lengths.\<close>

definition redact_string :: "pystr \<Rightarrow> registry \<Rightarrow> pystr" where
  "redact_string value secrets =
     foldl (\<lambda>out secret. if sublist secret out then replace_all secret LOG_PLACEHOLDER out else out)
       value (sort_key (\<lambda>s. - int (length s)) secrets)"

datatype log_value =
  LStr pystr | LBytes bytes | LDict "(pystr \<times> log_value) list" | LList "log_value list"
| LTuple "log_value list" | LOther

fun redact_value :: "registry \<Rightarrow> log_value \<Rightarrow> log_value" where
  "redact_value r (LStr s) = LStr (redact_string s r)"
| "redact_value r (LBytes b) =
     (case utf8_decode b of
        None \<Rightarrow> LBytes b
      | Some s \<Rightarrow> if redact_string s r = s then LBytes b else LBytes (utf8_encode (redact_string s r)))"
| "redact_value r (LDict kvs) = LDict (map (\<lambda>(k, v). (k, redact_value r v)) kvs)"
| "redact_value r (LList vs) = LList (map (redact_value r) vs)"
| "redact_value r (LTuple vs) = LTuple (map (redact_value r) vs)"
| "redact_value r LOther = LOther"

definition redaction_processor :: "registry \<Rightarrow> (pystr \<times> log_value) list \<Rightarrow> (pystr \<times> log_value) list" where
  "redaction_processor r event =
     (if r = [] then event else map (\<lambda>(k, v). (k, redact_value r v)) event)"

section \<open>No registered secret survives\<close>

text \<open>A secret the placeholder cannot hide: longer than the word inside it, and without stars.\<close>

definition redactable :: "pystr \<Rightarrow> bool" where
  "redactable s \<longleftrightarrow> 8 < length s \<and> CHR ''*'' \<notin> set s"

lemma log_placeholder: "LOG_PLACEHOLDER = REDACTION_PLACEHOLDER"
  by (simp add: LOG_PLACEHOLDER_def REDACTION_PLACEHOLDER_def)

lemma sublist_past_short_star:
  assumes "redactable u" "length a \<le> 8" "sublist u (a @ CHR ''*'' # b)"
  shows "sublist u b"
proof -
  have "u \<noteq> []" "CHR ''*'' \<notin> set u" "\<not> sublist u a"
    using assms(1,2) sublist_length_le [of u a] by (auto simp: redactable_def)
  then show ?thesis using sublist_past_star [of u a _ b] assms(3) by blast
qed

lemma sublist_past_placeholder:
  assumes "sublist u (g @ REDACTION_PLACEHOLDER @ t)" "redactable u"
  shows "sublist u g \<or> sublist u t"
proof -
  note short = sublist_past_short_star [OF assms(2)]
  have u: "u \<noteq> []" "CHR ''*'' \<notin> set u" using assms(2) by (auto simp: redactable_def)
  have "g @ REDACTION_PLACEHOLDER @ t = g @ CHR ''*'' # (''**REDACTED***'' @ t)"
    by (simp add: REDACTION_PLACEHOLDER_def)
  then have "sublist u g \<or> sublist u (''**REDACTED***'' @ t)"
    using sublist_past_star [OF _ u(2,1)] assms(1) by metis
  moreover have "sublist u t" if "sublist u (''**REDACTED***'' @ t)"
  proof -
    have "sublist u (''*REDACTED***'' @ t)" using short [of "[]" "''*REDACTED***'' @ t"] that by simp
    then have "sublist u (''REDACTED***'' @ t)" using short [of "[]" "''REDACTED***'' @ t"] by simp
    then have "sublist u (''**'' @ t)" using short [of "''REDACTED''" "''**'' @ t"] by simp
    then have "sublist u (''*'' @ t)" using short [of "[]" "''*'' @ t"] by simp
    then show ?thesis using short [of "[]" t] by simp
  qed
  ultimately show ?thesis by blast
qed

lemma replace_from_keeps_absent:
  assumes "redactable u"
  shows "sublist u (replace_from pat REDACTION_PLACEHOLDER k s) \<Longrightarrow> sublist u s"
proof (induction pat REDACTION_PLACEHOLDER k s rule: replace_from.induct)
  case (2 pat k x xs)
  then show ?case by (auto simp: sublist_Cons_right)
next
  case (3 pat x xs)
  have u: "u \<noteq> []" "CHR ''*'' \<notin> set u" using assms by (auto simp: redactable_def)
  show ?case
  proof (cases "prefix pat (x # xs) \<and> pat \<noteq> []")
    case True
    then have "sublist u (replace_from pat REDACTION_PLACEHOLDER (length pat - 1) xs)"
      using "3.prems" sublist_past_placeholder [of u "[]", OF _ assms] u by auto
    then show ?thesis using "3.hyps"(1) True by (auto simp: sublist_Cons_right)
  next
    case False
    then have "prefix u (x # replace_from pat REDACTION_PLACEHOLDER 0 xs) \<or>
        sublist u (replace_from pat REDACTION_PLACEHOLDER 0 xs)"
      using "3.prems" by (auto simp: sublist_Cons_right)
    then show ?thesis
      using "3.hyps"(2) False prefix_replace_from [of u pat 0 "x # xs"] u
      by (auto simp: sublist_Cons_right)
  qed
qed auto

lemma replace_from_absent:
  "redactable pat \<Longrightarrow> \<not> sublist pat (replace_from pat REDACTION_PLACEHOLDER k s)"
proof (induction pat REDACTION_PLACEHOLDER k s rule: replace_from.induct)
  case (1 pat k)
  then show ?case by (auto simp: redactable_def)
next
  case (3 pat x xs)
  have u: "pat \<noteq> []" "CHR ''*'' \<notin> set pat" using "3.prems" by (auto simp: redactable_def)
  show ?case
  proof (cases "prefix pat (x # xs)")
    case True
    then show ?thesis
      using 3 sublist_past_placeholder [of pat "[]", OF _ "3.prems"] u by auto
  next
    case False
    then have "\<not> prefix pat (x # replace_from pat REDACTION_PLACEHOLDER 0 xs)"
      using prefix_replace_from [of pat pat 0 "x # xs"] u by auto
    then show ?thesis using 3 False by (simp add: sublist_Cons_right)
  qed
qed auto

definition redact_one :: "pystr \<Rightarrow> pystr \<Rightarrow> pystr" where
  "redact_one out secret = (if sublist secret out then replace_all secret LOG_PLACEHOLDER out else out)"

lemma redact_string_foldl: "redact_string v r = foldl redact_one v (sort_key (\<lambda>s. - int (length s)) r)"
  unfolding redact_string_def by (rule foldl_cong) (simp_all add: redact_one_def)

lemma redact_one_keeps: "redactable u \<Longrightarrow> \<not> sublist u v \<Longrightarrow> \<not> sublist u (redact_one v s)"
  using replace_from_keeps_absent [of u s 0 v] by (auto simp: redact_one_def replace_all_def log_placeholder)

lemma redact_one_removes: "redactable s \<Longrightarrow> \<not> sublist s (redact_one v s)"
  using replace_from_absent [of s 0 v] by (auto simp: redact_one_def replace_all_def log_placeholder)

lemma redact_fold:
  "redactable u \<Longrightarrow> u \<in> set ss \<or> \<not> sublist u v \<Longrightarrow> \<not> sublist u (foldl redact_one v ss)"
proof (induction ss arbitrary: v)
  case (Cons s ss)
  have "\<not> sublist u (redact_one v s)" if "u = s \<or> \<not> sublist u v"
    using that Cons.prems(1) redact_one_keeps redact_one_removes by blast
  then have "u \<in> set ss \<or> \<not> sublist u (redact_one v s)" using Cons.prems(2) by auto
  then show ?case using Cons.IH Cons.prems(1) by simp
qed simp

lemma redact_string_removes: "redactable u \<Longrightarrow> u \<in> set r \<Longrightarrow> \<not> sublist u (redact_string v r)"
  by (simp add: redact_string_foldl redact_fold)

text \<open>Every string a value holds, keys of dictionaries apart, and every byte string that is text.\<close>

fun log_strings :: "log_value \<Rightarrow> pystr set" where
  "log_strings (LStr s) = {s}"
| "log_strings (LBytes b) = (case utf8_decode b of None \<Rightarrow> {} | Some s \<Rightarrow> {s})"
| "log_strings (LDict kvs) = \<Union> (set (map (\<lambda>(k, v). log_strings v) kvs))"
| "log_strings (LList vs) = \<Union> (set (map log_strings vs))"
| "log_strings (LTuple vs) = \<Union> (set (map log_strings vs))"
| "log_strings LOther = {}"

lemma redact_value_strings:
  "x \<in> log_strings (redact_value r v) \<Longrightarrow> \<exists>s. x = redact_string s r"
proof (induction r v rule: redact_value.induct)
  case (2 r b)
  then show ?case
    by (cases "utf8_decode b") (auto simp: utf8_decode_encode split: if_splits intro: sym)
qed (auto; blast)+

text \<open>C22: After the processor has run, no string and no UTF-8 text among the values of a log
  event, however nested in dictionaries, lists and tuples, contains a registered secret of more than eight characters
  without stars. The names of the event and the keys of dictionaries are not redacted.\<close>

theorem log_redaction_complete:
  assumes "secret \<in> set r" "redactable secret" "(k, v) \<in> set (redaction_processor r event)"
    and "x \<in> log_strings v"
  shows "\<not> sublist secret x"
proof -
  obtain v0 where "v = redact_value r v0"
    using assms(1,3) by (auto simp: redaction_processor_def split: if_splits)
  then show ?thesis using redact_value_strings assms redact_string_removes by blast
qed

theorem log_redaction_complete_witness:
  "\<not> sublist ''live_1234567890'' (redact_string ''key live_1234567890!'' [''live_1234567890''])"
proof -
  let ?s = "''live_1234567890''"
  have h: "?s \<in> set [?s]" "redactable ?s" by (simp_all add: redactable_def)
  have m: "(''event'', LStr (redact_string ''key live_1234567890!'' [?s])) \<in>
      set (redaction_processor [?s] [(''event'', LStr ''key live_1234567890!'')])"
    by (simp add: redaction_processor_def)
  show ?thesis by (rule log_redaction_complete [OF h m]) simp
qed

text \<open>What is not redacted: the keys of the event and of dictionaries in it.\<close>

lemma redaction_keeps_names: "map fst (redaction_processor r event) = map fst event"
  by (simp add: redaction_processor_def case_prod_unfold)

lemma dict_keys_not_redacted:
  "redact_value r (LDict [(secret, LOther)]) = LDict [(secret, LOther)]"
  by simp

text \<open>The registry is a set: unregistering a secret ends its redaction for everyone who registered
  it.\<close>

lemma registry_shared:
  "registry_register s r = Inr r1 \<Longrightarrow> registry_register s r1 = Inr r2 \<Longrightarrow> s \<notin> set (registry_unregister s r2)"
  by (simp add: registry_unregister_def)

lemma short_secret_refused: "length s < 12 \<Longrightarrow> \<exists>e. registry_register s r = Inl e"
  by (simp add: registry_register_def MIN_REDACTABLE_SECRET_LENGTH_def)

end
