(* ===== verification/Supervisor.thy ===== *)
theory Supervisor
  imports Ffmpeg_Worker Event_Bus Database Crypto Credential_Registry
begin

text \<open>
  The orchestrator of \<^verbatim>\<open>app/fanout/supervisor.py\<close>. The record \<open>supervisor\<close> holds its fields and the
  objects it was handed (database, keys, registry, bus). A dictionary is an association list in
  insertion order, a set of worker ids a list. An operation maps the state to the new state and
  the exception it raised, if any; the state changes made before an exception stay. What the
  outside decides is the environment of the call: the clocks, the identifier of a new run, how each
  database transaction ends, what each worker does while it is being stopped and whether its stop
  raises, and which signals of the ingest come while a start is waiting. Otherwise an operation that holds the lock is one
  step; the run-state check \<open>enable_check\<close> that
  \<^verbatim>\<open>enable_target\<close> makes before it takes the lock is a step of its own. What the tasks of the workers and
  their event pumps do while an operation waits is put between the operations, where it is a step of its own
  (\<open>WorkerInput\<close>, \<open>WorkerEvent\<close>). Cancellation of a request's task is not modelled.
\<close>

section \<open>State and environment\<close>

definition HEARTBEAT_STALE_AFTER :: timedelta where
  "HEARTBEAT_STALE_AFTER = seconds 10"

record supervisor =
  sv_db :: database
  sv_key_material :: key_material
  sv_registry :: registry
  sv_loopback_url :: pystr
  sv_run_state :: run_state
  sv_changed_at :: "datetime option"
  sv_targets :: "(pystr \<times> target) list"
  sv_workers :: "(worker_id \<times> ffmpeg_worker) list"
  sv_secrets :: "(worker_id \<times> pystr) list"
  sv_target_workers :: "(pystr \<times> worker_id list) list"
  sv_run_id :: "pystr option"
  sv_bus :: "bus_event event_bus option"
  sv_group_open :: bool
  sv_pumps :: "worker_id list"
  sv_stop_event :: bool
  sv_ready_event :: bool
  sv_heartbeat_ns :: int
  sv_last_drop_total :: int
  sv_decrypt_failures :: "pystr list"

text \<open>A transaction commits, fails before it did anything, or fails at its commit.\<close>

datatype db_outcome = Commits | FailsEarly | FailsAtCommit

record sv_env =
  ev_now :: datetime
  ev_mns :: int
  ev_run_id :: pystr
  ev_db :: "pystr \<Rightarrow> db_outcome"
  ev_crypto :: crypto_lib
  ev_isoformat :: "datetime \<Rightarrow> pystr"
  ev_stop_inputs :: "worker_id \<Rightarrow> fw_timed_input list"
  ev_stop_raises :: "worker_id \<Rightarrow> bool"
  ev_signals :: "pystr \<Rightarrow> bool list"

datatype sv_error =
  SvIllegal run_error | SvKeys key_error | SvTransaction pystr | SvDb db_error | SvValue value_error
| SvCrypto crypto_error | SvTargetType pystr | SvNotRunning | SvStopFailed

type_synonym sv_step = "supervisor \<Rightarrow> supervisor \<times> sv_error option"

definition new_supervisor :: "database \<Rightarrow> key_material \<Rightarrow> registry \<Rightarrow> pystr \<Rightarrow> int \<Rightarrow> supervisor" where
  "new_supervisor d k r url mns =
     \<lparr>sv_db = d, sv_key_material = k, sv_registry = r, sv_loopback_url = url,
      sv_run_state = OFFLINE, sv_changed_at = None, sv_targets = [], sv_workers = [],
      sv_secrets = [], sv_target_workers = [], sv_run_id = None, sv_bus = None,
      sv_group_open = False, sv_pumps = [], sv_stop_event = False, sv_ready_event = False,
      sv_heartbeat_ns = mns, sv_last_drop_total = 0, sv_decrypt_failures = []\<rparr>"

text \<open>Statements in sequence, the first exception ending it, and \<^verbatim>\<open>contextlib.suppress(Exception)\<close>.\<close>

fun steps :: "sv_step list \<Rightarrow> sv_step" where
  "steps [] s = (s, None)"
| "steps (f # fs) s = (case f s of (t, Some e) \<Rightarrow> (t, Some e) | (t, None) \<Rightarrow> steps fs t)"

definition suppress :: "sv_step \<Rightarrow> sv_step" where
  "suppress f s = (fst (f s), None)"

section \<open>Publishing\<close>

definition update_heartbeat :: "sv_env \<Rightarrow> supervisor \<Rightarrow> supervisor" where
  "update_heartbeat env s = s\<lparr>sv_heartbeat_ns := ev_mns env\<rparr>"

definition put_event :: "sv_env \<Rightarrow> pystr option \<Rightarrow> bus_payload \<Rightarrow> supervisor \<Rightarrow> supervisor" where
  "put_event env tid p s =
     (case sv_bus s of
        None \<Rightarrow> s
      | Some b \<Rightarrow> s\<lparr>sv_bus := Some (bus_put b \<lparr>be_at = ev_now env, be_monotonic_ns = ev_mns env,
            be_target_id = tid, be_payload = p\<rparr>)\<rparr>)"

definition publish_run_state :: "sv_env \<Rightarrow> run_state \<Rightarrow> pystr \<Rightarrow> supervisor \<Rightarrow> supervisor" where
  "publish_run_state env previous c s =
     (let s1 = s\<lparr>sv_changed_at := Some (ev_now env)\<rparr>
      in if sv_bus s1 = None then s1
         else update_heartbeat env (put_event env None (RunStateChanged (sv_run_state s1) previous c) s1))"

text \<open>The state the caller expects is not used: the table's answer is published.\<close>

definition set_run_state :: "sv_env \<Rightarrow> run_action \<Rightarrow> pystr \<Rightarrow> sv_step" where
  "set_run_state env ac c s =
     (case run_transition (sv_run_state s) ac of
        Inl e \<Rightarrow> (s, Some (SvIllegal e))
      | Inr t \<Rightarrow> (publish_run_state env (sv_run_state s) c (s\<lparr>sv_run_state := t\<rparr>), None))"

definition publish_target_snapshot ::
    "sv_env \<Rightarrow> pystr \<Rightarrow> target_ui_state \<Rightarrow> worker_snapshot list \<Rightarrow> supervisor \<Rightarrow> supervisor" where
  "publish_target_snapshot env tid ui snaps s = put_event env (Some tid) (TargetSnapshot tid ui snaps) s"

section \<open>Database rows\<close>

definition sv_audit ::
    "sv_env \<Rightarrow> pystr \<Rightarrow> pystr option \<Rightarrow> (pystr \<times> json) list \<Rightarrow> sv_step" where
  "sv_audit env event tid data s =
     (if ev_db env event \<noteq> Commits then (s, Some (SvTransaction event))
      else (case append_audit event None tid data (ev_now env) (sv_db s) of
              Inl e \<Rightarrow> (s, Some (SvDb e))
            | Inr (row, d) \<Rightarrow> (s\<lparr>sv_db := d\<rparr>, None)))"

text \<open>The run id is kept before the commit, so a failing commit leaves an id without a row.\<close>

definition open_run_session :: "sv_env \<Rightarrow> sv_step" where
  "open_run_session env s =
     (if ev_db env ''open_run'' = FailsEarly then (s, Some (SvTransaction ''open_run''))
      else (case history_start (ev_run_id env) [(''trigger'', JString ''user_start'')] (ev_now env) (sv_db s) of
              Inl e \<Rightarrow> (s, Some (SvDb e))
            | Inr (row, d) \<Rightarrow>
                (if ev_db env ''open_run'' = FailsAtCommit
                 then (s\<lparr>sv_run_id := Some (rh_id row)\<rparr>, Some (SvTransaction ''open_run''))
                 else (s\<lparr>sv_run_id := Some (rh_id row), sv_db := d\<rparr>, None))))"

definition close_run_session :: "sv_env \<Rightarrow> pystr \<Rightarrow> sv_step" where
  "close_run_session env reason s =
     (case sv_run_id s of
        None \<Rightarrow> (s, None)
      | Some i \<Rightarrow>
         (let s1 = s\<lparr>sv_run_id := None\<rparr>
          in if ev_db env ''close_run'' \<noteq> Commits then (s1, Some (SvTransaction ''close_run''))
             else (case history_end i reason (ev_now env) None (sv_db s1) of
                     Inl e \<Rightarrow> (s1, Some (SvDb e))
                   | Inr (row, d) \<Rightarrow> (s1\<lparr>sv_db := d\<rparr>, None))))"

text \<open>The credentials of the single-use targets go in one transaction; the audit rows follow.\<close>

definition per_session_ids :: "supervisor \<Rightarrow> pystr list" where
  "per_session_ids s = map tg_id (filter (\<lambda>t. lifetime_for (tg_type t) = PER_SESSION) (map snd (sv_targets s)))"

definition delete_credentials :: "pystr list \<Rightarrow> database \<Rightarrow> pystr list \<times> database" where
  "delete_credentials ids d =
     foldl (\<lambda>(cleared, d) i. case delete_credential_for_target i d of
              (True, d') \<Rightarrow> (cleared @ [i], d') | (False, d') \<Rightarrow> (cleared, d')) ([], d) ids"

definition wipe_per_session_credentials :: "sv_env \<Rightarrow> sv_step" where
  "wipe_per_session_credentials env s =
     (if per_session_ids s = [] then (s, None)
      else if ev_db env ''wipe'' \<noteq> Commits then (s, Some (SvTransaction ''wipe''))
      else (case delete_credentials (per_session_ids s) (sv_db s) of
              (cleared, d) \<Rightarrow>
                steps (map (\<lambda>i. sv_audit env ''vk_session_credential_cleared'' (Some i) []) cleared)
                  (s\<lparr>sv_db := d\<rparr>)))"

section \<open>Reading targets and credentials\<close>

text \<open>A stored credential opens to its key, fails to decrypt (which the callers survive), or raises
  outside their \<^verbatim>\<open>try\<close>: a salt of the wrong length, or a plaintext that is not UTF-8.\<close>

datatype opened_credential = Opened pystr | Undecryptable | OpenRaised crypto_error

definition open_credential :: "crypto_lib \<Rightarrow> bytes \<Rightarrow> credential_row \<Rightarrow> opened_credential" where
  "open_credential L kek c =
     (case build_credential_aad (cr_salt c) of
        Inl e \<Rightarrow> OpenRaised e
      | Inr aad \<Rightarrow>
         (case aead_decrypt L kek (cr_nonce c) (cr_ciphertext c) aad of
            Inl e \<Rightarrow> Undecryptable
          | Inr pt \<Rightarrow> (case utf8_decode pt of None \<Rightarrow> OpenRaised DecodeError | Some key \<Rightarrow> Opened key)))"

type_synonym runnable = "target_row \<times> target \<times> pystr option"

text \<open>One row: its aggregate and key, and the ids whose decryption failed.\<close>

definition load_row ::
    "crypto_lib \<Rightarrow> bytes \<Rightarrow> database \<Rightarrow> target_row \<Rightarrow> sv_error + runnable \<times> pystr list" where
  "load_row L kek d t =
     (let cred = credential_for_target d (tr_id t)
      in case target_dto_to_domain t cred of
           None \<Rightarrow> Inl (SvTargetType (tr_type t))
         | Some dm \<Rightarrow>
            (case cred of
               None \<Rightarrow> Inr ((t, dm, None), [])
             | Some c \<Rightarrow>
                (case open_credential L kek c of
                   OpenRaised e \<Rightarrow> Inl (SvCrypto e)
                 | Undecryptable \<Rightarrow> Inr ((t, dm, None), [tr_id t])
                 | Opened key \<Rightarrow> Inr ((t, dm, Some key), []))))"

fun load_rows ::
    "crypto_lib \<Rightarrow> bytes \<Rightarrow> database \<Rightarrow> target_row list \<Rightarrow> pystr list \<times> (sv_error + runnable list)" where
  "load_rows L kek d [] = ([], Inr [])"
| "load_rows L kek d (t # ts) =
     (case load_row L kek d t of
        Inl e \<Rightarrow> ([], Inl e)
      | Inr (p, fs) \<Rightarrow>
         (case load_rows L kek d ts of
            (gs, Inl e) \<Rightarrow> (fs @ gs, Inl e)
          | (gs, Inr ps) \<Rightarrow> (fs @ gs, Inr (p # ps))))"

definition load_runnable_targets :: "sv_env \<Rightarrow> supervisor \<Rightarrow> supervisor \<times> (sv_error + runnable list)" where
  "load_runnable_targets env s =
     (case require_ready (sv_key_material s) of
        Inl e \<Rightarrow> (s, Inl (SvKeys e))
      | Inr ds \<Rightarrow>
          (if ev_db env ''load'' \<noteq> Commits then (s, Inl (SvTransaction ''load''))
           else (case load_rows (ev_crypto env) (dk_stream_key_kek ds) (sv_db s) (list_enabled_targets (sv_db s)) of
                   (fs, r) \<Rightarrow> (s\<lparr>sv_decrypt_failures := sv_decrypt_failures s @ fs\<rparr>, r))))"

definition reload_target :: "sv_env \<Rightarrow> pystr \<Rightarrow> supervisor \<Rightarrow> sv_error + runnable option" where
  "reload_target env tid s =
     (case require_ready (sv_key_material s) of
        Inl e \<Rightarrow> Inl (SvKeys e)
      | Inr ds \<Rightarrow>
          (if ev_db env ''reload'' \<noteq> Commits then Inl (SvTransaction ''reload'')
           else (case target_by_id (sv_db s) tid of
              None \<Rightarrow> Inr None
            | Some t \<Rightarrow>
               (case load_row (ev_crypto env) (dk_stream_key_kek ds) (sv_db s) t of
                  Inl e \<Rightarrow> Inl e | Inr (p, fs) \<Rightarrow> Inr (Some p)))))"

text \<open>The audit rows of decryption failures: each id is popped, then its row is tried.\<close>

fun flush_failures :: "sv_env \<Rightarrow> pystr list \<Rightarrow> supervisor \<Rightarrow> supervisor" where
  "flush_failures env [] s = s"
| "flush_failures env (i # is) s =
     flush_failures env is
       (fst (sv_audit env ''credential_decrypt_failed'' (Some i)
          [(''reason'', JString ''aead_authentication_failed_or_kek_mismatch'')]
          (s\<lparr>sv_decrypt_failures := is\<rparr>)))"

section \<open>Starting and stopping workers\<close>

definition roles_for :: "target \<Rightarrow> worker_role list" where
  "roles_for t = (if tg_type t = YOUTUBE \<and> tg_backup_enabled t then [PRIMARY, BACKUP] else [PRIMARY])"

definition unregister_secret :: "worker_id \<Rightarrow> supervisor \<Rightarrow> supervisor" where
  "unregister_secret i s =
     (case map_of (sv_secrets s) i of
        None \<Rightarrow> s
      | Some key \<Rightarrow> s\<lparr>sv_secrets := AList.delete i (sv_secrets s),
                      sv_registry := registry_unregister key (sv_registry s)\<rparr>)"

definition discard_from :: "pystr \<Rightarrow> worker_id \<Rightarrow> (pystr \<times> worker_id list) list \<Rightarrow> (pystr \<times> worker_id list) list" where
  "discard_from tid i d = AList.map_entry tid (removeAll i) d"

definition setdefault :: "pystr \<Rightarrow> (pystr \<times> worker_id list) list \<Rightarrow> (pystr \<times> worker_id list) list" where
  "setdefault tid d = (if map_of d tid = None then AList.update tid [] d else d)"

definition add_worker_id :: "pystr \<Rightarrow> worker_id \<Rightarrow> (pystr \<times> worker_id list) list \<Rightarrow> (pystr \<times> worker_id list) list" where
  "add_worker_id tid i d = AList.map_entry tid (List.insert i) (setdefault tid d)"

text \<open>The guarded part: build the worker, enter it, start it, start its pump.\<close>

definition launch_worker :: "sv_env \<Rightarrow> worker_spec \<Rightarrow> sv_step" where
  "launch_worker env spec s =
     (case new_ffmpeg_worker spec None (ev_now env) (ev_mns env) of
        Inl e \<Rightarrow> (s, Some (SvValue e))
      | Inr w \<Rightarrow>
         (let i = sc_worker_id spec;
              s1 = s\<lparr>sv_workers := AList.update i (fw_start w (ev_now env)) (sv_workers s),
                     sv_target_workers := add_worker_id (wid_target i) i (sv_target_workers s)\<rparr>
          in if \<not> sv_group_open s1 then (s1, Some SvNotRunning)
             else (s1\<lparr>sv_pumps := sv_pumps s1 @ [i]\<rparr>, None)))"

text \<open>The handler of the guarded part undoes the entries and raises again.\<close>

definition abandon_worker :: "worker_id \<Rightarrow> supervisor \<Rightarrow> supervisor" where
  "abandon_worker i s =
     (let s1 = unregister_secret i s
      in s1\<lparr>sv_workers := AList.delete i (sv_workers s1),
            sv_target_workers := discard_from (wid_target i) i (sv_target_workers s1)\<rparr>)"

definition launch_guarded :: "sv_env \<Rightarrow> worker_spec \<Rightarrow> sv_step" where
  "launch_guarded env spec s =
     (case launch_worker env spec s of
        (s1, None) \<Rightarrow> (s1, None)
      | (s1, Some e) \<Rightarrow> (abandon_worker (sc_worker_id spec) s1, Some e))"

definition spawn_worker :: "sv_env \<Rightarrow> target_row \<Rightarrow> target \<Rightarrow> pystr \<Rightarrow> worker_role \<Rightarrow> sv_step" where
  "spawn_worker env t dm key role s =
     (let i = \<lparr>wid_target = tg_id dm, wid_role = role\<rparr>
      in if map_of (sv_workers s) i \<noteq> None then (s, None)
         else (case compose_out_url (tg_type dm) (tr_url t) key role of
            Inl e \<Rightarrow> (s, Some (SvValue e))
          | Inr url \<Rightarrow>
             (case registry_register key (sv_registry s) of
                Inl e \<Rightarrow> (s, Some (SvValue e))
              | Inr reg \<Rightarrow>
                 launch_guarded env
                   \<lparr>sc_worker_id = i, sc_target_type = tg_type dm, sc_input_url = sv_loopback_url s,
                    sc_output_url = url\<rparr>
                   (s\<lparr>sv_registry := reg, sv_secrets := AList.update i key (sv_secrets s)\<rparr>))))"

definition spawn_workers_for_target :: "sv_env \<Rightarrow> target_row \<Rightarrow> target \<Rightarrow> pystr \<Rightarrow> sv_step" where
  "spawn_workers_for_target env t dm key = steps (map (spawn_worker env t dm key) (roles_for dm))"

text \<open>A worker after its \<^verbatim>\<open>stop\<close> was called: the request, then what the environment lets happen.\<close>

definition worker_stop :: "sv_env \<Rightarrow> worker_id \<Rightarrow> ffmpeg_worker \<Rightarrow> ffmpeg_worker" where
  "worker_stop env i w =
     (case fw_run (fw_stop_request w, ev_now env) (ev_stop_inputs env i) of
        None \<Rightarrow> fw_stop_request w | Some (v, t) \<Rightarrow> v)"

definition tear_down_worker :: "sv_env \<Rightarrow> pystr \<Rightarrow> supervisor \<Rightarrow> worker_id \<Rightarrow> supervisor" where
  "tear_down_worker env tid s i =
     (if map_of (sv_workers s) i = None then s
      else (let s1 = unregister_secret i (s\<lparr>sv_workers := AList.map_entry i (worker_stop env i) (sv_workers s)\<rparr>)
            in s1\<lparr>sv_workers := AList.delete i (sv_workers s1),
                  sv_target_workers := discard_from tid i (sv_target_workers s1)\<rparr>))"

definition workers_of :: "pystr \<Rightarrow> supervisor \<Rightarrow> worker_id list" where
  "workers_of tid s = (case map_of (sv_target_workers s) tid of None \<Rightarrow> [] | Some is \<Rightarrow> is)"

definition tear_down_workers_for_target :: "sv_env \<Rightarrow> pystr \<Rightarrow> supervisor \<Rightarrow> supervisor" where
  "tear_down_workers_for_target env tid s = foldl (tear_down_worker env tid) s (workers_of tid s)"

text \<open>All stops run at once. When one raises, the group fails and nothing is cleaned up.\<close>

definition forget_worker :: "supervisor \<Rightarrow> worker_id \<Rightarrow> supervisor" where
  "forget_worker s i =
     (let s1 = unregister_secret i s
      in s1\<lparr>sv_workers := AList.delete i (sv_workers s1),
            sv_target_workers := map (\<lambda>(tid, is). (tid, removeAll i is)) (sv_target_workers s1)\<rparr>)"

definition tear_down_all_workers :: "sv_env \<Rightarrow> sv_step" where
  "tear_down_all_workers env s =
     (let ids = map fst (sv_workers s);
          s1 = s\<lparr>sv_workers := map (\<lambda>(i, w). (i, worker_stop env i w)) (sv_workers s)\<rparr>
      in if \<exists>i\<in>set ids. ev_stop_raises env i then (s1, Some SvStopFailed)
         else (foldl forget_worker s1 ids, None))"

section \<open>Signals from the ingest\<close>

text \<open>They take no lock, so they also come while a start waits for its last audit row or for the workers it tears
  down again: \<open>ev_signals\<close> is what comes at that wait, \<open>True\<close> for a publish that began. In every other wait of an
  operation the run state is one the signals leave alone, or one the rest of the operation does not read.\<close>

definition notify_obs_publish_began :: "sv_env \<Rightarrow> supervisor \<Rightarrow> supervisor" where
  "notify_obs_publish_began env s =
     (if sv_run_state s \<noteq> ARMED then s
      else (case run_transition (sv_run_state s) OBS_PUBLISH_BEGAN of
              Inl e \<Rightarrow> s
            | Inr t \<Rightarrow> publish_run_state env ARMED ''OBS started publishing'' (s\<lparr>sv_run_state := t\<rparr>)))"

definition notify_obs_publish_ended :: "sv_env \<Rightarrow> supervisor \<Rightarrow> supervisor" where
  "notify_obs_publish_ended env s =
     (if sv_run_state s \<noteq> LIVE then s
      else (case run_transition (sv_run_state s) OBS_PUBLISH_ENDED of
              Inl e \<Rightarrow> s
            | Inr t \<Rightarrow> publish_run_state env LIVE ''OBS stopped publishing'' (s\<lparr>sv_run_state := t\<rparr>)))"

definition obs_signals :: "sv_env \<Rightarrow> pystr \<Rightarrow> supervisor \<Rightarrow> supervisor" where
  "obs_signals env await s =
     foldl (\<lambda>s began. if began then notify_obs_publish_began env s else notify_obs_publish_ended env s) s (ev_signals env await)"

section \<open>Run control\<close>

definition start_pair :: "sv_env \<Rightarrow> runnable \<Rightarrow> sv_step" where
  "start_pair env p s =
     (case p of (t, dm, key) \<Rightarrow>
        if \<not> tg_enabled dm then (s, None)
        else (case key of None \<Rightarrow> (s, None) | Some k \<Rightarrow> spawn_workers_for_target env t dm k s))"

definition load_and_spawn :: "sv_env \<Rightarrow> sv_step" where
  "load_and_spawn env s =
     (case load_runnable_targets env s of
        (s1, Inl e) \<Rightarrow> (s1, Some e)
      | (s1, Inr pairs) \<Rightarrow>
         (let s2 = flush_failures env (sv_decrypt_failures s1) s1;
              s3 = s2\<lparr>sv_targets := dict_of (map (\<lambda>(t, dm, key). (tr_id t, dm)) pairs),
                      sv_target_workers := dict_of (map (\<lambda>(t, dm, key). (tr_id t, [])) pairs)\<rparr>
          in steps (map (start_pair env) pairs) s3))"

definition run_started_audit :: "sv_env \<Rightarrow> sv_step" where
  "run_started_audit env s =
     sv_audit env ''run_started'' None
       [(''run_id'', case sv_run_id s of None \<Rightarrow> JNull | Some i \<Rightarrow> JString i),
        (''target_count'', JInt (int (length (sv_target_workers s)))),
        (''worker_count'', JInt (int (length (sv_workers s))))] (obs_signals env ''run_started'' s)"

definition start_body :: "sv_env \<Rightarrow> sv_step" where
  "start_body env = steps [open_run_session env, load_and_spawn env,
     set_run_state env WORKERS_SPAWNED ''all enabled targets have running workers'', run_started_audit env]"

definition start_rollback :: "sv_env \<Rightarrow> sv_step" where
  "start_rollback env = steps [suppress (\<lambda>s. tear_down_all_workers env (obs_signals env ''teardown'' s)),
     suppress (set_run_state env UNRECOVERABLE_FAILED ''failure during start_run''),
     suppress (close_run_session env ''error'')]"

definition start_run :: "sv_env \<Rightarrow> sv_step" where
  "start_run env s =
     (if sv_run_state s \<noteq> OFFLINE
      then (s, Some (SvIllegal (IllegalRunStateTransitionError (sv_run_state s) START_REQUESTED)))
      else (case set_run_state env START_REQUESTED ''user pressed START'' s of
              (s1, Some e) \<Rightarrow> (s1, Some e)
            | (s1, None) \<Rightarrow>
               (case start_body env s1 of
                  (s2, None) \<Rightarrow> (s2, None)
                | (s2, Some e) \<Rightarrow> (fst (start_rollback env s2), Some e))))"

definition stop_cleanup :: "sv_env \<Rightarrow> pystr \<Rightarrow> sv_step" where
  "stop_cleanup env reason = steps [suppress (wipe_per_session_credentials env),
     suppress (close_run_session env reason),
     suppress (set_run_state env WORKERS_DRAINED ''all workers drained''),
     suppress (sv_audit env ''run_stopped'' None [(''reason'', JString reason)])]"

definition stop_run :: "sv_env \<Rightarrow> pystr \<Rightarrow> sv_step" where
  "stop_run env reason s =
     (if sv_run_state s = OFFLINE \<or> sv_run_state s = STOPPING \<or> sv_run_state s = ERROR then (s, None)
      else (case set_run_state env STOP_REQUESTED (''stop requested ('' @ reason @ '')'') s of
              (s1, Some e) \<Rightarrow> (s1, Some e)
            | (s1, None) \<Rightarrow>
               (case tear_down_all_workers env s1 of
                  (s2, teardown_exc) \<Rightarrow> (fst (stop_cleanup env reason s2), teardown_exc))))"

definition sv_stop :: "sv_env \<Rightarrow> supervisor \<Rightarrow> supervisor" where
  "sv_stop env s =
     (let s1 = (if sv_run_state s \<noteq> OFFLINE \<and> sv_run_state s \<noteq> ERROR
                then fst (suppress (stop_run env ''user_stop'') s) else s)
      in s1\<lparr>sv_stop_event := True\<rparr>)"

text \<open>\<^verbatim>\<open>run\<close>: up to the wait for the stop event, and after it.\<close>

definition run_begin :: "sv_env \<Rightarrow> bus_event event_bus \<Rightarrow> sv_step" where
  "run_begin env b s =
     (case sv_audit env ''supervisor_started'' None [(''build_at'', JString (ev_isoformat env (ev_now env)))]
             (update_heartbeat env (s\<lparr>sv_bus := Some b\<rparr>)) of
        (s1, Some e) \<Rightarrow> (s1, Some e)
      | (s1, None) \<Rightarrow> (s1\<lparr>sv_group_open := True, sv_ready_event := True\<rparr>, None))"

definition run_end :: "supervisor \<Rightarrow> supervisor" where
  "run_end s = s\<lparr>sv_group_open := False\<rparr>"

section \<open>Control of one target\<close>

definition enable_check :: "supervisor \<Rightarrow> bool" where
  "enable_check s \<longleftrightarrow> sv_run_state s = STARTING \<or> sv_run_state s = ARMED \<or> sv_run_state s = LIVE"

definition enable_locked :: "sv_env \<Rightarrow> pystr \<Rightarrow> sv_step" where
  "enable_locked env tid s =
     (case reload_target env tid s of
        Inl e \<Rightarrow> (s, Some e)
      | Inr None \<Rightarrow> (s, None)
      | Inr (Some (t, dm, key)) \<Rightarrow>
         (let s1 = s\<lparr>sv_targets := AList.update (tg_id dm) dm (sv_targets s),
                     sv_target_workers := setdefault (tg_id dm) (sv_target_workers s)\<rparr>
          in if \<not> tg_enabled dm then (s1, None)
             else (case key of None \<Rightarrow> (s1, None) | Some k \<Rightarrow> spawn_workers_for_target env t dm k s1)))"

text \<open>Without another operation between the check and the lock.\<close>

definition enable_target :: "sv_env \<Rightarrow> pystr \<Rightarrow> sv_step" where
  "enable_target env tid s = (if enable_check s then enable_locked env tid s else (s, None))"

definition disable_target :: "sv_env \<Rightarrow> pystr \<Rightarrow> supervisor \<Rightarrow> supervisor" where
  "disable_target env tid s = tear_down_workers_for_target env tid s"

definition reset_target_worker :: "pystr \<Rightarrow> worker_role \<Rightarrow> supervisor \<Rightarrow> supervisor" where
  "reset_target_worker tid role s =
     s\<lparr>sv_workers := AList.map_entry \<lparr>wid_target = tid, wid_role = role\<rparr> fw_user_reset (sv_workers s)\<rparr>"

section \<open>Worker events and ticks\<close>

text \<open>The snapshots of the expected roles; the roles are a set, whose order the model fixes.\<close>

definition role_snapshots :: "target \<Rightarrow> worker_snapshot list" where
  "role_snapshots t =
     List.map_filter (worker_set_role t) (filter (\<lambda>r. r \<in> expected_worker_roles t) [PRIMARY, BACKUP])"

definition failed_open_cause :: "worker_event \<Rightarrow> pystr option" where
  "failed_open_cause e =
     (if we_kind e \<noteq> K_STATE then None
      else (case we_payload e of StateEvent n p c \<Rightarrow> if n = W_FAILED_OPEN then Some c else None | _ \<Rightarrow> None))"

definition handle_worker_event :: "sv_env \<Rightarrow> worker_id \<Rightarrow> worker_event \<Rightarrow> supervisor \<Rightarrow> supervisor" where
  "handle_worker_event env i e s =
     (case (map_of (sv_workers s) i, map_of (sv_targets s) (wid_target i)) of
        (Some w, Some t) \<Rightarrow>
          (case fw_snapshot w (ev_now env) of
             (w', snap) \<Rightarrow>
               (let t' = ingest_snapshot t snap;
                    s1 = s\<lparr>sv_workers := AList.update i w' (sv_workers s),
                           sv_targets := AList.update (wid_target i) t' (sv_targets s)\<rparr>;
                    s2 = publish_target_snapshot env (tg_id t') (compute_ui_state t') (role_snapshots t') s1
                in case failed_open_cause e of
                     None \<Rightarrow> s2
                   | Some c \<Rightarrow> fst (suppress (sv_audit env ''worker_failed_open'' (Some (wid_target i))
                        [(''role'', JString (role_value (wid_role i))), (''cause'', JString c)]) s2)))
      | _ \<Rightarrow> s)"

definition worker_event_pump :: "sv_env \<Rightarrow> worker_id \<Rightarrow> worker_event \<Rightarrow> supervisor \<Rightarrow> supervisor" where
  "worker_event_pump env i e s =
     (if i \<notin> set (sv_pumps s) then s else handle_worker_event env i e (update_heartbeat env s))"

definition drop_alert_tick :: "sv_env \<Rightarrow> supervisor \<Rightarrow> supervisor" where
  "drop_alert_tick env s =
     (case sv_bus s of
        None \<Rightarrow> s
      | Some b \<Rightarrow>
         (let n = dropped_total b
          in if n > sv_last_drop_total s
             then put_event env None (DropAlert n) (s\<lparr>sv_last_drop_total := n\<rparr>)
             else s))"

text \<open>A sample is the total, the per-worker list, the memory and the ingest rate; \<open>None\<close> when the
  sampler raised.\<close>

definition host_stats_tick ::
    "sv_env \<Rightarrow> (rat \<times> (worker_id \<times> rat) list \<times> int \<times> rat option) option \<Rightarrow> supervisor \<Rightarrow> supervisor" where
  "host_stats_tick env sample s =
     (if sv_bus s = None then s
      else (case sample of
              None \<Rightarrow> s
            | Some (cpu, by_target, rss, kbps) \<Rightarrow>
                put_event env None (HostStats cpu
                  (map (\<lambda>(i, pct). \<lparr>hc_worker_id = i, hc_cpu_pct = pct\<rparr>) by_target) rss kbps) s))"

section \<open>Reads\<close>

definition heartbeat_age :: "int \<Rightarrow> supervisor \<Rightarrow> timedelta" where
  "heartbeat_age mns s = timedelta_of_seconds (of_int (mns - sv_heartbeat_ns s) / 10 ^ 9)"

definition heartbeat_is_stale :: "int \<Rightarrow> supervisor \<Rightarrow> bool" where
  "heartbeat_is_stale mns s \<longleftrightarrow> heartbeat_age mns s > HEARTBEAT_STALE_AFTER"

definition sv_recent_log_lines :: "pystr \<Rightarrow> worker_role \<Rightarrow> supervisor \<Rightarrow> bytes list" where
  "sv_recent_log_lines tid role s =
     (case map_of (sv_workers s) \<lparr>wid_target = tid, wid_role = role\<rparr> of
        None \<Rightarrow> [] | Some w \<Rightarrow> fw_recent_log_lines w)"

definition worker_pids :: "supervisor \<Rightarrow> (worker_id \<times> int) list" where
  "worker_pids s =
     List.map_filter (\<lambda>(i, w). map_option (Pair i) (fw_pid w)) (sv_workers s)"

section \<open>Everything that can happen\<close>

text \<open>One step of the program as the supervisor sees it: a call with its environment, an input of a
  running worker, or another component writing the database or the keys.\<close>

datatype sv_op =
  StartRun | StopRun pystr | Shutdown | EnableLocked pystr | DisableTarget pystr
| ResetWorker pystr worker_role | ObsBegan | ObsEnded | WorkerEvent worker_id worker_event
| DropTick | HostTick "(rat \<times> (worker_id \<times> rat) list \<times> int \<times> rat option) option" | HeartbeatTick
| RunBegin "bus_event event_bus" | RunEnd | WorkerInput worker_id fw_input
| DatabaseWrite database | KeyChange key_material | BusDrain

definition worker_input :: "sv_env \<Rightarrow> worker_id \<Rightarrow> fw_input \<Rightarrow> supervisor \<Rightarrow> supervisor" where
  "worker_input env i inp s =
     s\<lparr>sv_workers := AList.map_entry i
         (\<lambda>w. case fw_step w inp (ev_now env) (ev_mns env) of None \<Rightarrow> w | Some w' \<Rightarrow> w') (sv_workers s)\<rparr>"

definition bus_drain_step :: "supervisor \<Rightarrow> supervisor" where
  "bus_drain_step s =
     (case sv_bus s of None \<Rightarrow> s
      | Some b \<Rightarrow> (case bus_drain b of None \<Rightarrow> s | Some (batch, b') \<Rightarrow> s\<lparr>sv_bus := Some b'\<rparr>))"

fun sv_do :: "supervisor \<Rightarrow> sv_op \<times> sv_env \<Rightarrow> supervisor" where
  "sv_do s (StartRun, env) = fst (start_run env s)"
| "sv_do s (StopRun reason, env) = fst (stop_run env reason s)"
| "sv_do s (Shutdown, env) = sv_stop env s"
| "sv_do s (EnableLocked tid, env) = fst (enable_locked env tid s)"
| "sv_do s (DisableTarget tid, env) = disable_target env tid s"
| "sv_do s (ResetWorker tid role, env) = reset_target_worker tid role s"
| "sv_do s (ObsBegan, env) = notify_obs_publish_began env s"
| "sv_do s (ObsEnded, env) = notify_obs_publish_ended env s"
| "sv_do s (WorkerEvent i e, env) = worker_event_pump env i e s"
| "sv_do s (DropTick, env) = drop_alert_tick env s"
| "sv_do s (HostTick x, env) = host_stats_tick env x s"
| "sv_do s (HeartbeatTick, env) = update_heartbeat env s"
| "sv_do s (RunBegin b, env) = fst (run_begin env b s)"
| "sv_do s (RunEnd, env) = run_end s"
| "sv_do s (WorkerInput i inp, env) = worker_input env i inp s"
| "sv_do s (DatabaseWrite d, env) = s\<lparr>sv_db := d\<rparr>"
| "sv_do s (KeyChange k, env) = s\<lparr>sv_key_material := k\<rparr>"
| "sv_do s (BusDrain, env) = bus_drain_step s"

definition sv_run :: "supervisor \<Rightarrow> (sv_op \<times> sv_env) list \<Rightarrow> supervisor" where
  "sv_run s ops = foldl sv_do s ops"

section \<open>What each operation leaves alone\<close>

lemma suppress_simps [simp]: "fst (suppress f s) = fst (f s)" "snd (suppress f s) = None"
  by (simp_all add: suppress_def)

lemma steps_append: "steps (fs @ gs) s = (case steps fs s of (t, Some e) \<Rightarrow> (t, Some e) | (t, None) \<Rightarrow> steps gs t)"
  by (induction fs s rule: steps.induct) (auto split: prod.split option.split)

text \<open>A property every statement keeps is kept by the sequence, whichever statement ends it.\<close>

lemma steps_invariant:
  "(\<And>f t. f \<in> set fs \<Longrightarrow> P t \<Longrightarrow> P (fst (f t))) \<Longrightarrow> P s \<Longrightarrow> P (fst (steps fs s))"
proof (induction fs arbitrary: s)
  case (Cons f fs)
  have "P (fst (f s))" using Cons.prems by simp
  then show ?case using Cons.IH [of "fst (f s)"] Cons.prems(1)
    by (cases "f s"; cases "snd (f s)") auto
qed simp

lemma put_event_frame [simp]:
  "sv_db (put_event env t p s) = sv_db s" "sv_run_state (put_event env t p s) = sv_run_state s"
  "sv_workers (put_event env t p s) = sv_workers s" "sv_secrets (put_event env t p s) = sv_secrets s"
  "sv_target_workers (put_event env t p s) = sv_target_workers s"
  "sv_registry (put_event env t p s) = sv_registry s" "sv_targets (put_event env t p s) = sv_targets s"
  "sv_run_id (put_event env t p s) = sv_run_id s" "sv_group_open (put_event env t p s) = sv_group_open s"
  "sv_key_material (put_event env t p s) = sv_key_material s"
  "sv_loopback_url (put_event env t p s) = sv_loopback_url s"
  "sv_decrypt_failures (put_event env t p s) = sv_decrypt_failures s"
  "sv_pumps (put_event env t p s) = sv_pumps s"
  by (simp_all add: put_event_def split: option.split)

lemma publish_frame [simp]:
  "sv_db (publish_run_state env q c s) = sv_db s"
  "sv_run_state (publish_run_state env q c s) = sv_run_state s"
  "sv_workers (publish_run_state env q c s) = sv_workers s"
  "sv_secrets (publish_run_state env q c s) = sv_secrets s"
  "sv_target_workers (publish_run_state env q c s) = sv_target_workers s"
  "sv_registry (publish_run_state env q c s) = sv_registry s"
  "sv_targets (publish_run_state env q c s) = sv_targets s"
  "sv_run_id (publish_run_state env q c s) = sv_run_id s"
  "sv_group_open (publish_run_state env q c s) = sv_group_open s"
  "sv_key_material (publish_run_state env q c s) = sv_key_material s"
  "sv_loopback_url (publish_run_state env q c s) = sv_loopback_url s"
  "sv_decrypt_failures (publish_run_state env q c s) = sv_decrypt_failures s"
  "sv_pumps (publish_run_state env q c s) = sv_pumps s"
  by (simp_all add: publish_run_state_def update_heartbeat_def Let_def)

lemma set_run_state_frame [simp]:
  "sv_db (fst (set_run_state env a c s)) = sv_db s"
  "sv_workers (fst (set_run_state env a c s)) = sv_workers s"
  "sv_secrets (fst (set_run_state env a c s)) = sv_secrets s"
  "sv_target_workers (fst (set_run_state env a c s)) = sv_target_workers s"
  "sv_registry (fst (set_run_state env a c s)) = sv_registry s"
  "sv_targets (fst (set_run_state env a c s)) = sv_targets s"
  "sv_run_id (fst (set_run_state env a c s)) = sv_run_id s"
  "sv_group_open (fst (set_run_state env a c s)) = sv_group_open s"
  "sv_key_material (fst (set_run_state env a c s)) = sv_key_material s"
  "sv_loopback_url (fst (set_run_state env a c s)) = sv_loopback_url s"
  "sv_decrypt_failures (fst (set_run_state env a c s)) = sv_decrypt_failures s"
  by (simp_all add: set_run_state_def split: sum.split)

lemma obs_notify_frame [simp]:
  "sv_db (notify_obs_publish_began env s) = sv_db s" "sv_db (notify_obs_publish_ended env s) = sv_db s"
  "sv_workers (notify_obs_publish_began env s) = sv_workers s" "sv_workers (notify_obs_publish_ended env s) = sv_workers s"
  "sv_secrets (notify_obs_publish_began env s) = sv_secrets s" "sv_secrets (notify_obs_publish_ended env s) = sv_secrets s"
  "sv_target_workers (notify_obs_publish_began env s) = sv_target_workers s"
  "sv_target_workers (notify_obs_publish_ended env s) = sv_target_workers s"
  "sv_registry (notify_obs_publish_began env s) = sv_registry s" "sv_registry (notify_obs_publish_ended env s) = sv_registry s"
  "sv_targets (notify_obs_publish_began env s) = sv_targets s" "sv_targets (notify_obs_publish_ended env s) = sv_targets s"
  "sv_run_id (notify_obs_publish_began env s) = sv_run_id s" "sv_run_id (notify_obs_publish_ended env s) = sv_run_id s"
  "sv_key_material (notify_obs_publish_began env s) = sv_key_material s"
  "sv_key_material (notify_obs_publish_ended env s) = sv_key_material s"
  by (simp_all add: notify_obs_publish_began_def notify_obs_publish_ended_def split: sum.split)

lemma obs_signals_frame [simp]:
  "sv_db (obs_signals env k s) = sv_db s" "sv_workers (obs_signals env k s) = sv_workers s"
  "sv_secrets (obs_signals env k s) = sv_secrets s" "sv_target_workers (obs_signals env k s) = sv_target_workers s"
  "sv_registry (obs_signals env k s) = sv_registry s" "sv_targets (obs_signals env k s) = sv_targets s"
  "sv_run_id (obs_signals env k s) = sv_run_id s" "sv_key_material (obs_signals env k s) = sv_key_material s"
proof -
  let ?P = "\<lambda>t. sv_db t = sv_db s \<and> sv_workers t = sv_workers s \<and> sv_secrets t = sv_secrets s \<and>
    sv_target_workers t = sv_target_workers s \<and> sv_registry t = sv_registry s \<and> sv_targets t = sv_targets s \<and>
    sv_run_id t = sv_run_id s \<and> sv_key_material t = sv_key_material s"
  have "?P t \<Longrightarrow> ?P (foldl (\<lambda>s began. if began then notify_obs_publish_began env s else notify_obs_publish_ended env s) t bs)" for t bs
    by (induction bs arbitrary: t) simp_all
  from this [of s "ev_signals env k"] have "?P (obs_signals env k s)" by (simp add: obs_signals_def)
  then show "sv_db (obs_signals env k s) = sv_db s" "sv_workers (obs_signals env k s) = sv_workers s"
    "sv_secrets (obs_signals env k s) = sv_secrets s" "sv_target_workers (obs_signals env k s) = sv_target_workers s"
    "sv_registry (obs_signals env k s) = sv_registry s" "sv_targets (obs_signals env k s) = sv_targets s"
    "sv_run_id (obs_signals env k s) = sv_run_id s" "sv_key_material (obs_signals env k s) = sv_key_material s" by blast+
qed

lemma set_run_state_ok:
  "run_transition (sv_run_state s) a = Inr t \<Longrightarrow>
    snd (set_run_state env a c s) = None \<and> sv_run_state (fst (set_run_state env a c s)) = t"
  by (simp add: set_run_state_def)

text \<open>Writes to the database change the database only.\<close>

definition same_but_db :: "supervisor \<Rightarrow> supervisor \<Rightarrow> bool" where
  "same_but_db s t \<longleftrightarrow> (\<exists>d. t = s\<lparr>sv_db := d\<rparr>)"

lemma same_but_db_refl [simp]: "same_but_db s s"
  unfolding same_but_db_def by (rule exI [of _ "sv_db s"]) simp

lemma same_but_db_trans: "same_but_db s t \<Longrightarrow> same_but_db t u \<Longrightarrow> same_but_db s u"
  unfolding same_but_db_def by auto

lemma same_but_db_fields:
  assumes "same_but_db s t"
  shows "sv_run_state t = sv_run_state s" "sv_workers t = sv_workers s" "sv_secrets t = sv_secrets s"
    "sv_target_workers t = sv_target_workers s" "sv_registry t = sv_registry s"
    "sv_targets t = sv_targets s" "sv_run_id t = sv_run_id s" "sv_group_open t = sv_group_open s"
    "sv_key_material t = sv_key_material s" "sv_loopback_url t = sv_loopback_url s" "sv_bus t = sv_bus s"
    "sv_decrypt_failures t = sv_decrypt_failures s" "sv_pumps t = sv_pumps s"
  using assms by (auto simp: same_but_db_def)

lemma sv_audit_db: "same_but_db s (fst (sv_audit env e t x s))"
proof -
  have "same_but_db s (s\<lparr>sv_db := d\<rparr>)" for d by (auto simp: same_but_db_def)
  then show ?thesis by (auto simp: sv_audit_def split: sum.split)
qed

lemma sv_audits_db: "same_but_db s (fst (steps (map (\<lambda>i. sv_audit env e (f i) x) is) s))"
  by (rule steps_invariant [where P = "same_but_db s"]) (auto intro: same_but_db_trans sv_audit_db)

lemma wipe_db: "same_but_db s (fst (wipe_per_session_credentials env s))"
proof -
  have "same_but_db s (s\<lparr>sv_db := d\<rparr>)" for d by (auto simp: same_but_db_def)
  then show ?thesis
    by (auto simp: wipe_per_session_credentials_def split: prod.split intro: same_but_db_trans sv_audits_db)
qed

section \<open>Workers, secrets and target lists stay in step\<close>

text \<open>Every registered worker is in a legal state and has its secret on file, no other worker has,
  and a target lists only running workers of its own.\<close>

definition keyed_ok ::
    "(worker_id \<times> ffmpeg_worker) list \<Rightarrow> (worker_id \<times> pystr) list \<Rightarrow> (pystr \<times> worker_id list) list \<Rightarrow> bool" where
  "keyed_ok ws ss tw \<longleftrightarrow>
     distinct (map fst ws) \<and> (\<forall>i. (map_of ss i = None) = (map_of ws i = None)) \<and>
     (\<forall>i w. map_of ws i = Some w \<longrightarrow> fw_ok w) \<and>
     (\<forall>tid is i. map_of tw tid = Some is \<longrightarrow> i \<in> set is \<longrightarrow> wid_target i = tid \<and> map_of ws i \<noteq> None)"

definition sv_ok :: "supervisor \<Rightarrow> bool" where
  "sv_ok s \<longleftrightarrow> keyed_ok (sv_workers s) (sv_secrets s) (sv_target_workers s)"

lemma map_of_discard:
  "map_of (discard_from tid i d) = (map_of d)(tid := map_option (removeAll i) (map_of d tid))"
  by (auto simp: discard_from_def AList.map_of_map_entry fun_eq_iff split: option.split)

lemma map_of_setdefault:
  "map_of (setdefault tid d) = (map_of d)(tid := Some (case map_of d tid of None \<Rightarrow> [] | Some is \<Rightarrow> is))"
  by (auto simp: setdefault_def AList.update_conv' fun_eq_iff split: option.split)

lemma map_of_add_worker_id:
  "map_of (add_worker_id tid i d) =
    (map_of d)(tid := Some (List.insert i (case map_of d tid of None \<Rightarrow> [] | Some is \<Rightarrow> is)))"
  by (auto simp: add_worker_id_def AList.map_of_map_entry map_of_setdefault fun_eq_iff)

lemma map_of_map_entry_eq:
  "map_of (AList.map_entry k f xs) = (map_of xs)(k := map_option f (map_of xs k))"
  by (auto simp: AList.map_of_map_entry fun_eq_iff split: option.split)

lemma map_of_mapped: "map_of (map (\<lambda>(k, v). (k, f k v)) xs) k = map_option (f k) (map_of xs k)"
  by (induction xs) auto

lemmas alist_conv = AList.update_conv' AList.delete_conv' map_of_map_entry_eq map_of_mapped
  map_of_discard map_of_setdefault map_of_add_worker_id

lemma keyed_ok_empty [simp]: "keyed_ok [] [] []"
  by (simp add: keyed_ok_def)

lemma keyed_ok_insert:
  assumes "keyed_ok ws ss tw" "fw_ok w"
  shows "keyed_ok (AList.update i w ws) (AList.update i k ss) (add_worker_id (wid_target i) i tw)"
  using assms unfolding keyed_ok_def
  by (cases "map_of tw (wid_target i)")
    (auto simp: alist_conv AList.distinct_update split: option.splits if_splits)

lemma keyed_ok_update:
  assumes "keyed_ok ws ss tw" "map_of ws i \<noteq> None" "fw_ok w"
  shows "keyed_ok (AList.update i w ws) ss tw"
  using assms unfolding keyed_ok_def by (auto simp: alist_conv AList.distinct_update)

lemma keyed_ok_map_entry:
  assumes "keyed_ok ws ss tw" "\<And>w. fw_ok w \<Longrightarrow> fw_ok (f w)"
  shows "keyed_ok (AList.map_entry i f ws) ss tw"
  using assms unfolding keyed_ok_def
  by (auto simp: alist_conv AList.distinct_map_entry split: if_splits)

lemma keyed_ok_map:
  assumes "keyed_ok ws ss tw" "\<And>i w. fw_ok w \<Longrightarrow> fw_ok (f i w)"
  shows "keyed_ok (map (\<lambda>(i, w). (i, f i w)) ws) ss tw"
proof -
  have "map fst (map (\<lambda>(i, w). (i, f i w)) ws) = map fst ws" by (induction ws) auto
  then show ?thesis using assms unfolding keyed_ok_def by (auto simp: map_of_mapped simp del: map_map map_eq_conv)
qed

text \<open>A deletion may drop the id from its own target's list or from all lists.\<close>

lemma keyed_ok_delete:
  assumes "keyed_ok ws ss tw"
    and "\<And>tid is. map_of tw' tid = Some is \<Longrightarrow> \<exists>js. map_of tw tid = Some js \<and> set is \<subseteq> set js \<and>
      (tid = wid_target i \<longrightarrow> i \<notin> set is)"
  shows "keyed_ok (AList.delete i ws) (AList.delete i ss) tw'"
proof -
  have "wid_target j = tid \<and> map_of ws j \<noteq> None \<and> j \<noteq> i"
    if "map_of tw' tid = Some is" "j \<in> set is" for tid "is" j
    using that assms(2) [OF that(1)] assms(1) unfolding keyed_ok_def by blast
  then show ?thesis using assms(1) unfolding keyed_ok_def
    by (auto simp: alist_conv AList.distinct_delete)
qed

lemma keyed_ok_fresh_lists: "keyed_ok ws ss tw \<Longrightarrow> (\<And>t is. map_of tw' t = Some is \<Longrightarrow> is = [] \<or> map_of tw t = Some is) \<Longrightarrow> keyed_ok ws ss tw'"
  unfolding keyed_ok_def by fastforce

lemma unregister_fields [simp]:
  "sv_db (unregister_secret i s) = sv_db s" "sv_run_state (unregister_secret i s) = sv_run_state s"
  "sv_workers (unregister_secret i s) = sv_workers s"
  "sv_target_workers (unregister_secret i s) = sv_target_workers s"
  "sv_targets (unregister_secret i s) = sv_targets s" "sv_run_id (unregister_secret i s) = sv_run_id s"
  "sv_secrets (unregister_secret i s) = AList.delete i (sv_secrets s)"
  "sv_bus (unregister_secret i s) = sv_bus s" "sv_group_open (unregister_secret i s) = sv_group_open s"
  "sv_key_material (unregister_secret i s) = sv_key_material s"
  "sv_loopback_url (unregister_secret i s) = sv_loopback_url s"
  "sv_decrypt_failures (unregister_secret i s) = sv_decrypt_failures s"
  by (auto simp: unregister_secret_def map_of_eq_None_iff split: option.split)

lemma sv_ok_cong:
  "sv_workers t = sv_workers s \<Longrightarrow> sv_secrets t = sv_secrets s \<Longrightarrow>
    sv_target_workers t = sv_target_workers s \<Longrightarrow> sv_ok t = sv_ok s"
  by (simp add: sv_ok_def)

lemma sv_ok_frame [simp]:
  "sv_ok (s\<lparr>sv_db := x0\<rparr>) = sv_ok s" "sv_ok (s\<lparr>sv_key_material := x1\<rparr>) = sv_ok s"
  "sv_ok (s\<lparr>sv_run_state := x2\<rparr>) = sv_ok s" "sv_ok (s\<lparr>sv_changed_at := x3\<rparr>) = sv_ok s"
  "sv_ok (s\<lparr>sv_targets := x4\<rparr>) = sv_ok s" "sv_ok (s\<lparr>sv_run_id := x5\<rparr>) = sv_ok s"
  "sv_ok (s\<lparr>sv_bus := x6\<rparr>) = sv_ok s" "sv_ok (s\<lparr>sv_group_open := x7\<rparr>) = sv_ok s"
  "sv_ok (s\<lparr>sv_pumps := x8\<rparr>) = sv_ok s" "sv_ok (s\<lparr>sv_stop_event := x9\<rparr>) = sv_ok s"
  "sv_ok (s\<lparr>sv_ready_event := x10\<rparr>) = sv_ok s" "sv_ok (s\<lparr>sv_heartbeat_ns := x11\<rparr>) = sv_ok s"
  "sv_ok (s\<lparr>sv_last_drop_total := x12\<rparr>) = sv_ok s"
  "sv_ok (put_event env t p s) = sv_ok s" "sv_ok (publish_run_state env q c s) = sv_ok s"
  by (simp_all add: sv_ok_def)

lemma sv_ok_same_but_db: "same_but_db s t \<Longrightarrow> sv_ok t = sv_ok s"
  by (rule sv_ok_cong) (simp_all add: same_but_db_fields)

definition same_but_log :: "supervisor \<Rightarrow> supervisor \<Rightarrow> bool" where
  "same_but_log s t \<longleftrightarrow> (\<exists>d f. t = s\<lparr>sv_db := d, sv_decrypt_failures := f\<rparr>)"

lemma same_but_log_fields:
  assumes "same_but_log s t"
  shows "sv_run_state t = sv_run_state s" "sv_workers t = sv_workers s" "sv_secrets t = sv_secrets s"
    "sv_target_workers t = sv_target_workers s" "sv_registry t = sv_registry s"
    "sv_targets t = sv_targets s" "sv_run_id t = sv_run_id s" "sv_group_open t = sv_group_open s"
    "sv_key_material t = sv_key_material s" "sv_loopback_url t = sv_loopback_url s" "sv_bus t = sv_bus s"
    "sv_pumps t = sv_pumps s"
  using assms by (auto simp: same_but_log_def)

lemma same_but_log_trans: "same_but_log s t \<Longrightarrow> same_but_log t u \<Longrightarrow> same_but_log s u"
  by (fastforce simp: same_but_log_def)

lemma same_but_db_log: "same_but_db (s\<lparr>sv_decrypt_failures := f\<rparr>) t \<Longrightarrow> same_but_log s t"
proof -
  assume "same_but_db (s\<lparr>sv_decrypt_failures := f\<rparr>) t"
  then obtain d where "t = s\<lparr>sv_decrypt_failures := f, sv_db := d\<rparr>" by (auto simp: same_but_db_def)
  then have "t = s\<lparr>sv_db := d, sv_decrypt_failures := f\<rparr>" by (cases s) simp
  then show ?thesis unfolding same_but_log_def by blast
qed

lemma load_frame: "same_but_log s (fst (load_runnable_targets env s))"
proof -
  have "same_but_log s (s\<lparr>sv_decrypt_failures := f\<rparr>)" for f
    by (rule same_but_db_log [where f = f]) simp
  from this this [of "sv_decrypt_failures s"] show ?thesis
    by (auto simp: load_runnable_targets_def split: sum.split prod.split)
qed

lemma flush_frame: "same_but_log s (flush_failures env is s)"
proof (induction "is" arbitrary: s)
  case Nil
  have "s = s\<lparr>sv_db := sv_db s, sv_decrypt_failures := sv_decrypt_failures s\<rparr>" by simp
  then show ?case unfolding same_but_log_def flush_failures.simps by blast
next
  case (Cons i "is")
  then show ?case
    by (auto intro: same_but_log_trans same_but_db_log [OF sv_audit_db])
qed

lemma open_session_frame [simp]:
  "sv_run_state (fst (open_run_session env s)) = sv_run_state s"
  "sv_workers (fst (open_run_session env s)) = sv_workers s"
  "sv_secrets (fst (open_run_session env s)) = sv_secrets s"
  "sv_target_workers (fst (open_run_session env s)) = sv_target_workers s"
  "sv_bus (fst (open_run_session env s)) = sv_bus s"
  by (auto simp: open_run_session_def split: sum.split)

lemma close_session_frame [simp]:
  "sv_run_state (fst (close_run_session env r s)) = sv_run_state s"
  "sv_workers (fst (close_run_session env r s)) = sv_workers s"
  "sv_secrets (fst (close_run_session env r s)) = sv_secrets s"
  "sv_target_workers (fst (close_run_session env r s)) = sv_target_workers s"
  "sv_targets (fst (close_run_session env r s)) = sv_targets s"
  "sv_registry (fst (close_run_session env r s)) = sv_registry s"
  "sv_run_id (fst (close_run_session env r s)) = None"
  by (auto simp: close_run_session_def Let_def split: sum.split option.split)

section \<open>The operations keep the invariant\<close>


text \<open>A spawn adds a worker with its secret, or leaves no trace of it.\<close>

lemma keyed_ok_abandon:
  "keyed_ok ws ss tw \<Longrightarrow> keyed_ok (AList.delete i ws) (AList.delete i ss) (discard_from (wid_target i) i tw)"
  by (erule keyed_ok_delete) (auto simp: map_of_discard split: if_splits)

lemma launch_guarded_ok:
  assumes "sv_ok s" "map_of (sv_workers s) (sc_worker_id spec) = None"
  shows "sv_ok (fst (launch_guarded env spec
    (s\<lparr>sv_registry := reg, sv_secrets := AList.update (sc_worker_id spec) key (sv_secrets s)\<rparr>)))"
proof -
  let ?i = "sc_worker_id spec"
  have new: "keyed_ok (AList.update ?i w (sv_workers s)) (AList.update ?i key (sv_secrets s))
      (add_worker_id (wid_target ?i) ?i (sv_target_workers s))" if "fw_ok w" for w
    using keyed_ok_insert [of _ _ _ w ?i key] that assms by (simp add: sv_ok_def)
  have "map_of (sv_secrets s) ?i = None" using assms by (simp add: sv_ok_def keyed_ok_def)
  then have gone: "keyed_ok (AList.delete ?i (sv_workers s)) (AList.delete ?i (AList.update ?i key (sv_secrets s)))
      (discard_from (wid_target ?i) ?i (sv_target_workers s))"
    using keyed_ok_abandon [of "sv_workers s" "sv_secrets s" "sv_target_workers s" ?i] assms(1)
    by (simp add: sv_ok_def AList.delete_update_same)
  show ?thesis
  proof (cases "new_ffmpeg_worker spec None (ev_now env) (ev_mns env)")
    case (Inl e)
    then show ?thesis using gone
      by (simp add: launch_guarded_def launch_worker_def abandon_worker_def sv_ok_def Let_def)
  next
    case (Inr w)
    note n = new [OF fw_new_ok [OF Inr]]
    show ?thesis using n keyed_ok_abandon [OF n, of ?i] Inr
      by (simp add: launch_guarded_def launch_worker_def abandon_worker_def sv_ok_def Let_def)
  qed
qed

lemma spawn_worker_ok:
  assumes "sv_ok s"
  shows "sv_ok (fst (spawn_worker env t dm key role s))"
proof -
  let ?i = "\<lparr>wid_target = tg_id dm, wid_role = role\<rparr>"
  show ?thesis
  proof (cases "map_of (sv_workers s) ?i = None")
    case True
    have "sv_ok (fst (launch_guarded env \<lparr>sc_worker_id = ?i, sc_target_type = tg_type dm,
        sc_input_url = sv_loopback_url s, sc_output_url = url\<rparr>
        (s\<lparr>sv_registry := reg, sv_secrets := AList.update ?i key (sv_secrets s)\<rparr>)))" for url reg
      using launch_guarded_ok [OF assms, of "\<lparr>sc_worker_id = ?i, sc_target_type = tg_type dm,
        sc_input_url = sv_loopback_url s, sc_output_url = url\<rparr>"] True by simp
    then show ?thesis using assms True by (simp add: spawn_worker_def Let_def split: sum.split)
  qed (use assms in \<open>simp add: spawn_worker_def Let_def\<close>)
qed

lemma spawn_workers_ok: "sv_ok s \<Longrightarrow> sv_ok (fst (spawn_workers_for_target env t dm key s))"
  unfolding spawn_workers_for_target_def by (rule steps_invariant) (auto intro: spawn_worker_ok)

lemma start_pair_ok: "sv_ok s \<Longrightarrow> sv_ok (fst (start_pair env p s))"
  by (cases p) (auto simp: start_pair_def spawn_workers_ok split: option.split)

lemma dict_of_values:
  assumes "\<forall>(k, v)\<in>set kvs. P v" "map_of (dict_of kvs) k = Some v"
  shows "P v"
proof -
  have "(\<forall>k v. map_of d k = Some v \<longrightarrow> P v) \<Longrightarrow>
      map_of (foldl (\<lambda>d (k, v). AList.update k v d) d kvs) k = Some v \<Longrightarrow> P v" for d
    using assms(1)
  proof (induction kvs arbitrary: d)
    case (Cons p kvs)
    have "\<forall>j w. map_of (AList.update (fst p) (snd p) d) j = Some w \<longrightarrow> P w"
      using Cons.prems(1,3) by (auto simp: AList.update_conv' split: if_splits)
    from Cons.IH [OF this] Cons.prems(2,3) show ?case by (simp add: case_prod_unfold)
  qed auto
  from this [of "[]"] show ?thesis using assms(2) by (simp add: dict_of_def)
qed

lemma sv_ok_new_lists:
  assumes "sv_ok s"
  shows "sv_ok (s\<lparr>sv_targets := ts, sv_target_workers := dict_of (map (\<lambda>(t, dm, key). (tr_id t, [])) pairs)\<rparr>)"
proof -
  have empty: "is = []" if "map_of (dict_of (map (\<lambda>(t, dm, key). (tr_id t, [])) pairs)) tid = Some is"
    for tid "is"
    by (rule dict_of_values [OF _ that, where P = "\<lambda>v. v = []"]) auto
  show ?thesis using assms unfolding sv_ok_def by (auto intro: keyed_ok_fresh_lists dest: empty)
qed

lemma load_and_spawn_ok: "sv_ok s \<Longrightarrow> sv_ok (fst (load_and_spawn env s))"
proof -
  assume ok: "sv_ok s"
  have l: "sv_ok (fst (load_runnable_targets env s))"
    using ok load_frame [of s env] by (simp add: sv_ok_def same_but_log_fields)
  show ?thesis
  proof (cases "load_runnable_targets env s")
    case (Pair s1 r)
    have "sv_ok (flush_failures env fs s1)" for fs
      using l Pair same_but_log_fields [OF flush_frame [of s1 env fs]] by (simp add: sv_ok_def)
    note lists = sv_ok_new_lists [OF this]
    show ?thesis
    proof (cases r)
      case (Inr pairs)
      have "sv_ok t \<Longrightarrow> sv_ok (fst (steps (map (start_pair env) pairs) t))" for t
        by (rule steps_invariant) (auto intro: start_pair_ok)
      from this [OF lists] show ?thesis using Pair Inr by (simp add: load_and_spawn_def Let_def)
    qed (use l Pair in \<open>simp add: load_and_spawn_def\<close>)
  qed
qed

lemma worker_stop_ok: "fw_ok w \<Longrightarrow> fw_ok (worker_stop env i w)"
proof -
  assume "fw_ok w"
  then have "fw_ok (fw_stop_request w)"
    using fw_step_ok [of w StopRequest 0 0] by (simp add: fw_step_def)
  then show ?thesis by (auto simp: worker_stop_def fw_run_ok split: option.split)
qed

lemma forget_worker_fields [simp]:
  "sv_workers (foldl forget_worker s is) = filter (\<lambda>p. fst p \<notin> set is) (sv_workers s)"
  "sv_secrets (foldl forget_worker s is) = filter (\<lambda>p. fst p \<notin> set is) (sv_secrets s)"
  "sv_run_state (foldl forget_worker s is) = sv_run_state s"
  "sv_targets (foldl forget_worker s is) = sv_targets s"
  "sv_run_id (foldl forget_worker s is) = sv_run_id s" "sv_db (foldl forget_worker s is) = sv_db s"
  "sv_bus (foldl forget_worker s is) = sv_bus s"
  by (induction "is" arbitrary: s)
    (auto simp: forget_worker_def AList.delete_eq Let_def case_prod_unfold intro!: filter_cong)

lemma forget_worker_ok: "sv_ok s \<Longrightarrow> sv_ok (forget_worker s i)"
  unfolding sv_ok_def forget_worker_def Let_def
  by (auto simp: map_of_mapped [of "\<lambda>k v. removeAll i v"] intro!: keyed_ok_delete)

lemma tear_down_all_ok:
  assumes "sv_ok s"
  shows "sv_ok (fst (tear_down_all_workers env s))"
proof -
  have "sv_ok (s\<lparr>sv_workers := map (\<lambda>(i, w). (i, worker_stop env i w)) (sv_workers s)\<rparr>)"
    using assms keyed_ok_map worker_stop_ok by (simp add: sv_ok_def)
  moreover have "sv_ok t \<Longrightarrow> sv_ok (foldl forget_worker t is)" for t "is"
    by (induction "is" arbitrary: t) (simp_all add: forget_worker_ok)
  ultimately show ?thesis by (simp add: tear_down_all_workers_def Let_def)
qed

lemma tear_down_worker_ok: "sv_ok s \<Longrightarrow> wid_target i = tid \<Longrightarrow> sv_ok (tear_down_worker env tid s i)"
  using keyed_ok_abandon [of "AList.map_entry i (worker_stop env i) (sv_workers s)" "sv_secrets s" "sv_target_workers s" i]
    keyed_ok_map_entry [OF _ worker_stop_ok, of "sv_workers s" "sv_secrets s" "sv_target_workers s"]
  by (simp add: sv_ok_def tear_down_worker_def Let_def)

lemma tear_down_target_ok:
  assumes "sv_ok s"
  shows "sv_ok (tear_down_workers_for_target env tid s)"
proof -
  have "\<forall>i\<in>set is. wid_target i = tid \<Longrightarrow> sv_ok t \<Longrightarrow> sv_ok (foldl (tear_down_worker env tid) t is)" for t "is"
    by (induction "is" arbitrary: t) (auto intro: tear_down_worker_ok)
  moreover have "\<forall>i\<in>set (workers_of tid s). wid_target i = tid"
    using assms by (cases "map_of (sv_target_workers s) tid") (auto simp: sv_ok_def keyed_ok_def workers_of_def)
  ultimately show ?thesis using assms by (simp add: tear_down_workers_for_target_def)
qed

lemma set_run_state_inv: "sv_ok s \<Longrightarrow> sv_ok (fst (set_run_state env a c s))"
  by (simp add: sv_ok_def)

lemma close_session_inv: "sv_ok s \<Longrightarrow> sv_ok (fst (close_run_session env r s))"
  by (simp add: sv_ok_def)

lemma open_session_inv: "sv_ok s \<Longrightarrow> sv_ok (fst (open_run_session env s))"
  by (simp add: sv_ok_def)

lemma audit_inv: "sv_ok s \<Longrightarrow> sv_ok (fst (sv_audit env e t x s))"
  using sv_ok_same_but_db [OF sv_audit_db] by simp

lemma obs_signals_inv: "sv_ok (obs_signals env k s) = sv_ok s"
  by (rule sv_ok_cong) simp_all

lemma wipe_inv: "sv_ok s \<Longrightarrow> sv_ok (fst (wipe_per_session_credentials env s))"
  using sv_ok_same_but_db [OF wipe_db] by simp

lemma run_started_inv: "sv_ok s \<Longrightarrow> sv_ok (fst (run_started_audit env s))"
  unfolding run_started_audit_def by (rule audit_inv) (simp add: obs_signals_inv)

lemma start_body_inv: "sv_ok s \<Longrightarrow> sv_ok (fst (start_body env s))"
  unfolding start_body_def
  by (rule steps_invariant)
    (auto intro: open_session_inv load_and_spawn_ok set_run_state_inv run_started_inv)

lemma start_rollback_inv: "sv_ok s \<Longrightarrow> sv_ok (fst (start_rollback env s))"
  unfolding start_rollback_def
  by (rule steps_invariant) (auto intro!: tear_down_all_ok set_run_state_inv close_session_inv simp: obs_signals_inv)

lemma stop_cleanup_inv: "sv_ok s \<Longrightarrow> sv_ok (fst (stop_cleanup env r s))"
  unfolding stop_cleanup_def
  by (rule steps_invariant) (auto intro: wipe_inv set_run_state_inv close_session_inv audit_inv)

lemma start_run_inv: "sv_ok s \<Longrightarrow> sv_ok (fst (start_run env s))"
  using set_run_state_inv [of s env START_REQUESTED "''user pressed START''"]
    start_body_inv [of "fst (set_run_state env START_REQUESTED ''user pressed START'' s)" env] start_rollback_inv
  by (auto simp: start_run_def split: prod.splits option.splits)

lemma stop_run_inv: "sv_ok s \<Longrightarrow> sv_ok (fst (stop_run env r s))"
  using set_run_state_inv [of s env STOP_REQUESTED "''stop requested ('' @ r @ '')''"]
    tear_down_all_ok [of "fst (set_run_state env STOP_REQUESTED (''stop requested ('' @ r @ '')'') s)" env]
    stop_cleanup_inv
  by (auto simp: stop_run_def split: prod.splits option.splits)

lemma enable_locked_inv:
  assumes "sv_ok s"
  shows "sv_ok (fst (enable_locked env tid s))"
proof -
  have "keyed_ok (sv_workers s) (sv_secrets s) (setdefault i (sv_target_workers s))" for i
    using assms unfolding sv_ok_def
    by (rule keyed_ok_fresh_lists) (auto simp: map_of_setdefault split: if_splits option.splits)
  then have "sv_ok (s\<lparr>sv_targets := ts, sv_target_workers := setdefault i (sv_target_workers s)\<rparr>)" for i ts
    by (simp add: sv_ok_def)
  then show ?thesis using assms spawn_workers_ok
    by (auto simp: enable_locked_def Let_def split: sum.split option.split prod.split)
qed

lemma reset_worker_inv: "sv_ok s \<Longrightarrow> sv_ok (reset_target_worker tid role s)"
proof -
  have "fw_ok (fw_user_reset w)" if "fw_ok w" for w
    using fw_step_ok [OF that, of UserReset 0 0] by (simp add: fw_step_def)
  then show "sv_ok s \<Longrightarrow> ?thesis" by (simp add: sv_ok_def reset_target_worker_def keyed_ok_map_entry)
qed

lemma worker_input_inv: "sv_ok s \<Longrightarrow> sv_ok (worker_input env i inp s)"
  unfolding sv_ok_def worker_input_def
  by (auto intro!: keyed_ok_map_entry dest: fw_step_ok split: option.split)

lemma worker_event_inv:
  assumes "sv_ok s"
  shows "sv_ok (handle_worker_event env i e s)"
proof (cases "map_of (sv_workers s) i")
  case (Some w)
  have "fw_ok w" using Some assms by (simp add: sv_ok_def keyed_ok_def)
  then have "fw_ok (fst (fw_snapshot w now))" for now
    by (simp add: fw_snapshot_def split: prod.split)
  then have "keyed_ok (AList.update i (fst (fw_snapshot w now)) (sv_workers s)) (sv_secrets s) (sv_target_workers s)" for now
    using assms Some by (simp add: sv_ok_def keyed_ok_update)
  then show ?thesis using assms Some
    by (auto simp: handle_worker_event_def sv_ok_def Let_def publish_target_snapshot_def
        same_but_db_fields [OF sv_audit_db] split: option.split prod.split) (metis fst_conv)+
qed (use assms in \<open>simp add: handle_worker_event_def\<close>)

lemma sv_do_inv: "sv_ok s \<Longrightarrow> sv_ok (sv_do s (opn, env))"
proof (cases opn)
  case (WorkerEvent i e)
  assume "sv_ok s"
  then show ?thesis using WorkerEvent worker_event_inv
    by (simp add: worker_event_pump_def update_heartbeat_def)
next
  case (RunBegin b)
  assume "sv_ok s"
  then have "sv_ok (update_heartbeat env (s\<lparr>sv_bus := Some b\<rparr>))" by (simp add: update_heartbeat_def)
  from audit_inv [OF this] show ?thesis using RunBegin
    by (auto simp: run_begin_def split: prod.split option.split) (metis fst_conv)+
qed (auto simp: start_run_inv stop_run_inv sv_stop_def enable_locked_inv disable_target_def tear_down_target_ok
    reset_worker_inv worker_input_inv update_heartbeat_def run_end_def drop_alert_tick_def bus_drain_step_def
    notify_obs_publish_began_def notify_obs_publish_ended_def host_stats_tick_def Let_def
    split: option.split sum.split)

section \<open>The run state moves along the table\<close>

text \<open>One state reaches another by actions of the table, none of them the clearing of an error.\<close>

definition act_path :: "run_state \<Rightarrow> run_state \<Rightarrow> bool" where
  "act_path a b \<longleftrightarrow> (\<exists>as. run_actions a as = Some b \<and> ERROR_CLEARED \<notin> set as)"

lemma act_path_refl [simp]: "act_path a a"
  unfolding act_path_def by (rule exI [of _ "[]"]) simp

lemma act_path_step: "run_transition a ac = Inr b \<Longrightarrow> ac \<noteq> ERROR_CLEARED \<Longrightarrow> act_path a b"
  unfolding act_path_def by (rule exI [of _ "[ac]"]) (simp add: run_step_def)

lemma act_path_trans: "act_path a b \<Longrightarrow> act_path b c \<Longrightarrow> act_path a c"
proof -
  assume "act_path a b" "act_path b c"
  then obtain xs ys where "run_actions a xs = Some b" "run_actions b ys = Some c"
    "ERROR_CLEARED \<notin> set xs" "ERROR_CLEARED \<notin> set ys" by (auto simp: act_path_def)
  then have "run_actions a (xs @ ys) = Some c \<and> ERROR_CLEARED \<notin> set (xs @ ys)"
    by (simp add: rsm.run_append)
  then show "act_path a c" unfolding act_path_def by blast
qed

lemma act_path_ERROR: "act_path ERROR b \<Longrightarrow> b = ERROR"
proof -
  have "run_actions ERROR as = Some b \<Longrightarrow> ERROR_CLEARED \<notin> set as \<Longrightarrow> b = ERROR" for as
    by (cases as) (auto simp: run_step_def split: if_splits)
  then show "act_path ERROR b \<Longrightarrow> b = ERROR" by (auto simp: act_path_def)
qed

lemma set_run_state_path: "ac \<noteq> ERROR_CLEARED \<Longrightarrow> act_path (sv_run_state s) (sv_run_state (fst (set_run_state env ac c s)))"
  by (auto simp: set_run_state_def intro: act_path_step split: sum.split)

lemma abandon_run_state [simp]: "sv_run_state (abandon_worker i s) = sv_run_state s"
  by (simp add: abandon_worker_def Let_def)

lemma spawn_worker_run_state [simp]: "sv_run_state (fst (spawn_worker env t dm key role s)) = sv_run_state s"
  by (auto simp: spawn_worker_def launch_guarded_def launch_worker_def Let_def split: sum.split)

lemma spawn_workers_run_state [simp]:
  "sv_run_state (fst (spawn_workers_for_target env t dm key s)) = sv_run_state s"
  unfolding spawn_workers_for_target_def
  by (rule steps_invariant [where P = "\<lambda>t. sv_run_state t = sv_run_state s"]) auto

lemma start_pair_run_state [simp]: "sv_run_state (fst (start_pair env p s)) = sv_run_state s"
  by (cases p) (auto simp: start_pair_def split: option.split)

lemma load_and_spawn_run_state [simp]: "sv_run_state (fst (load_and_spawn env s)) = sv_run_state s"
proof (cases "load_runnable_targets env s")
  case (Pair s1 r)
  have s1: "sv_run_state s1 = sv_run_state s"
    using same_but_log_fields(1) [OF load_frame [of s env]] Pair by simp
  show ?thesis
  proof (cases r)
    case (Inr pairs)
    have "sv_run_state (fst (steps (map (start_pair env) pairs) t)) = sv_run_state t" for t
      by (rule steps_invariant [where P = "\<lambda>u. sv_run_state u = sv_run_state t"]) auto
    then show ?thesis using Pair Inr s1
      by (simp add: load_and_spawn_def Let_def same_but_log_fields [OF flush_frame])
  qed (use Pair s1 in \<open>simp add: load_and_spawn_def\<close>)
qed

lemma audit_run_state [simp]: "sv_run_state (fst (sv_audit env e t x s)) = sv_run_state s"
  by (simp add: same_but_db_fields [OF sv_audit_db])

lemma wipe_run_state [simp]: "sv_run_state (fst (wipe_per_session_credentials env s)) = sv_run_state s"
  by (simp add: same_but_db_fields [OF wipe_db])

lemma tear_down_all_run_state [simp]: "sv_run_state (fst (tear_down_all_workers env s)) = sv_run_state s"
  by (simp add: tear_down_all_workers_def Let_def)

lemma tear_down_target_run_state [simp]:
  "sv_run_state (tear_down_workers_for_target env tid s) = sv_run_state s"
proof -
  have "sv_run_state (foldl (tear_down_worker env tid) t is) = sv_run_state t" for t "is"
    by (induction "is" arbitrary: t) (simp_all add: tear_down_worker_def Let_def)
  then show ?thesis by (simp add: tear_down_workers_for_target_def)
qed

lemma handle_event_run_state [simp]: "sv_run_state (handle_worker_event env i e s) = sv_run_state s"
  by (auto simp: handle_worker_event_def publish_target_snapshot_def Let_def split: option.split prod.split)

text \<open>Signals move between ARMED and LIVE only.\<close>

fun obs_state :: "run_state \<Rightarrow> bool list \<Rightarrow> run_state" where
  "obs_state st [] = st"
| "obs_state st (b # bs) = obs_state (if b \<and> st = ARMED then LIVE else if \<not> b \<and> st = LIVE then ARMED else st) bs"

fun obs_actions :: "run_state \<Rightarrow> bool list \<Rightarrow> run_action list" where
  "obs_actions st [] = []"
| "obs_actions st (b # bs) =
     (if b \<and> st = ARMED then OBS_PUBLISH_BEGAN # obs_actions LIVE bs
      else if \<not> b \<and> st = LIVE then OBS_PUBLISH_ENDED # obs_actions ARMED bs else obs_actions st bs)"

lemma obs_actions_run: "run_actions st (obs_actions st bs) = Some (obs_state st bs)"
  by (induction st bs rule: obs_actions.induct) (auto simp: run_step_def)

lemma obs_actions_set: "set (obs_actions st bs) \<subseteq> {OBS_PUBLISH_BEGAN, OBS_PUBLISH_ENDED}"
  by (induction st bs rule: obs_actions.induct) auto

lemma obs_state_other: "st \<noteq> ARMED \<Longrightarrow> st \<noteq> LIVE \<Longrightarrow> obs_state st bs = st \<and> obs_actions st bs = []"
  by (induction bs) auto

lemma obs_state_active: "st = ARMED \<or> st = LIVE \<Longrightarrow> obs_state st bs = (if bs = [] then st else if last bs then LIVE else ARMED)"
  by (induction st bs rule: obs_state.induct) auto

lemma obs_notify_state:
  "sv_run_state (notify_obs_publish_began env s) = (if sv_run_state s = ARMED then LIVE else sv_run_state s)"
  "sv_run_state (notify_obs_publish_ended env s) = (if sv_run_state s = LIVE then ARMED else sv_run_state s)"
  by (simp_all add: notify_obs_publish_began_def notify_obs_publish_ended_def)

lemma obs_signals_state: "sv_run_state (obs_signals env k s) = obs_state (sv_run_state s) (ev_signals env k)"
proof -
  have "sv_run_state (foldl (\<lambda>s began. if began then notify_obs_publish_began env s else notify_obs_publish_ended env s) t bs) =
      obs_state (sv_run_state t) bs" for t bs
    by (induction bs arbitrary: t) (auto simp: obs_notify_state)
  then show ?thesis by (simp add: obs_signals_def)
qed

text \<open>The body of a start that began: where it can leave the run state.\<close>

lemma start_body_state:
  assumes "sv_run_state s = STARTING" "start_body env s = (t, r)"
  shows "(sv_run_state t = STARTING \<and> r \<noteq> None) \<or> sv_run_state t = obs_state ARMED (ev_signals env ''run_started'')"
proof -
  obtain s2 r2 where 2: "open_run_session env s = (s2, r2)" by fastforce
  have st2: "sv_run_state s2 = STARTING" using open_session_frame(1) [of env s] assms(1) 2 by simp
  obtain s3 r3 where 3: "load_and_spawn env s2 = (s3, r3)" by fastforce
  have st3: "sv_run_state s3 = STARTING" using load_and_spawn_run_state [of env s2] st2 3 by simp
  obtain s4 where 4: "set_run_state env WORKERS_SPAWNED ''all enabled targets have running workers'' s3 = (s4, None)"
    "sv_run_state s4 = ARMED"
    using st3 by (simp add: set_run_state_def)
  obtain s5 r5 where 5: "run_started_audit env s4 = (s5, r5)" by fastforce
  have "sv_run_state s5 = sv_run_state (obs_signals env ''run_started'' s4)"
    using 5 audit_run_state unfolding run_started_audit_def by (metis fst_conv)
  then have st5: "sv_run_state s5 = obs_state ARMED (ev_signals env ''run_started'')"
    by (simp add: obs_signals_state 4(2))
  show ?thesis using assms(2) 2 3 4(1) 5 st2 st3 st5
    by (cases r2; cases r3; cases r5) (auto simp: start_body_def)
qed

lemma start_rollback_state:
  "sv_run_state s \<in> {STARTING, ARMED, LIVE} \<Longrightarrow> sv_run_state (fst (start_rollback env s)) = ERROR"
  "sv_run_state s \<in> {STARTING, ARMED, LIVE} \<Longrightarrow>
    run_transition (obs_state (sv_run_state s) bs) UNRECOVERABLE_FAILED = Inr ERROR"
proof -
  have fails: "run_transition (obs_state st bs) UNRECOVERABLE_FAILED = Inr ERROR" if "st \<in> {STARTING, ARMED, LIVE}" for st bs
    using that obs_state_other [of st bs] obs_state_active [of st bs] by (cases "bs = []") auto
  then show "sv_run_state s \<in> {STARTING, ARMED, LIVE} \<Longrightarrow>
      run_transition (obs_state (sv_run_state s) bs) UNRECOVERABLE_FAILED = Inr ERROR" by blast
  assume st: "sv_run_state s \<in> {STARTING, ARMED, LIVE}"
  let ?t = "fst (tear_down_all_workers env (obs_signals env ''teardown'' s))"
  have "run_transition (sv_run_state ?t) UNRECOVERABLE_FAILED = Inr ERROR"
    using fails [OF st] by (simp add: obs_signals_state)
  from set_run_state_ok [OF this] show "sv_run_state (fst (start_rollback env s)) = ERROR"
    by (simp add: start_rollback_def suppress_def)
qed

section \<open>What each operation may do to the run state\<close>

text \<open>The actions one operation performs, as the methods and comments of the supervisor have them: a start goes up to
  ARMED (signals may follow) or fails once; a stop drains; a signal is one action; nothing else touches the run state,
  and nothing clears an error. A refused or idle operation performs none.\<close>

definition signals_only :: "run_action list \<Rightarrow> bool" where
  "signals_only as \<longleftrightarrow> set as \<subseteq> {OBS_PUBLISH_BEGAN, OBS_PUBLISH_ENDED}"

definition start_actions :: "run_action list \<Rightarrow> bool" where
  "start_actions as \<longleftrightarrow> as = [START_REQUESTED, UNRECOVERABLE_FAILED] \<or>
     (\<exists>obs. signals_only obs \<and> (as = START_REQUESTED # WORKERS_SPAWNED # obs \<or>
        as = START_REQUESTED # WORKERS_SPAWNED # obs @ [UNRECOVERABLE_FAILED]))"

definition op_actions :: "sv_op \<Rightarrow> run_action list \<Rightarrow> bool" where
  "op_actions opn as \<longleftrightarrow> as = [] \<or>
     (case opn of
        StartRun \<Rightarrow> start_actions as
      | StopRun reason \<Rightarrow> as = [STOP_REQUESTED, WORKERS_DRAINED]
      | Shutdown \<Rightarrow> as = [STOP_REQUESTED, WORKERS_DRAINED]
      | ObsBegan \<Rightarrow> as = [OBS_PUBLISH_BEGAN]
      | ObsEnded \<Rightarrow> as = [OBS_PUBLISH_ENDED]
      | _ \<Rightarrow> False)"

definition performs :: "sv_op \<Rightarrow> run_state \<Rightarrow> run_state \<Rightarrow> bool" where
  "performs opn st st' \<longleftrightarrow> (\<exists>as. op_actions opn as \<and> run_actions st as = Some st')"

lemma performs_idle: "performs opn st st"
  unfolding performs_def op_actions_def by (rule exI [of _ "[]"]) simp

lemma performsI: "op_actions opn as \<Longrightarrow> run_actions st as = Some st' \<Longrightarrow> performs opn st st'"
  by (auto simp: performs_def)

lemma start_run_performs: "performs StartRun (sv_run_state s) (sv_run_state (fst (start_run env s)))"
proof (cases "sv_run_state s = OFFLINE")
  case True
  define s1 where "s1 = fst (set_run_state env START_REQUESTED ''user pressed START'' s)"
  have s1: "set_run_state env START_REQUESTED ''user pressed START'' s = (s1, None)" "sv_run_state s1 = STARTING"
    using True by (simp_all add: s1_def set_run_state_def)
  obtain s2 r where 2: "start_body env s1 = (s2, r)" by fastforce
  let ?sig = "ev_signals env ''run_started''" and ?down = "ev_signals env ''teardown''"
  note body = start_body_state [OF s1(2) 2]
  have armed: "obs_state ARMED ?sig \<in> {STARTING, ARMED, LIVE}" using obs_state_active [of ARMED ?sig] by auto
  show ?thesis
  proof (cases r)
    case None
    then have "sv_run_state (fst (start_run env s)) = obs_state ARMED ?sig" using True s1 2 body by (simp add: start_run_def)
    then show ?thesis
      by (intro performsI [of _ "START_REQUESTED # WORKERS_SPAWNED # obs_actions ARMED ?sig"])
        (use True obs_actions_set [of ARMED ?sig] in \<open>auto simp: op_actions_def start_actions_def signals_only_def run_step_def obs_actions_run\<close>)
  next
    case (Some e)
    have "sv_run_state s2 \<in> {STARTING, ARMED, LIVE}" using body armed by auto
    then have err: "sv_run_state (fst (start_run env s)) = ERROR"
      using True s1 2 Some start_rollback_state(1) by (simp add: start_run_def)
    consider (early) "sv_run_state s2 = STARTING" | (late) "sv_run_state s2 = obs_state ARMED ?sig" using body by blast
    then show ?thesis
    proof cases
      case early
      show ?thesis unfolding err
        by (rule performsI [of _ "[START_REQUESTED, UNRECOVERABLE_FAILED]"])
          (use True in \<open>simp_all add: op_actions_def start_actions_def run_step_def\<close>)
    next
      case late
      define obs where "obs = obs_actions ARMED ?sig @ obs_actions (obs_state ARMED ?sig) ?down"
      have "run_actions ARMED obs = Some (obs_state (obs_state ARMED ?sig) ?down)"
        by (simp add: obs_def rsm.run_append obs_actions_run)
      moreover have "run_step (obs_state (obs_state ARMED ?sig) ?down) UNRECOVERABLE_FAILED = Some ERROR"
        using start_rollback_state(2) [of "s\<lparr>sv_run_state := obs_state ARMED ?sig\<rparr>" ?down] armed
        by (simp add: run_step_def)
      ultimately have "run_actions OFFLINE (START_REQUESTED # WORKERS_SPAWNED # obs @ [UNRECOVERABLE_FAILED]) = Some ERROR"
        by (simp add: rsm.run_append run_step_def)
      moreover have "signals_only obs"
        using obs_actions_set [of ARMED ?sig] obs_actions_set [of "obs_state ARMED ?sig" ?down] by (simp add: signals_only_def obs_def)
      then have "op_actions StartRun (START_REQUESTED # WORKERS_SPAWNED # obs @ [UNRECOVERABLE_FAILED])"
        unfolding op_actions_def start_actions_def by auto
      ultimately show ?thesis unfolding err True by (intro performsI)
    qed
  qed
qed (simp add: start_run_def performs_idle)

lemma stop_cleanup_state:
  "sv_run_state s = STOPPING \<Longrightarrow> sv_run_state (fst (stop_cleanup env r s)) = OFFLINE"
  by (simp add: stop_cleanup_def suppress_def) (simp add: set_run_state_def)

lemma stop_run_performs:
  assumes "opn = StopRun r \<or> opn = Shutdown"
  shows "performs opn (sv_run_state s) (sv_run_state (fst (stop_run env r s)))"
proof (cases "sv_run_state s = OFFLINE \<or> sv_run_state s = STOPPING \<or> sv_run_state s = ERROR")
  case False
  then have t: "run_transition (sv_run_state s) STOP_REQUESTED = Inr STOPPING" by (cases "sv_run_state s") simp_all
  define s1 where "s1 = fst (set_run_state env STOP_REQUESTED (''stop requested ('' @ r @ '')'') s)"
  have s1: "set_run_state env STOP_REQUESTED (''stop requested ('' @ r @ '')'') s = (s1, None)" "sv_run_state s1 = STOPPING"
    using set_run_state_ok [OF t] by (simp_all add: s1_def prod_eq_iff)
  have "stop_run env r s = (case tear_down_all_workers env s1 of (s2, e) \<Rightarrow> (fst (stop_cleanup env r s2), e))"
    by (simp only: stop_run_def s1(1) False if_False prod.case option.case)
  then have "sv_run_state (fst (stop_run env r s)) = OFFLINE"
    using s1(2) stop_cleanup_state [of "fst (tear_down_all_workers env s1)" env r] by (simp add: case_prod_unfold)
  then show ?thesis
    by (intro performsI [of _ "[STOP_REQUESTED, WORKERS_DRAINED]"])
      (use assms t in \<open>auto simp: op_actions_def run_step_def\<close>)
qed (simp add: stop_run_def performs_idle)

lemma run_begin_run_state [simp]: "sv_run_state (fst (run_begin env b s)) = sv_run_state s"
proof (cases "sv_audit env ''supervisor_started'' None [(''build_at'', JString (ev_isoformat env (ev_now env)))]
    (update_heartbeat env (s\<lparr>sv_bus := Some b\<rparr>))")
  case (Pair s1 e)
  then have "sv_run_state s1 = sv_run_state s"
    using audit_run_state [of env "''supervisor_started''" None "[(''build_at'', JString (ev_isoformat env (ev_now env)))]"
        "update_heartbeat env (s\<lparr>sv_bus := Some b\<rparr>)"] by (simp add: update_heartbeat_def)
  then show ?thesis using Pair by (simp add: run_begin_def split: option.split)
qed

lemma sv_do_performs: "performs opn (sv_run_state s) (sv_run_state (sv_do s (opn, env)))"
proof (cases opn)
  case StartRun
  then show ?thesis using start_run_performs by simp
next
  case (StopRun r)
  then show ?thesis using stop_run_performs by simp
next
  case Shutdown
  then show ?thesis using stop_run_performs [of Shutdown "''user_stop''"] by (simp add: sv_stop_def performs_idle)
next
  case ObsBegan
  show ?thesis
  proof (cases "sv_run_state s = ARMED")
    case True
    show ?thesis by (rule performsI [of _ "[OBS_PUBLISH_BEGAN]"])
        (use True ObsBegan in \<open>simp_all add: op_actions_def run_step_def obs_notify_state\<close>)
  qed (use ObsBegan in \<open>simp add: obs_notify_state performs_idle\<close>)
next
  case ObsEnded
  show ?thesis
  proof (cases "sv_run_state s = LIVE")
    case True
    show ?thesis by (rule performsI [of _ "[OBS_PUBLISH_ENDED]"])
        (use True ObsEnded in \<open>simp_all add: op_actions_def run_step_def obs_notify_state\<close>)
  qed (use ObsEnded in \<open>simp add: obs_notify_state performs_idle\<close>)
qed (auto simp: enable_locked_def disable_target_def reset_target_worker_def performs_idle
    worker_event_pump_def worker_input_def update_heartbeat_def run_end_def drop_alert_tick_def
    bus_drain_step_def host_stats_tick_def Let_def split: option.split sum.split prod.split)

lemma start_actions_clear: "start_actions as \<Longrightarrow> ERROR_CLEARED \<notin> set as"
  by (auto simp: start_actions_def signals_only_def)

lemma op_actions_clear: "op_actions opn as \<Longrightarrow> ERROR_CLEARED \<notin> set as"
  using start_actions_clear by (cases opn) (auto simp: op_actions_def)

lemma sv_do_path: "act_path (sv_run_state s) (sv_run_state (sv_do s (opn, env)))"
  using sv_do_performs [of opn s env] op_actions_clear unfolding performs_def act_path_def by blast

section \<open>Runs of the supervisor\<close>

lemma sv_run_invariant: "(\<And>t opn env. P t \<Longrightarrow> P (sv_do t (opn, env))) \<Longrightarrow> P s \<Longrightarrow> P (sv_run s ops)"
  unfolding sv_run_def
proof (induction ops arbitrary: s)
  case (Cons x ops)
  then show ?case by (cases x) simp
qed simp

lemma sv_ok_run: "sv_ok s \<Longrightarrow> sv_ok (sv_run s ops)"
  by (rule sv_run_invariant) (auto intro: sv_do_inv)

lemma sv_ok_new: "sv_ok (new_supervisor d k r url mns)"
  by (simp add: new_supervisor_def sv_ok_def)

lemma sv_run_path: "act_path (sv_run_state s) (sv_run_state (sv_run s ops))"
  by (rule sv_run_invariant [where P = "\<lambda>t. act_path (sv_run_state s) (sv_run_state t)"])
    (auto intro: act_path_trans sv_do_path)


text \<open>So a stopping run never jumps back to LIVE, and only a start leaves OFFLINE.\<close>

lemma offline_left_by_start: "performs opn OFFLINE st \<Longrightarrow> st \<noteq> OFFLINE \<Longrightarrow> opn = StartRun"
  by (cases opn) (auto simp: performs_def op_actions_def run_step_def)

lemma stopping_stays: "performs opn STOPPING st \<Longrightarrow> st = STOPPING"
  by (cases opn) (auto simp: performs_def op_actions_def start_actions_def run_step_def)

text \<open>C21: from ERROR no sequence of operations leads out; a start is refused, a
  stop does nothing and no target can be enabled.\<close>

theorem error_is_permanent:
  assumes "sv_run_state s = ERROR"
  shows "sv_run_state (sv_run s ops) = ERROR \<and>
    start_run env (sv_run s ops) =
      (sv_run s ops, Some (SvIllegal (IllegalRunStateTransitionError ERROR START_REQUESTED))) \<and>
    stop_run env reason (sv_run s ops) = (sv_run s ops, None) \<and>
    enable_target env tid (sv_run s ops) = (sv_run s ops, None)"
proof -
  have "sv_run_state (sv_run s ops) = ERROR"
    using act_path_ERROR sv_run_path [of s ops] assms by simp
  then show ?thesis by (simp add: start_run_def stop_run_def enable_target_def enable_check_def)
qed

section \<open>A successful start\<close>

lemma steps_None: "steps (f # fs) s = (t, None) \<longleftrightarrow> (\<exists>u. f s = (u, None) \<and> steps fs u = (t, None))"
  by (auto split: prod.split option.split)

text \<open>Every worker serves a loaded target, with the URL composed for its role and its key
  registered.\<close>

definition served_by :: "runnable list \<Rightarrow> supervisor \<Rightarrow> worker_id \<Rightarrow> ffmpeg_worker \<Rightarrow> bool" where
  "served_by pairs s i w \<longleftrightarrow>
     (\<exists>t dm k. (t, dm, Some k) \<in> set pairs \<and> tg_enabled dm \<and> wid_target i = tg_id dm \<and>
        wid_role i \<in> set (roles_for dm) \<and> fw_ctl w = Launched \<and> sc_worker_id (fw_spec w) = i \<and>
        compose_out_url (tg_type dm) (tr_url t) k (wid_role i) = Inr (sc_output_url (fw_spec w)) \<and>
        map_of (sv_secrets s) i = Some k \<and> k \<in> set (sv_registry s))"

text \<open>Workers an earlier run left behind stay as they are; all others serve.\<close>

definition all_served :: "(worker_id \<times> ffmpeg_worker) list \<Rightarrow> runnable list \<Rightarrow> supervisor \<Rightarrow> bool" where
  "all_served old pairs s \<longleftrightarrow>
     (\<forall>i w. map_of old i = Some w \<longrightarrow> map_of (sv_workers s) i = Some w) \<and>
     (\<forall>i w. map_of (sv_workers s) i = Some w \<longrightarrow> map_of old i = None \<longrightarrow> served_by pairs s i w)"

lemma new_worker_fields:
  "new_ffmpeg_worker spec pol now mns = Inr w \<Longrightarrow>
    fw_ctl (fw_start w t) = Launched \<and> fw_spec (fw_start w t) = spec"
  by (auto simp: new_ffmpeg_worker_def fw_start_def lifecycle_done_def split: sum.splits)

lemma spawn_worker_success:
  assumes "spawn_worker env t dm key role s = (s', None)"
    "map_of (sv_workers s) \<lparr>wid_target = tg_id dm, wid_role = role\<rparr> = None"
  shows "\<exists>url w reg. compose_out_url (tg_type dm) (tr_url t) key role = Inr url \<and>
    registry_register key (sv_registry s) = Inr reg \<and> fw_ctl w = Launched \<and>
    fw_spec w = \<lparr>sc_worker_id = \<lparr>wid_target = tg_id dm, wid_role = role\<rparr>, sc_target_type = tg_type dm,
      sc_input_url = sv_loopback_url s, sc_output_url = url\<rparr> \<and> sv_registry s' = reg \<and>
    sv_secrets s' = AList.update \<lparr>wid_target = tg_id dm, wid_role = role\<rparr> key (sv_secrets s) \<and>
    sv_workers s' = AList.update \<lparr>wid_target = tg_id dm, wid_role = role\<rparr> w (sv_workers s)"
  using assms
  by (auto simp: spawn_worker_def launch_guarded_def launch_worker_def Let_def
      split: sum.splits if_splits dest: new_worker_fields [where t = "ev_now env"])

lemma registry_register_set: "registry_register k r = Inr r' \<Longrightarrow> set r' = insert k (set r)"
  by (auto simp: registry_register_def split: if_splits)

lemma spawn_worker_served:
  assumes "spawn_worker env t dm key role s = (s', None)" "all_served old pairs s"
    "(t, dm, Some key) \<in> set pairs" "tg_enabled dm" "role \<in> set (roles_for dm)"
  shows "all_served old pairs s' \<and> map_of (sv_workers s') \<lparr>wid_target = tg_id dm, wid_role = role\<rparr> \<noteq> None \<and>
    (\<forall>i w. map_of (sv_workers s) i = Some w \<longrightarrow> map_of (sv_workers s') i = Some w)"
proof (cases "map_of (sv_workers s) \<lparr>wid_target = tg_id dm, wid_role = role\<rparr> = None")
  case True
  let ?i = "\<lparr>wid_target = tg_id dm, wid_role = role\<rparr>"
  obtain url w reg where w: "compose_out_url (tg_type dm) (tr_url t) key role = Inr url"
    "registry_register key (sv_registry s) = Inr reg" "fw_ctl w = Launched"
    "fw_spec w = \<lparr>sc_worker_id = ?i, sc_target_type = tg_type dm,
      sc_input_url = sv_loopback_url s, sc_output_url = url\<rparr>" "sv_registry s' = reg"
    "sv_secrets s' = AList.update ?i key (sv_secrets s)" "sv_workers s' = AList.update ?i w (sv_workers s)"
    using spawn_worker_success [OF assms(1) True] by blast
  have new: "served_by pairs s' ?i w"
    unfolding served_by_def
    by (rule exI [of _ t], rule exI [of _ dm], rule exI [of _ key])
      (use assms(3-5) w registry_register_set [OF w(2)] in \<open>simp add: AList.update_conv'\<close>)
  have old: "served_by pairs s' i v" if "served_by pairs s i v" "i \<noteq> ?i" for i v
    using that w registry_register_set [OF w(2)] unfolding served_by_def by (auto simp: AList.update_conv')
  have "map_of old ?i = None" using assms(2) True unfolding all_served_def by (metis option.exhaust option.distinct(1))
  then show ?thesis using assms(2) new old w(7) True unfolding all_served_def by (auto simp: AList.update_conv')
next
  case False
  then have "s' = s" using assms(1) by (simp add: spawn_worker_def Let_def)
  then show ?thesis using False assms(2) by simp
qed

lemma spawn_workers_served:
  assumes "steps (map (spawn_worker env t dm key) rs) s = (s', None)" "all_served old pairs s"
    "(t, dm, Some key) \<in> set pairs" "tg_enabled dm" "set rs \<subseteq> set (roles_for dm)"
  shows "all_served old pairs s' \<and>
    (\<forall>r\<in>set rs. map_of (sv_workers s') \<lparr>wid_target = tg_id dm, wid_role = r\<rparr> \<noteq> None) \<and>
    (\<forall>i w. map_of (sv_workers s) i = Some w \<longrightarrow> map_of (sv_workers s') i = Some w)"
  using assms(1,2,5)
proof (induction rs arbitrary: s)
  case (Cons r rs)
  then obtain u where u: "spawn_worker env t dm key r s = (u, None)"
    "steps (map (spawn_worker env t dm key) rs) u = (s', None)"
    by (auto simp: steps_None simp del: steps.simps)
  have r: "r \<in> set (roles_for dm)" using Cons.prems(3) by simp
  note one = spawn_worker_served [OF u(1) Cons.prems(2) assms(3,4) r]
  have "set rs \<subseteq> set (roles_for dm)" using Cons.prems(3) by simp
  from Cons.IH [OF u(2) conjunct1 [OF one] this] one show ?case by auto
qed simp

definition covered :: "runnable list \<Rightarrow> supervisor \<Rightarrow> bool" where
  "covered ps s \<longleftrightarrow>
     (\<forall>t dm k r. (t, dm, Some k) \<in> set ps \<longrightarrow> tg_enabled dm \<longrightarrow> r \<in> set (roles_for dm) \<longrightarrow>
        map_of (sv_workers s) \<lparr>wid_target = tg_id dm, wid_role = r\<rparr> \<noteq> None)"

lemma start_pair_served:
  assumes "start_pair env p s = (s', None)" "all_served old pairs s" "p \<in> set pairs"
  shows "all_served old pairs s' \<and> covered [p] s' \<and>
    (\<forall>i w. map_of (sv_workers s) i = Some w \<longrightarrow> map_of (sv_workers s') i = Some w)"
proof (cases p)
  case (fields t dm key)
  show ?thesis
  proof (cases "tg_enabled dm \<and> key \<noteq> None")
    case True
    then obtain k where k: "key = Some k" "tg_enabled dm" by blast
    have "steps (map (spawn_worker env t dm k) (roles_for dm)) s = (s', None)"
      using assms(1) k fields by (simp add: start_pair_def spawn_workers_for_target_def)
    from spawn_workers_served [OF this assms(2) _ k(2)] assms(3) show ?thesis
      unfolding covered_def fields k by simp
  next
    case False
    then have "s' = s" using assms(1) fields by (auto simp: start_pair_def split: option.splits)
    then show ?thesis using False assms(2) unfolding covered_def fields by auto
  qed
qed

lemma start_pairs_served:
  assumes "steps (map (start_pair env) ps) s = (s', None)" "all_served old pairs s" "set ps \<subseteq> set pairs"
  shows "all_served old pairs s' \<and> covered ps s' \<and>
    (\<forall>i w. map_of (sv_workers s) i = Some w \<longrightarrow> map_of (sv_workers s') i = Some w)"
  using assms
proof (induction ps arbitrary: s)
  case Nil
  then show ?case by (simp add: covered_def)
next
  case (Cons p ps)
  then obtain u where u: "start_pair env p s = (u, None)" "steps (map (start_pair env) ps) u = (s', None)"
    by (auto simp: steps_None simp del: steps.simps)
  have p: "p \<in> set pairs" "set ps \<subseteq> set pairs" using Cons.prems(3) by simp_all
  note one = start_pair_served [OF u(1) Cons.prems(2) p(1)]
  note rest = Cons.IH [OF u(2) conjunct1 [OF one] p(2)]
  have "covered (p # ps) s'" using one rest unfolding covered_def by (cases p) fastforce
  then show ?case using one rest by blast
qed

lemma spawn_worker_frame:
  "sv_db (fst (spawn_worker env t dm key role s)) = sv_db s \<and>
   sv_run_id (fst (spawn_worker env t dm key role s)) = sv_run_id s \<and>
   sv_bus (fst (spawn_worker env t dm key role s)) = sv_bus s \<and>
   sv_targets (fst (spawn_worker env t dm key role s)) = sv_targets s"
  by (auto simp: spawn_worker_def launch_guarded_def launch_worker_def abandon_worker_def Let_def split: sum.split)

lemma start_pairs_frame:
  "sv_db (fst (steps (map (start_pair env) ps) s)) = sv_db s \<and>
   sv_run_id (fst (steps (map (start_pair env) ps) s)) = sv_run_id s \<and>
   sv_bus (fst (steps (map (start_pair env) ps) s)) = sv_bus s \<and>
   sv_targets (fst (steps (map (start_pair env) ps) s)) = sv_targets s"
proof -
  let ?P = "\<lambda>t. sv_db t = sv_db s \<and> sv_run_id t = sv_run_id s \<and> sv_bus t = sv_bus s \<and> sv_targets t = sv_targets s"
  have one: "?P (fst (spawn_workers_for_target env t dm k u))" if "?P u" for t dm k u
    unfolding spawn_workers_for_target_def
    by (rule steps_invariant [where P = ?P]) (use that spawn_worker_frame in auto)
  show ?thesis
    by (rule steps_invariant [where P = ?P])
      (use one in \<open>auto simp: start_pair_def split: option.split\<close>)
qed

lemma load_rows_cong:
  assumes "db_credentials d = db_credentials d'"
  shows "load_rows L kek d ts = load_rows L kek d' ts"
proof -
  have "load_row L kek d t = load_row L kek d' t" for t
    using assms by (simp add: load_row_def credential_for_target_def)
  then show ?thesis by (induction ts) (simp_all cong: sum.case_cong)
qed

lemma audit_history [simp]: "db_history (sv_db (fst (sv_audit env e t x s))) = db_history (sv_db s)"
  by (auto simp: sv_audit_def append_audit_def Let_def split: sum.split if_splits option.splits)

lemma flush_history [simp]: "db_history (sv_db (flush_failures env is s)) = db_history (sv_db s)"
  by (induction "is" arbitrary: s) simp_all

lemma open_session_success:
  assumes "open_run_session env s = (t, None)"
  shows "sv_run_id t = Some (ev_run_id env) \<and> db_credentials (sv_db t) = db_credentials (sv_db s) \<and>
    db_targets (sv_db t) = db_targets (sv_db s) \<and> sv_key_material t = sv_key_material s \<and>
    (\<exists>row. one_or_none (\<lambda>r. rh_id r = ev_run_id env) (db_history (sv_db t)) = Some row \<and> rh_ended_at row = None)"
proof -
  obtain row d where h: "history_start (ev_run_id env) [(''trigger'', JString ''user_start'')] (ev_now env) (sv_db s) = Inr (row, d)"
    "t = s\<lparr>sv_run_id := Some (rh_id row), sv_db := d\<rparr>"
    using assms by (auto simp: open_run_session_def split: sum.splits if_splits)
  then have "one_or_none (\<lambda>r. rh_id r = ev_run_id env) (db_history (sv_db s)) = None"
    by (auto simp: history_start_def one_or_none_None split: if_splits)
  then show ?thesis using h by (auto simp: history_start_def Let_def split: if_splits)
qed

lemma load_and_spawn_success:
  assumes "load_and_spawn env s = (s', None)"
  shows "sv_run_id s' = sv_run_id s \<and> db_history (sv_db s') = db_history (sv_db s) \<and> sv_bus s' = sv_bus s \<and>
    (\<exists>ds fs pairs. require_ready (sv_key_material s) = Inr ds \<and>
       load_rows (ev_crypto env) (dk_stream_key_kek ds) (sv_db s) (list_enabled_targets (sv_db s)) = (fs, Inr pairs) \<and>
       sv_targets s' = dict_of (map (\<lambda>(t, dm, key). (tr_id t, dm)) pairs) \<and>
       all_served (sv_workers s) pairs s' \<and> covered pairs s')"
proof -
  obtain s1 pairs where l: "load_runnable_targets env s = (s1, Inr pairs)"
    using assms(1) by (auto simp: load_and_spawn_def split: prod.splits sum.splits)
  define s2 where "s2 = flush_failures env (sv_decrypt_failures s1) s1"
  define s3 where "s3 = s2\<lparr>sv_targets := dict_of (map (\<lambda>(t, dm, key). (tr_id t, dm)) pairs),
      sv_target_workers := dict_of (map (\<lambda>(t, dm, key). (tr_id t, [])) pairs)\<rparr>"
  have run: "steps (map (start_pair env) pairs) s3 = (s', None)"
    using assms(1) l by (simp add: load_and_spawn_def s3_def s2_def Let_def)
  have s1: "same_but_log s s1" using load_frame [of s env] l by simp
  obtain ds fs where ds: "require_ready (sv_key_material s) = Inr ds"
    "load_rows (ev_crypto env) (dk_stream_key_kek ds) (sv_db s) (list_enabled_targets (sv_db s)) = (fs, Inr pairs)"
    "sv_db s1 = sv_db s"
    using l by (auto simp: load_runnable_targets_def split: sum.splits if_splits prod.splits)
  have s2: "sv_workers s2 = sv_workers s" "sv_run_id s2 = sv_run_id s" "sv_bus s2 = sv_bus s"
    "db_history (sv_db s2) = db_history (sv_db s)"
    using same_but_log_fields [OF s1] same_but_log_fields [OF flush_frame [of s1 env "sv_decrypt_failures s1"]]
      ds(3) by (simp_all add: s2_def)
  have "all_served (sv_workers s) pairs s3" using s2 by (simp add: all_served_def s3_def)
  from start_pairs_served [OF run this subset_refl] have served: "all_served (sv_workers s) pairs s' \<and> covered pairs s'" by blast
  show ?thesis using start_pairs_frame [of env pairs s3] run s2 ds served by (auto simp: s3_def)
qed

text \<open>The state changes that signals publish.\<close>

fun obs_changes :: "run_state \<Rightarrow> bool list \<Rightarrow> (run_state \<times> run_state \<times> pystr) list" where
  "obs_changes st [] = []"
| "obs_changes st (b # bs) =
     (if b \<and> st = ARMED then (LIVE, ARMED, ''OBS started publishing'') # obs_changes LIVE bs
      else if \<not> b \<and> st = LIVE then (ARMED, LIVE, ''OBS stopped publishing'') # obs_changes ARMED bs else obs_changes st bs)"

definition change_event :: "sv_env \<Rightarrow> run_state \<times> run_state \<times> pystr \<Rightarrow> bus_event" where
  "change_event env = (\<lambda>(new, old, c). \<lparr>be_at = ev_now env, be_monotonic_ns = ev_mns env, be_target_id = None,
     be_payload = RunStateChanged new old c\<rparr>)"

lemma publish_bus: "sv_bus (publish_run_state env q c s) = map_option (\<lambda>b. bus_put b (change_event env (sv_run_state s, q, c))) (sv_bus s)"
  by (cases "sv_bus s") (simp_all add: publish_run_state_def put_event_def update_heartbeat_def change_event_def Let_def)

lemma obs_signals_bus:
  "sv_bus (obs_signals env k s) = map_option (\<lambda>b. foldl bus_put b (map (change_event env) (obs_changes (sv_run_state s) (ev_signals env k)))) (sv_bus s)"
proof -
  have "sv_bus (foldl (\<lambda>s began. if began then notify_obs_publish_began env s else notify_obs_publish_ended env s) t bs) =
      map_option (\<lambda>b. foldl bus_put b (map (change_event env) (obs_changes (sv_run_state t) bs))) (sv_bus t)" for t bs
  proof (induction bs arbitrary: t)
    case (Cons b bs)
    then show ?case
      by (simp add: obs_notify_state) (auto simp: notify_obs_publish_began_def notify_obs_publish_ended_def publish_bus option.map_comp o_def)
  qed (simp add: option.map_ident)
  then show ?thesis by (simp add: obs_signals_def)
qed

text \<open>C2: A start that returns came from OFFLINE and ends with an open row in the run history: ARMED, or
  LIVE when OBS began to publish while its last audit row was written. The enabled targets were loaded and every one with a
  readable key has a worker for each of its roles. Workers an earlier run left behind are kept as they are (an empty
  registry has none); every other worker was started by it, has the composed URL of its target and role, and its key is in
  the redaction registry. What it put on the bus are exactly the state changes.\<close>

theorem start_run_success:
  assumes "start_run env s = (s', None)"
  shows "sv_run_state s = OFFLINE \<and>
    sv_run_state s' = (if ev_signals env ''run_started'' = [] then ARMED else if last (ev_signals env ''run_started'') then LIVE else ARMED) \<and>
    sv_run_id s' = Some (ev_run_id env) \<and>
    (\<exists>row. history_get (sv_db s') (ev_run_id env) = Some row \<and> rh_ended_at row = None) \<and>
    (\<exists>ds fs pairs. require_ready (sv_key_material s) = Inr ds \<and>
       load_rows (ev_crypto env) (dk_stream_key_kek ds) (sv_db s) (list_enabled_targets (sv_db s)) = (fs, Inr pairs) \<and>
       all_served (sv_workers s) pairs s' \<and> covered pairs s') \<and>
    map_option bus_buf (sv_bus s') = map_option (\<lambda>b. bus_buf (foldl bus_put b (map (change_event env)
       ([(STARTING, OFFLINE, ''user pressed START''),
         (ARMED, STARTING, ''all enabled targets have running workers'')] @ obs_changes ARMED (ev_signals env ''run_started''))))) (sv_bus s)"
proof -
  have off: "sv_run_state s = OFFLINE" using assms by (simp add: start_run_def split: if_splits)
  define s1 where "s1 = publish_run_state env OFFLINE ''user pressed START'' (s\<lparr>sv_run_state := STARTING\<rparr>)"
  have "set_run_state env START_REQUESTED ''user pressed START'' s = (s1, None)"
    using off by (simp add: set_run_state_def s1_def)
  then have body: "start_body env s1 = (s', None)"
    using assms off by (auto simp: start_run_def split: prod.splits option.splits)
  then obtain s2 s3 s4 where st: "open_run_session env s1 = (s2, None)" "load_and_spawn env s2 = (s3, None)"
    "set_run_state env WORKERS_SPAWNED ''all enabled targets have running workers'' s3 = (s4, None)"
    "run_started_audit env s4 = (s', None)"
    unfolding start_body_def by (auto simp: steps_None simp del: steps.simps(2))
  have e: "sv_workers s2 = sv_workers s" "sv_run_state s2 = STARTING" "sv_bus s2 = sv_bus s1"
    using open_session_frame [of env s1] unfolding st(1) by (simp_all add: s1_def)
  note opn = open_session_success [OF st(1)]
  note ls = load_and_spawn_success [OF st(2), unfolded e(1)]
  have s3: "sv_run_state s3 = STARTING" using load_and_spawn_run_state [of env s2] st(2) e(2) by simp
  then have s4: "s4 = publish_run_state env STARTING ''all enabled targets have running workers'' (s3\<lparr>sv_run_state := ARMED\<rparr>)"
    using st(3) by (simp add: set_run_state_def)
  define s5 where "s5 = obs_signals env ''run_started'' s4"
  have a: "same_but_db s5 s'" "db_history (sv_db s') = db_history (sv_db s4)"
    using sv_audit_db [of s5 env "''run_started''"] audit_history [of env "''run_started''" None _ s5] st(4)
    unfolding run_started_audit_def s5_def by (metis fst_conv, metis fst_conv obs_signals_frame(1))
  note f = same_but_db_fields [OF a(1)]
  have five: "sv_workers s5 = sv_workers s3" "sv_secrets s5 = sv_secrets s3" "sv_registry s5 = sv_registry s3" "sv_run_id s5 = sv_run_id s3"
    "sv_run_state s5 = obs_state ARMED (ev_signals env ''run_started'')"
    by (simp_all add: s5_def s4 obs_signals_state)
  have "all_served old pairs s3 = all_served old pairs s'" "covered pairs s3 = covered pairs s'" for old pairs
    using f five by (simp_all add: all_served_def covered_def served_by_def)
  moreover have "load_rows L kek (sv_db s2) ts = load_rows L kek (sv_db s) ts" for L kek ts
    using opn by (intro load_rows_cong) (simp add: s1_def)
  moreover have "list_enabled_targets (sv_db s2) = list_enabled_targets (sv_db s)"
    using opn by (simp add: list_enabled_targets_def s1_def)
  moreover have "sv_bus s' = map_option (\<lambda>b. foldl bus_put b (map (change_event env)
       ([(STARTING, OFFLINE, ''user pressed START''),
         (ARMED, STARTING, ''all enabled targets have running workers'')] @ obs_changes ARMED (ev_signals env ''run_started'')))) (sv_bus s)"
    using f ls e(3) by (cases "sv_bus s") (simp_all add: s5_def obs_signals_bus s4 s1_def publish_bus)
  then have "map_option bus_buf (sv_bus s') = map_option (\<lambda>b. bus_buf (foldl bus_put b (map (change_event env)
       ([(STARTING, OFFLINE, ''user pressed START''),
         (ARMED, STARTING, ''all enabled targets have running workers'')] @ obs_changes ARMED (ev_signals env ''run_started''))))) (sv_bus s)"
    by (simp add: option.map_comp o_def)
  moreover have "sv_run_state s' = (if ev_signals env ''run_started'' = [] then ARMED else if last (ev_signals env ''run_started'') then LIVE else ARMED)"
    using f five(5) obs_state_active [of ARMED "ev_signals env ''run_started''"] by simp
  moreover have "sv_run_id s' = Some (ev_run_id env)" using f five(4) ls opn by simp
  moreover have "\<exists>row. history_get (sv_db s') (ev_run_id env) = Some row \<and> rh_ended_at row = None"
    using a(2) ls opn by (simp add: history_get_def s4)
  moreover have "require_ready (sv_key_material s2) = require_ready (sv_key_material s)" using opn by (simp add: s1_def)
  ultimately show ?thesis using off ls by auto
qed

section \<open>A failed start\<close>

lemma sv_ok_secret_key:
  assumes "sv_ok s" "map_of (sv_secrets s) i \<noteq> None"
  shows "i \<in> fst ` set (sv_workers s)"
proof -
  have "map_of (sv_workers s) i \<noteq> None" using assms unfolding sv_ok_def keyed_ok_def by metis
  then show ?thesis by (simp add: map_of_eq_None_iff)
qed

lemma tear_down_all_result:
  assumes "sv_ok s"
  shows "if \<exists>i\<in>set (map fst (sv_workers s)). ev_stop_raises env i
    then snd (tear_down_all_workers env s) = Some SvStopFailed \<and>
      map fst (sv_workers (fst (tear_down_all_workers env s))) = map fst (sv_workers s) \<and>
      sv_secrets (fst (tear_down_all_workers env s)) = sv_secrets s
    else snd (tear_down_all_workers env s) = None \<and>
      sv_workers (fst (tear_down_all_workers env s)) = [] \<and> sv_secrets (fst (tear_down_all_workers env s)) = []"
proof -
  have keys: "map fst (map (\<lambda>(i, w). (i, worker_stop env i w)) (sv_workers s)) = map fst (sv_workers s)"
    by (induction "sv_workers s") auto
  have "fst p \<in> fst ` set (sv_workers s)" if "p \<in> set (sv_secrets s)" for p
  proof -
    have "map_of (sv_secrets s) (fst p) \<noteq> None" using that by (auto simp: map_of_eq_None_iff)
    then show ?thesis by (rule sv_ok_secret_key [OF assms])
  qed
  then show ?thesis using keys
    by (auto simp: tear_down_all_workers_def Let_def filter_empty_conv simp del: map_map intro: rev_image_eqI)
qed

lemma tear_down_all_frame [simp]:
  "sv_db (fst (tear_down_all_workers env s)) = sv_db s"
  "sv_targets (fst (tear_down_all_workers env s)) = sv_targets s"
  by (simp_all add: tear_down_all_workers_def Let_def)

lemma audit_credentials [simp]: "db_credentials (sv_db (fst (sv_audit env e t x s))) = db_credentials (sv_db s)"
  by (auto simp: sv_audit_def append_audit_def Let_def split: sum.split if_splits option.splits)

lemma flush_credentials [simp]: "db_credentials (sv_db (flush_failures env is s)) = db_credentials (sv_db s)"
  by (induction "is" arbitrary: s) simp_all

lemma close_credentials [simp]: "db_credentials (sv_db (fst (close_run_session env r s))) = db_credentials (sv_db s)"
  by (auto simp: close_run_session_def history_end_def Let_def split: sum.split option.split if_splits)

lemma open_credentials [simp]: "db_credentials (sv_db (fst (open_run_session env s))) = db_credentials (sv_db s)"
  by (auto simp: open_run_session_def history_start_def Let_def split: sum.split if_splits)

lemma load_and_spawn_credentials [simp]:
  "db_credentials (sv_db (fst (load_and_spawn env s))) = db_credentials (sv_db s)"
proof (cases "load_runnable_targets env s")
  case (Pair s1 r)
  have "sv_db s1 = sv_db s"
    using Pair by (auto simp: load_runnable_targets_def split: sum.splits if_splits prod.splits)
  then show ?thesis using Pair start_pairs_frame
    by (cases r) (simp_all add: load_and_spawn_def Let_def)
qed

lemma start_body_keeps:
  assumes "sv_run_state s = STARTING"
  shows "sv_run_state (fst (start_body env s)) \<in> {STARTING, ARMED, LIVE} \<and>
    db_credentials (sv_db (fst (start_body env s))) = db_credentials (sv_db s)"
proof -
  have "obs_state ARMED (ev_signals env ''run_started'') \<in> {ARMED, LIVE}"
    using obs_state_active [of ARMED "ev_signals env ''run_started''"] by simp
  then have "sv_run_state (fst (start_body env s)) \<in> {STARTING, ARMED, LIVE}"
    using start_body_state [OF assms, of env "fst (start_body env s)" "snd (start_body env s)"]
    by (metis insertCI insertE prod.collapse)
  moreover have "db_credentials (sv_db (fst (start_body env s))) = db_credentials (sv_db s)"
    unfolding start_body_def
    by (rule steps_invariant [where P = "\<lambda>t. db_credentials (sv_db t) = db_credentials (sv_db s)"])
      (auto simp: run_started_audit_def)
  ultimately show ?thesis ..
qed

text \<open>C19: A start that raises outside OFFLINE was refused and changed nothing. One that raises from
  OFFLINE ends in ERROR without a run id, whatever the signals and the database do meanwhile, and the stored credentials are
  as before, those of single-use targets included; when no worker refuses to stop, no worker and no secret is left.\<close>

theorem start_failure_rolls_back:
  assumes "start_run env s = (s', Some e)" "sv_ok s"
  shows "if sv_run_state s \<noteq> OFFLINE
    then s' = s \<and> e = SvIllegal (IllegalRunStateTransitionError (sv_run_state s) START_REQUESTED)
    else sv_run_state s' = ERROR \<and> sv_run_id s' = None \<and> db_credentials (sv_db s') = db_credentials (sv_db s) \<and>
      ((\<exists>i. ev_stop_raises env i) \<or> sv_workers s' = [] \<and> sv_secrets s' = [])"
proof (cases "sv_run_state s = OFFLINE")
  case True
  define s1 where "s1 = fst (set_run_state env START_REQUESTED ''user pressed START'' s)"
  have s1: "sv_run_state s1 = STARTING" "sv_ok s1" "sv_db s1 = sv_db s"
    "snd (set_run_state env START_REQUESTED ''user pressed START'' s) = None"
    using True assms(2) set_run_state_inv by (simp_all add: s1_def set_run_state_def)
  define s2 where "s2 = fst (start_body env s1)"
  define s3 where "s3 = fst (tear_down_all_workers env (obs_signals env ''teardown'' s2))"
  have s2: "sv_ok s2" "sv_run_state s2 \<in> {STARTING, ARMED, LIVE}" "db_credentials (sv_db s2) = db_credentials (sv_db s)"
    using start_body_inv start_body_keeps s1 by (simp_all add: s2_def)
  have s': "s' = fst (start_rollback env s2)"
    using assms(1) True s1(4) by (auto simp: start_run_def s1_def s2_def split: prod.splits option.splits)
  then have closed: "s' = fst (close_run_session env ''error''
      (fst (set_run_state env UNRECOVERABLE_FAILED ''failure during start_run'' s3)))"
    unfolding start_rollback_def s3_def by (simp add: suppress_def)
  have "sv_ok (obs_signals env ''teardown'' s2)" using s2(1) by (simp add: obs_signals_inv)
  from tear_down_all_result [OF this, of env]
  have s3: "(\<exists>i. ev_stop_raises env i) \<or> sv_workers s3 = [] \<and> sv_secrets s3 = []"
    by (auto simp: s3_def split: if_splits)
  have cred: "db_credentials (sv_db s3) = db_credentials (sv_db s)" using s2(3) by (simp add: s3_def)
  have "sv_run_state s' = ERROR" using start_rollback_state(1) [OF s2(2)] s' by simp
  then show ?thesis using True cred s3 unfolding closed by simp
next
  case False
  then show ?thesis using assms(1) by (auto simp: start_run_def)
qed

section \<open>A stop\<close>

lemma forget_registry_subset: "set (sv_registry (foldl forget_worker s is)) \<subseteq> set (sv_registry s)"
proof (induction "is" arbitrary: s)
  case (Cons i "is")
  have "set (sv_registry (forget_worker s i)) \<subseteq> set (sv_registry s)"
    by (auto simp: forget_worker_def unregister_secret_def registry_unregister_def Let_def split: option.split)
  then show ?case using Cons [of "forget_worker s i"] by auto
qed simp

lemma forget_registry_gone:
  "map_of (sv_secrets s) i = Some key \<Longrightarrow> i \<in> set is \<Longrightarrow> key \<notin> set (sv_registry (foldl forget_worker s is))"
proof (induction "is" arbitrary: s)
  case (Cons j "is")
  show ?case
  proof (cases "j = i")
    case True
    then have "key \<notin> set (sv_registry (forget_worker s j))"
      using Cons.prems(1) by (simp add: forget_worker_def unregister_secret_def registry_unregister_def Let_def)
    then show ?thesis using forget_registry_subset [of "forget_worker s j" "is"] by auto
  next
    case False
    then have "map_of (sv_secrets (forget_worker s j)) i = Some key"
      using Cons.prems(1) by (simp add: forget_worker_def Let_def)
    then show ?thesis using Cons.IH Cons.prems(2) False by simp
  qed
qed simp

lemma same_registry [simp]:
  "sv_registry (fst (sv_audit env e t x s)) = sv_registry s"
  "sv_registry (fst (wipe_per_session_credentials env s)) = sv_registry s"
  by (simp_all add: same_but_db_fields [OF sv_audit_db] same_but_db_fields [OF wipe_db])

lemma stop_cleanup_result:
  assumes "sv_run_state s = STOPPING"
  shows "sv_run_state (fst (stop_cleanup env r s)) = OFFLINE \<and> sv_run_id (fst (stop_cleanup env r s)) = None \<and>
    sv_workers (fst (stop_cleanup env r s)) = sv_workers s \<and> sv_secrets (fst (stop_cleanup env r s)) = sv_secrets s \<and>
    sv_registry (fst (stop_cleanup env r s)) = sv_registry s"
  using assms
  by (simp add: stop_cleanup_def suppress_def same_but_db_fields [OF sv_audit_db] same_but_db_fields [OF wipe_db])
    (simp add: set_run_state_def same_but_db_fields [OF wipe_db])

text \<open>The two parts of an active stop.\<close>

lemma stop_run_parts:
  assumes "sv_run_state s = STARTING \<or> sv_run_state s = ARMED \<or> sv_run_state s = LIVE"
  shows "\<exists>s1. stop_run env r s = (fst (stop_cleanup env r (fst (tear_down_all_workers env s1))),
      snd (tear_down_all_workers env s1)) \<and>
    sv_run_state s1 = STOPPING \<and> sv_workers s1 = sv_workers s \<and> sv_secrets s1 = sv_secrets s \<and>
    sv_target_workers s1 = sv_target_workers s \<and> sv_registry s1 = sv_registry s \<and> sv_targets s1 = sv_targets s \<and>
    sv_db s1 = sv_db s"
proof -
  let ?c = "''stop requested ('' @ r @ '')''"
  have "run_transition (sv_run_state s) STOP_REQUESTED = Inr STOPPING" using assms by auto
  from set_run_state_ok [OF this, of env ?c]
  have "stop_run env r s = (fst (stop_cleanup env r (fst (tear_down_all_workers env (fst (set_run_state env STOP_REQUESTED ?c s))))),
      snd (tear_down_all_workers env (fst (set_run_state env STOP_REQUESTED ?c s))))"
    "sv_run_state (fst (set_run_state env STOP_REQUESTED ?c s)) = STOPPING"
    using assms by (auto simp: stop_run_def split: prod.split)
  then show ?thesis by (intro exI [of _ "fst (set_run_state env STOP_REQUESTED ?c s)"]) simp
qed

text \<open>C3: stopping an active run always ends OFFLINE without a run id, whatever the
  database does. When every worker stops, no worker, secret or registered key of a worker is left;
  when one raises, the error is raised again and the workers and their secrets all stay.\<close>

theorem stop_run_releases:
  assumes "sv_run_state s = STARTING \<or> sv_run_state s = ARMED \<or> sv_run_state s = LIVE" "sv_ok s"
    "stop_run env reason s = (s', e)"
  shows "sv_run_state s' = OFFLINE \<and> sv_run_id s' = None \<and>
    (if \<exists>i\<in>set (map fst (sv_workers s)). ev_stop_raises env i
     then e = Some SvStopFailed \<and> map fst (sv_workers s') = map fst (sv_workers s) \<and> sv_secrets s' = sv_secrets s
     else e = None \<and> sv_workers s' = [] \<and> sv_secrets s' = [] \<and>
       (\<forall>i key. map_of (sv_secrets s) i = Some key \<longrightarrow> key \<notin> set (sv_registry s')))"
proof -
  obtain s1 where s1: "s' = fst (stop_cleanup env reason (fst (tear_down_all_workers env s1)))"
    "e = snd (tear_down_all_workers env s1)" "sv_run_state s1 = STOPPING" "sv_workers s1 = sv_workers s"
    "sv_secrets s1 = sv_secrets s" "sv_target_workers s1 = sv_target_workers s" "sv_registry s1 = sv_registry s"
    using stop_run_parts [OF assms(1), of env reason] assms(3) by auto
  have "sv_ok s1" using assms(2) s1 by (simp add: sv_ok_def)
  note down = tear_down_all_result [OF this, of env]
  have "key \<notin> set (sv_registry (fst (tear_down_all_workers env s1)))"
    if "\<not> (\<exists>i\<in>set (map fst (sv_workers s)). ev_stop_raises env i)" "map_of (sv_secrets s) i = Some key" for i key
  proof -
    have "i \<in> set (map fst (sv_workers s))"
      using that(2) sv_ok_secret_key [OF assms(2), of i] by simp
    then show ?thesis
      using that forget_registry_gone [of "s1\<lparr>sv_workers := _\<rparr>" i key "map fst (sv_workers s)"] s1
      by (simp add: tear_down_all_workers_def Let_def)
  qed
  then show ?thesis using down s1 stop_cleanup_result [of "fst (tear_down_all_workers env s1)" env reason]
    by auto
qed

lemma delete_credentials_rows:
  "db_credentials (snd (delete_credentials ids d)) = filter (\<lambda>r. cr_target_id r \<notin> set ids) (db_credentials d)"
proof -
  let ?f = "\<lambda>(cleared, d) i. case delete_credential_for_target i d of
      (True, d') \<Rightarrow> (cleared @ [i], d') | (False, d') \<Rightarrow> (cleared, d')"
  have one: "snd (?f x i) = snd (delete_credential_for_target i (snd x))" for x i
    by (cases x) (auto split: prod.split bool.split)
  have "db_credentials (snd (foldl ?f x ids)) = filter (\<lambda>r. cr_target_id r \<notin> set ids) (db_credentials (snd x))" for x
  proof (induction ids arbitrary: x)
    case (Cons i ids)
    have "db_credentials (snd (?f x i)) = filter (\<lambda>r. cr_target_id r \<noteq> i) (db_credentials (snd x))"
      unfolding one by (simp add: delete_credential_for_target_def delete_where_def)
    then show ?case using Cons [of "?f x i"] by (auto intro!: filter_cong)
  qed simp
  from this [of "([], d)"] show ?thesis by (simp add: delete_credentials_def)
qed

lemma audits_credentials:
  "db_credentials (sv_db (fst (steps (map (\<lambda>i. sv_audit env e (f i) x) is) s))) = db_credentials (sv_db s)"
  by (rule steps_invariant [where P = "\<lambda>t. db_credentials (sv_db t) = db_credentials (sv_db s)"]) auto

lemma wipe_credentials:
  assumes "ev_db env ''wipe'' = Commits"
  shows "db_credentials (sv_db (fst (wipe_per_session_credentials env s))) =
    filter (\<lambda>r. cr_target_id r \<notin> set (per_session_ids s)) (db_credentials (sv_db s))"
proof (cases "per_session_ids s = []")
  case False
  then show ?thesis using assms delete_credentials_rows [of "per_session_ids s" "sv_db s"]
    by (cases "delete_credentials (per_session_ids s) (sv_db s)")
      (simp add: wipe_per_session_credentials_def audits_credentials)
qed (simp add: wipe_per_session_credentials_def)

text \<open>C4: In an active stop, workers that refuse to stop included, the credentials of
  the single-use targets of the run are deleted in one transaction: when it commits they are gone and no other credential is
  touched; when it fails the failure is suppressed, every credential stays, and the stop goes on and ends OFFLINE
  all the same, with the same error as otherwise.\<close>

theorem stop_run_wipes:
  assumes "sv_run_state s = STARTING \<or> sv_run_state s = ARMED \<or> sv_run_state s = LIVE"
  shows "db_credentials (sv_db (fst (stop_run env reason s))) =
    (if ev_db env ''wipe'' = Commits
     then filter (\<lambda>r. cr_target_id r \<notin> tg_id ` {t \<in> snd ` set (sv_targets s). lifetime_for (tg_type t) = PER_SESSION})
       (db_credentials (sv_db s))
     else db_credentials (sv_db s)) \<and>
    sv_run_state (fst (stop_run env reason s)) = OFFLINE \<and>
    snd (stop_run env reason s) = (if \<exists>i\<in>set (map fst (sv_workers s)). ev_stop_raises env i then Some SvStopFailed else None)"
proof -
  obtain s1 where s1: "stop_run env reason s = (fst (stop_cleanup env reason (fst (tear_down_all_workers env s1))),
      snd (tear_down_all_workers env s1))" "sv_targets s1 = sv_targets s" "sv_db s1 = sv_db s" "sv_run_state s1 = STOPPING"
      "sv_workers s1 = sv_workers s"
    using stop_run_parts [OF assms] by blast
  define t where "t = fst (tear_down_all_workers env s1)"
  have t: "sv_targets t = sv_targets s" "sv_db t = sv_db s" "sv_run_state t = STOPPING" using s1 by (simp_all add: t_def)
  have ids: "set (per_session_ids s) = tg_id ` {t \<in> snd ` set (sv_targets s). lifetime_for (tg_type t) = PER_SESSION}"
    by (auto simp: per_session_ids_def)
  have per: "per_session_ids t = per_session_ids s" unfolding per_session_ids_def t ..
  have "db_credentials (sv_db (fst (wipe_per_session_credentials env t))) =
      (if ev_db env ''wipe'' = Commits then filter (\<lambda>r. cr_target_id r \<notin> set (per_session_ids s)) (db_credentials (sv_db s))
       else db_credentials (sv_db s))"
    using wipe_credentials [of env t] per t by (simp add: wipe_per_session_credentials_def [of env t])
  then have "db_credentials (sv_db (fst (stop_run env reason s))) =
    (if ev_db env ''wipe'' = Commits
     then filter (\<lambda>r. cr_target_id r \<notin> tg_id ` {t \<in> snd ` set (sv_targets s). lifetime_for (tg_type t) = PER_SESSION})
       (db_credentials (sv_db s)) else db_credentials (sv_db s))"
    by (simp add: s1(1) t_def [symmetric] stop_cleanup_def suppress_def ids del: lifetime_for_simps)
  moreover have "sv_run_state (fst (stop_run env reason s)) = OFFLINE"
    using stop_cleanup_state [OF t(3)] s1(1) by (simp add: t_def)
  moreover have "snd (stop_run env reason s) =
      (if \<exists>i\<in>set (map fst (sv_workers s)). ev_stop_raises env i then Some SvStopFailed else None)"
    using s1(1,5) by (simp add: tear_down_all_workers_def Let_def)
  ultimately show ?thesis by blast
qed

section \<open>Disabling a target\<close>

lemma tear_down_worker_maps:
  assumes "sv_ok s"
  shows "map_of (sv_workers (tear_down_worker env tid s i)) = (map_of (sv_workers s))(i := None)"
    "map_of (sv_secrets (tear_down_worker env tid s i)) = (map_of (sv_secrets s))(i := None)"
proof -
  have "map_of (sv_secrets s) i = None" if "map_of (sv_workers s) i = None"
    using that assms by (simp add: sv_ok_def keyed_ok_def)
  then show "map_of (sv_workers (tear_down_worker env tid s i)) = (map_of (sv_workers s))(i := None)"
    "map_of (sv_secrets (tear_down_worker env tid s i)) = (map_of (sv_secrets s))(i := None)"
    by (auto simp: tear_down_worker_def Let_def alist_conv fun_eq_iff)
qed

lemma tear_down_workers_maps:
  assumes "sv_ok s" "\<forall>i\<in>set is. wid_target i = tid"
  shows "map_of (sv_workers (foldl (tear_down_worker env tid) s is)) j = (if j \<in> set is then None else map_of (sv_workers s) j) \<and>
    map_of (sv_secrets (foldl (tear_down_worker env tid) s is)) j = (if j \<in> set is then None else map_of (sv_secrets s) j)"
  using assms
proof (induction "is" arbitrary: s)
  case (Cons i "is")
  have ok: "sv_ok (tear_down_worker env tid s i)" "\<forall>i\<in>set is. wid_target i = tid"
    using Cons.prems by (auto intro: tear_down_worker_ok)
  from Cons.IH [OF ok] show ?case using tear_down_worker_maps [OF Cons.prems(1), of env tid i] by auto
qed simp

text \<open>Disabling a target removes exactly the workers listed for it and their
  secrets, whether or not their stops raise, empties its list and changes no other target's worker,
  nor the run state.\<close>

theorem disable_target_exact:
  assumes "sv_ok s"
  shows "map_of (sv_workers (disable_target env tid s)) j =
      (if j \<in> set (workers_of tid s) then None else map_of (sv_workers s) j) \<and>
    map_of (sv_secrets (disable_target env tid s)) j =
      (if j \<in> set (workers_of tid s) then None else map_of (sv_secrets s) j) \<and>
    workers_of tid (disable_target env tid s) = [] \<and> sv_run_state (disable_target env tid s) = sv_run_state s"
proof -
  have own: "\<forall>i\<in>set (workers_of tid s). wid_target i = tid \<and> map_of (sv_workers s) i \<noteq> None"
    using assms by (cases "map_of (sv_target_workers s) tid") (auto simp: sv_ok_def keyed_ok_def workers_of_def)
  then have maps: "map_of (sv_workers (disable_target env tid s)) j =
      (if j \<in> set (workers_of tid s) then None else map_of (sv_workers s) j)"
    "map_of (sv_secrets (disable_target env tid s)) j =
      (if j \<in> set (workers_of tid s) then None else map_of (sv_secrets s) j)" for j
    using tear_down_workers_maps [OF assms, of "workers_of tid s" tid env j]
    by (simp_all add: disable_target_def tear_down_workers_for_target_def)
  have listed: "set (workers_of tid (foldl (tear_down_worker env tid) t is)) \<subseteq> set (workers_of tid t)" for t "is"
  proof (induction "is" arbitrary: t)
    case (Cons i "is")
    have "set (workers_of tid (tear_down_worker env tid t i)) \<subseteq> set (workers_of tid t)"
      by (cases "map_of (sv_target_workers t) tid")
        (auto simp: workers_of_def tear_down_worker_def Let_def map_of_discard)
    then show ?case using Cons [of "tear_down_worker env tid t i"] by auto
  qed simp
  have "sv_ok (disable_target env tid s)" using assms tear_down_target_ok by (simp add: disable_target_def)
  then have known: "map_of (sv_workers (disable_target env tid s)) i \<noteq> None"
    if "i \<in> set (workers_of tid (disable_target env tid s))" for i
    using that by (cases "map_of (sv_target_workers (disable_target env tid s)) tid")
      (auto simp: sv_ok_def keyed_ok_def workers_of_def)
  have gone: "i \<notin> set (workers_of tid s)" if "i \<in> set (workers_of tid (disable_target env tid s))" for i
    using known [OF that] maps(1) [of i] by auto
  have sub: "set (workers_of tid (disable_target env tid s)) \<subseteq> set (workers_of tid s)"
    using listed [of s "workers_of tid s"] by (simp add: disable_target_def tear_down_workers_for_target_def)
  have "set (workers_of tid (disable_target env tid s)) = {}"
    by (rule equals0I) (use gone sub in auto)
  then show ?thesis using maps by (simp add: disable_target_def)
qed

section \<open>Worker events\<close>

text \<open>An event of a known worker refreshes the snapshot of its role on the
  target with the worker's state at that moment and its failure count, publishes the target's new
  dashboard state as the newest bus event, and changes no other target, no secret and no run state.\<close>

theorem worker_event_published:
  assumes "map_of (sv_workers s) i = Some w" "map_of (sv_targets s) (wid_target i) = Some t"
    "sv_bus s = Some b" "0 < bus_capacity b"
  shows "\<exists>t' b'. map_of (sv_targets (handle_worker_event env i e s)) =
      (map_of (sv_targets s))(wid_target i \<mapsto> t') \<and>
    worker_set_role t' (wid_role (sc_worker_id (fw_spec w))) = Some (snd (fw_snapshot w (ev_now env))) \<and>
    sv_bus (handle_worker_event env i e s) = Some b' \<and>
    last (bus_buf b') = \<lparr>be_at = ev_now env, be_monotonic_ns = ev_mns env, be_target_id = Some (tg_id t),
      be_payload = TargetSnapshot (tg_id t) (compute_ui_state t') (role_snapshots t')\<rparr> \<and>
    sv_run_state (handle_worker_event env i e s) = sv_run_state s \<and>
    sv_secrets (handle_worker_event env i e s) = sv_secrets s"
proof -
  obtain w' snap where f: "fw_snapshot w (ev_now env) = (w', snap)" by fastforce
  then have role: "ws_role snap = wid_role (sc_worker_id (fw_spec w))"
    by (auto simp: fw_snapshot_def split: prod.splits)
  define t' where "t' = ingest_snapshot t snap"
  let ?ev = "\<lparr>be_at = ev_now env, be_monotonic_ns = ev_mns env, be_target_id = Some (tg_id t),
      be_payload = TargetSnapshot (tg_id t) (compute_ui_state t') (role_snapshots t')\<rparr>"
  define s2 where "s2 = publish_target_snapshot env (tg_id t') (compute_ui_state t') (role_snapshots t')
      (s\<lparr>sv_workers := AList.update i w' (sv_workers s), sv_targets := AList.update (wid_target i) t' (sv_targets s)\<rparr>)"
  have id: "tg_id t' = tg_id t" by (simp add: t'_def ingest_snapshot_def)
  have s2: "map_of (sv_targets s2) = (map_of (sv_targets s))(wid_target i \<mapsto> t')"
    "sv_bus s2 = Some (bus_put b ?ev)" "sv_run_state s2 = sv_run_state s" "sv_secrets s2 = sv_secrets s"
    using assms(3) id by (simp_all add: s2_def publish_target_snapshot_def put_event_def AList.update_conv')
  have "same_but_db s2 (handle_worker_event env i e s)"
    using assms(1,2) f sv_audit_db
    by (simp add: handle_worker_event_def Let_def s2_def t'_def split: option.split)
  note h = same_but_db_fields [OF this]
  have "last (bus_buf (bus_put b ?ev)) = ?ev"
    using assms(4) by (simp add: bus_put_def deque_append_def tail_slice_def Let_def)
  moreover have "worker_set_role t' (ws_role snap) = Some snap"
    by (simp add: t'_def ingest_snapshot_def worker_set_role_def)
  ultimately show ?thesis using h s2 f role by (intro exI [of _ t'] exI [of _ "bus_put b ?ev"]) simp
qed

section \<open>The lock and the run state\<close>

lemma steps_commute:
  "(\<And>f t. f \<in> set fs \<Longrightarrow> f (h t) = (case f t of (u, r) \<Rightarrow> (h u, r))) \<Longrightarrow>
    steps fs (h s) = (case steps fs s of (u, r) \<Rightarrow> (h u, r))"
proof (induction fs arbitrary: s)
  case (Cons f fs)
  have "f (h s) = (case f s of (u, r) \<Rightarrow> (h u, r))" using Cons.prems by simp
  moreover have "steps fs (h u) = (case steps fs u of (v, r) \<Rightarrow> (h v, r))" for u
    using Cons.IH Cons.prems by simp
  ultimately show ?case by (auto split: prod.split option.split)
qed simp

lemma unregister_other_state:
  "unregister_secret i (s\<lparr>sv_run_state := st\<rparr>) = (unregister_secret i s)\<lparr>sv_run_state := st\<rparr>"
  by (cases s) (simp add: unregister_secret_def split: option.split)

lemma launch_other_state:
  "launch_guarded env spec (s\<lparr>sv_run_state := st\<rparr>) = (case launch_guarded env spec s of (u, r) \<Rightarrow> (u\<lparr>sv_run_state := st\<rparr>, r))"
proof -
  have "launch_worker env spec (s\<lparr>sv_run_state := st\<rparr>) =
      (case launch_worker env spec s of (u, r) \<Rightarrow> (u\<lparr>sv_run_state := st\<rparr>, r))"
    by (cases s) (simp add: launch_worker_def Let_def split: sum.split)
  moreover have "abandon_worker i (u\<lparr>sv_run_state := st\<rparr>) = (abandon_worker i u)\<lparr>sv_run_state := st\<rparr>" for i u
    by (cases u) (simp add: abandon_worker_def unregister_secret_def Let_def split: option.split)
  ultimately show ?thesis by (auto simp: launch_guarded_def split: prod.split option.split)
qed

lemma spawn_other_state:
  "spawn_worker env t dm key role (s\<lparr>sv_run_state := st\<rparr>) =
    (case spawn_worker env t dm key role s of (u, r) \<Rightarrow> (u\<lparr>sv_run_state := st\<rparr>, r))"
proof -
  have swap: "s\<lparr>sv_run_state := st, sv_registry := x, sv_secrets := y\<rparr> =
      (s\<lparr>sv_registry := x, sv_secrets := y\<rparr>)\<lparr>sv_run_state := st\<rparr>" for x y
    by (cases s) simp
  show ?thesis
    by (simp add: spawn_worker_def Let_def swap launch_other_state split: sum.split)
qed

text \<open>What \<^verbatim>\<open>enable_target\<close> does under the lock does not depend on the run
  state, which was checked before the lock was taken: it spawns the workers as well when the run
  has been stopped, or failed, in between.\<close>

theorem enable_ignores_run_state:
  "enable_locked env tid (s\<lparr>sv_run_state := st\<rparr>) =
    (case enable_locked env tid s of (s', e) \<Rightarrow> (s'\<lparr>sv_run_state := st\<rparr>, e))"
proof -
  have swap: "s\<lparr>sv_run_state := st, sv_targets := x, sv_target_workers := y\<rparr> =
      (s\<lparr>sv_targets := x, sv_target_workers := y\<rparr>)\<lparr>sv_run_state := st\<rparr>" for x y
    by (cases s) simp
  have "spawn_workers_for_target env t dm key (u\<lparr>sv_run_state := st\<rparr>) =
      (case spawn_workers_for_target env t dm key u of (u', e) \<Rightarrow> (u'\<lparr>sv_run_state := st\<rparr>, e))" for t dm key u
    unfolding spawn_workers_for_target_def
    by (rule steps_commute [where h = "\<lambda>u. u\<lparr>sv_run_state := st\<rparr>"]) (auto simp: spawn_other_state)
  moreover have "reload_target env tid (s\<lparr>sv_run_state := st\<rparr>) = reload_target env tid s"
  proof -
    have e: "sv_db (s\<lparr>sv_run_state := st\<rparr>) = sv_db s" "sv_key_material (s\<lparr>sv_run_state := st\<rparr>) = sv_key_material s"
      by simp_all
    show ?thesis unfolding reload_target_def e by (rule refl)
  qed
  ultimately show ?thesis
    by (auto simp: enable_locked_def Let_def swap split: sum.split option.split)
qed

section \<open>A concrete run\<close>

definition sample_keys :: key_material where
  "sample_keys = \<lparr>km_kdf_salt = replicate 16 CHR ''s'', km_state = READY,
     km_keys = Some \<lparr>dk_stream_key_kek = replicate 32 CHR ''k'', dk_api_token_mac_key = replicate 32 CHR ''a'',
       dk_session_token_mac_key = replicate 32 CHR ''b''\<rparr>\<rparr>"

definition sample_run_db :: database where
  "sample_run_db = sample_db\<lparr>db_credentials := [\<lparr>cr_id = ''c1'', cr_target_id = ''t1'', cr_lifetime = ''persistent'',
     cr_ciphertext = replicate 16 (CHR 0x00) @ ''live_1234567890'', cr_nonce = replicate 12 CHR ''n'',
     cr_salt = replicate 16 CHR ''s'', cr_last4 = ''7890'', cr_created_at = 0, cr_expires_at = None\<rparr>]\<rparr>"

definition sample_sv :: supervisor where
  "sample_sv = (new_supervisor sample_run_db sample_keys [] ''rtmp://127.0.0.1/live/k'' 0)
     \<lparr>sv_group_open := True, sv_bus := Some \<lparr>bus_buf = [], bus_capacity = 10, dropped_total = 0\<rparr>\<rparr>"

definition sample_env :: sv_env where
  "sample_env = \<lparr>ev_now = 5, ev_mns = 5, ev_run_id = ''r1'', ev_db = (\<lambda>_. Commits), ev_crypto = toy_lib,
     ev_isoformat = (\<lambda>_. ''now''), ev_stop_inputs = (\<lambda>_. []), ev_stop_raises = (\<lambda>_. False), ev_signals = (\<lambda>_. [])\<rparr>"

definition sample_worker :: worker_id where
  "sample_worker = \<lparr>wid_target = ''t1'', wid_role = PRIMARY\<rparr>"

text \<open>One start; its state as a name, so that it is evaluated once.\<close>

definition sample_started :: supervisor where
  "sample_started = fst (start_run sample_env sample_sv)"

lemma sample_start:
  "case start_run sample_env sample_sv of (s, e) \<Rightarrow> e = None \<and> map fst (sv_workers s) = [sample_worker] \<and>
     sv_run_state s = ARMED \<and> map fst (sv_targets s) = [''t1''] \<and> workers_of ''t1'' s = [sample_worker] \<and>
     sv_secrets s = [(sample_worker, ''live_1234567890'')] \<and> sv_registry s = [''live_1234567890''] \<and>
     map_option bus_capacity (sv_bus s) = Some 10"
  by code_simp

lemma sample_race:
  "case stop_run sample_env ''user_stop'' (sv_do sample_sv (StartRun, sample_env)) of (s, e) \<Rightarrow>
     e = None \<and> sv_workers s = [] \<and> sv_run_state s = OFFLINE \<and>
     map fst (sv_workers (fst (enable_locked sample_env ''t1'' s))) = [sample_worker]"
  by code_simp

lemma sample_sv_ok: "sv_ok sample_sv"
  by (simp add: sample_sv_def sv_ok_new)

lemma sample_started:
  "start_run sample_env sample_sv = (sample_started, None)" "map fst (sv_workers sample_started) = [sample_worker]"
  "sv_run_state sample_started = ARMED" "map fst (sv_targets sample_started) = [''t1'']"
  "workers_of ''t1'' sample_started = [sample_worker]"
  "sv_secrets sample_started = [(sample_worker, ''live_1234567890'')]"
  "map_option bus_capacity (sv_bus sample_started) = Some 10" "sv_ok sample_started"
  using sample_start start_run_inv [OF sample_sv_ok, of sample_env]
  by (simp_all add: sample_started_def split: prod.splits)

theorem error_is_permanent_witness:
  "\<exists>s. sv_run_state s = ERROR \<and> sv_run_state (sv_run s [(StopRun ''user_stop'', sample_env), (StartRun, sample_env)]) = ERROR"
proof -
  have "sv_run_state (sample_sv\<lparr>sv_run_state := ERROR\<rparr>) = ERROR" by simp
  from error_is_permanent [OF this] this show ?thesis by blast
qed

theorem start_run_success_witness:
  "sv_run_id sample_started = Some ''r1'' \<and> sv_run_state sample_sv = OFFLINE"
proof -
  from start_run_success [OF sample_started(1)] show ?thesis by (simp add: sample_env_def)
qed

definition failing_env :: sv_env where
  "failing_env = sample_env\<lparr>ev_db := (\<lambda>l. if l = ''load'' then FailsEarly else Commits)\<rparr>"

lemma sample_failure: "snd (start_run failing_env sample_sv) = Some (SvTransaction ''load'')"
  by code_simp

theorem start_failure_rolls_back_witness:
  "\<exists>s. start_run failing_env sample_sv = (s, Some (SvTransaction ''load'')) \<and> sv_run_state s = ERROR \<and> sv_workers s = []"
proof -
  have h: "start_run failing_env sample_sv = (fst (start_run failing_env sample_sv), Some (SvTransaction ''load''))"
    "sv_run_state sample_sv = OFFLINE" "\<forall>i. \<not> ev_stop_raises failing_env i"
    using sample_failure
    by (simp_all add: prod_eq_iff sample_sv_def new_supervisor_def failing_env_def sample_env_def)
  note result = start_failure_rolls_back [OF h(1) sample_sv_ok, unfolded h(2) simp_thms if_False]
  have "sv_run_state (fst (start_run failing_env sample_sv)) = ERROR" using result by (rule conjunct1)
  moreover have "sv_workers (fst (start_run failing_env sample_sv)) = []" using result h(3) by blast
  ultimately
  show ?thesis using h(1) by metis
qed

theorem stop_run_releases_witness:
  "\<exists>s. stop_run sample_env ''user_stop'' sample_started = (s, None) \<and> sv_run_state s = OFFLINE \<and> sv_workers s = []"
proof -
  obtain s e where st: "stop_run sample_env ''user_stop'' sample_started = (s, e)" by fastforce
  have "sv_run_state sample_started = STARTING \<or> sv_run_state sample_started = ARMED \<or> sv_run_state sample_started = LIVE"
    by (simp add: sample_started(3))
  from stop_run_releases [OF this sample_started(8) st] st show ?thesis by (simp add: sample_env_def)
qed

definition sample_vk_run :: supervisor where
  "sample_vk_run = sample_sv\<lparr>sv_run_state := LIVE,
     sv_targets := [(''t1'', sample_target\<lparr>tg_type := VK_LIVE\<rparr>)]\<rparr>"

theorem stop_run_wipes_witness:
  "length (db_credentials (sv_db sample_vk_run)) = 1 \<and>
    db_credentials (sv_db (fst (stop_run sample_env ''user_stop'' sample_vk_run))) = []"
proof -
  have h: "sv_run_state sample_vk_run = STARTING \<or> sv_run_state sample_vk_run = ARMED \<or> sv_run_state sample_vk_run = LIVE"
    "ev_db sample_env ''wipe'' = Commits" by (simp_all add: sample_vk_run_def sample_env_def)
  have "sv_db sample_vk_run = sample_run_db"
    "snd ` set (sv_targets sample_vk_run) = {sample_target\<lparr>tg_type := VK_LIVE\<rparr>}"
    by (simp_all add: sample_vk_run_def sample_sv_def new_supervisor_def)
  then show ?thesis using stop_run_wipes [OF h(1), of sample_env "''user_stop''"] h(2)
    by (simp add: sample_run_db_def sample_target_def Collect_conv_if)
qed

theorem disable_target_exact_witness:
  "map_of (sv_workers (disable_target sample_env ''t1'' sample_started)) sample_worker = None \<and>
   map_of (sv_workers sample_started) sample_worker \<noteq> None"
proof -
  have "map_of (sv_workers sample_started) sample_worker \<noteq> None"
    using sample_started(2) by (auto simp: map_of_eq_None_iff simp flip: set_map)
  then show ?thesis
    using disable_target_exact [OF sample_started(8), of sample_env "''t1''" sample_worker] sample_started(5) by simp
qed

definition sample_event :: worker_event where
  "sample_event = \<lparr>we_worker_id = sample_worker, we_at = 5, we_monotonic_ns = 5, we_kind = K_STATE,
     we_payload = StateEvent W_STARTING W_IDLE ''initial start''\<rparr>"

theorem worker_event_published_witness:
  "\<exists>w t'. map_of (sv_targets (handle_worker_event sample_env sample_worker sample_event sample_started)) ''t1'' = Some t' \<and>
    map_of (sv_workers sample_started) sample_worker = Some w \<and>
    worker_set_role t' (wid_role (sc_worker_id (fw_spec w))) = Some (snd (fw_snapshot w 5))"
proof -
  have "map_of (sv_workers sample_started) sample_worker \<noteq> None"
    "map_of (sv_targets sample_started) (wid_target sample_worker) \<noteq> None"
    using sample_started(2,4) by (simp_all add: map_of_eq_None_iff sample_worker_def flip: set_map)
  then obtain w t where w: "map_of (sv_workers sample_started) sample_worker = Some w"
    "map_of (sv_targets sample_started) (wid_target sample_worker) = Some t"
    by auto
  obtain b where b: "sv_bus sample_started = Some b" "0 < bus_capacity b" using sample_started(7) by auto
  from worker_event_published [OF w b, of sample_env sample_event] w(1) show ?thesis
    by (auto simp: sample_env_def sample_worker_def)
qed

text \<open>C14: after any sequence of operations on a new supervisor, a worker has its
  secret on file exactly when it is registered, every registered worker has made legal transitions
  only, and a target lists only registered workers of its own.\<close>

theorem supervisor_bookkeeping:
  assumes "s = sv_run (new_supervisor d k r url mns) ops"
  shows "(map_of (sv_secrets s) i = None) = (map_of (sv_workers s) i = None) \<and>
    (map_of (sv_workers s) i = Some w \<longrightarrow> fw_warnings w = [] \<and> fw_ctl_ok (fw_ctl w) (fw_state w)) \<and>
    (i \<in> set (workers_of tid s) \<longrightarrow> wid_target i = tid \<and> map_of (sv_workers s) i \<noteq> None)"
proof -
  have ok: "sv_ok s" using assms sv_ok_run [OF sv_ok_new] by simp
  then have "fw_ok w" if "map_of (sv_workers s) i = Some w" using that by (simp add: sv_ok_def keyed_ok_def)
  then show ?thesis using ok
    by (cases "map_of (sv_target_workers s) tid") (auto simp: sv_ok_def keyed_ok_def fw_ok_def workers_of_def)
qed

text \<open>A run with a worker.\<close>

definition sample_new :: supervisor where
  "sample_new = new_supervisor sample_run_db sample_keys [] ''rtmp://127.0.0.1/live/k'' 0"

definition sample_ops :: "(sv_op \<times> sv_env) list" where
  "sample_ops = [(RunBegin \<lparr>bus_buf = [], bus_capacity = 10, dropped_total = 0\<rparr>, sample_env), (StartRun, sample_env)]"

lemma sample_run: "map fst (sv_workers (sv_run sample_new sample_ops)) = [sample_worker]"
  by code_simp

theorem supervisor_bookkeeping_witness:
  "\<exists>w. map_of (sv_workers (sv_run sample_new sample_ops)) sample_worker = Some w \<and> fw_warnings w = [] \<and>
    map_of (sv_secrets (sv_run sample_new sample_ops)) sample_worker \<noteq> None"
proof -
  have "map_of (sv_workers (sv_run sample_new sample_ops)) sample_worker \<noteq> None"
    using sample_run by (auto simp: map_of_eq_None_iff simp flip: set_map)
  then show ?thesis
    using supervisor_bookkeeping [OF refl, of sample_run_db sample_keys "[]" "''rtmp://127.0.0.1/live/k''" 0 sample_ops sample_worker]
    by (auto simp: sample_new_def)
qed

end
