(* ===== verification/Auth_Deps.thy ===== *)
theory Auth_Deps
  imports Api_Tokens Reprompts Client_Ip Supervisor
begin

text \<open>
  The boundary between the services and HTTP: the error codes of \<^verbatim>\<open>app/api/errors.py\<close> and the
  dependencies of \<^verbatim>\<open>app/auth/deps.py\<close>. \<open>app\<close> is what the process holds: the supervisor (with the
  committed database and the key service) and the fields of \<^verbatim>\<open>AuthState\<close>. A request works on its own
  transaction, committed when the handler returns and rolled back when anything raises, also when a
  dependency raises the HTTP error; the stores in memory are not rolled back.
\<close>

section \<open>Errors\<close>

datatype error_code =
  EC_SERVICE_LOCKED | EC_SERVICE_UNLOCKING | EC_UNLOCK_FAILED | EC_UNLOCK_RATE_LIMITED
| EC_UNAUTHORIZED | EC_INVALID_CREDENTIALS | EC_RATE_LIMITED | EC_REPROMPT_REQUIRED
| EC_REPROMPT_INVALID_OR_EXPIRED | EC_TARGET_NOT_FOUND | EC_TARGET_IN_USE | EC_TARGET_MISCONFIGURED
| EC_CREDENTIAL_REQUIRED | EC_UNKNOWN_TARGET_TYPE | EC_INVALID_TARGET_URL | EC_ILLEGAL_RUN_STATE
| EC_INGEST_KEY_INVALID | EC_API_TOKEN_NOT_FOUND | EC_CREDENTIAL_NOT_FOUND | EC_NEW_PASSPHRASE_TOO_WEAK
| EC_SAME_PASSPHRASE | EC_RUN_ACTIVE | EC_SESSION_NOT_FOUND | EC_AUTH_STATE_NOT_INITIALISED
| EC_NOT_FOUND | EC_BAD_REQUEST

fun error_code_value :: "error_code \<Rightarrow> pystr" where
  "error_code_value EC_SERVICE_LOCKED = ''service_locked''"
| "error_code_value EC_SERVICE_UNLOCKING = ''service_unlocking''"
| "error_code_value EC_UNLOCK_FAILED = ''unlock_failed''"
| "error_code_value EC_UNLOCK_RATE_LIMITED = ''unlock_rate_limited''"
| "error_code_value EC_UNAUTHORIZED = ''unauthorized''"
| "error_code_value EC_INVALID_CREDENTIALS = ''invalid_credentials''"
| "error_code_value EC_RATE_LIMITED = ''rate_limited''"
| "error_code_value EC_REPROMPT_REQUIRED = ''reprompt_required''"
| "error_code_value EC_REPROMPT_INVALID_OR_EXPIRED = ''reprompt_invalid_or_expired''"
| "error_code_value EC_TARGET_NOT_FOUND = ''target_not_found''"
| "error_code_value EC_TARGET_IN_USE = ''target_in_use''"
| "error_code_value EC_TARGET_MISCONFIGURED = ''target_misconfigured''"
| "error_code_value EC_CREDENTIAL_REQUIRED = ''credential_required''"
| "error_code_value EC_UNKNOWN_TARGET_TYPE = ''unknown_target_type''"
| "error_code_value EC_INVALID_TARGET_URL = ''invalid_target_url''"
| "error_code_value EC_ILLEGAL_RUN_STATE = ''illegal_run_state''"
| "error_code_value EC_INGEST_KEY_INVALID = ''ingest_key_invalid''"
| "error_code_value EC_API_TOKEN_NOT_FOUND = ''api_token_not_found''"
| "error_code_value EC_CREDENTIAL_NOT_FOUND = ''credential_not_found''"
| "error_code_value EC_NEW_PASSPHRASE_TOO_WEAK = ''new_passphrase_too_weak''"
| "error_code_value EC_SAME_PASSPHRASE = ''same_passphrase''"
| "error_code_value EC_RUN_ACTIVE = ''run_active''"
| "error_code_value EC_SESSION_NOT_FOUND = ''session_not_found''"
| "error_code_value EC_AUTH_STATE_NOT_INITIALISED = ''auth_state_not_initialised''"
| "error_code_value EC_NOT_FOUND = ''not_found''"
| "error_code_value EC_BAD_REQUEST = ''bad_request''"

text \<open>An exception nobody translates becomes a bare 500; the first field says what it was.\<close>

datatype http_error =
    HttpError int pystr "(pystr \<times> pystr) list"
  | Unhandled pystr

definition http_exception :: "error_code \<Rightarrow> int \<Rightarrow> http_error" where
  "http_exception code status = HttpError status (error_code_value code) []"

definition error_status :: "http_error \<Rightarrow> int" where
  "error_status e = (case e of HttpError s c h \<Rightarrow> s | Unhandled w \<Rightarrow> 500)"

lemma http_exception_status [simp]: "error_status (http_exception c s) = s"
  by (simp add: http_exception_def error_status_def)

text \<open>The registered translation of the illegal-transition exceptions.\<close>

definition illegal_run_state_handler :: http_error where
  "illegal_run_state_handler = http_exception EC_ILLEGAL_RUN_STATE 409"

section \<open>The process and a request\<close>

record app =
  ap_sv :: supervisor
  ap_limiter :: rate_limiter
  ap_unlock_limiter :: rate_limiter
  ap_reprompts :: reprompt_store
  ap_trusted :: "ip_network list"
  ap_rotation_locked :: bool
  ap_cookie_secure :: bool

abbreviation ap_db :: "app \<Rightarrow> database" where
  "ap_db a \<equiv> sv_db (ap_sv a)"

abbreviation ap_keys :: "app \<Rightarrow> key_material" where
  "ap_keys a \<equiv> sv_key_material (ap_sv a)"

definition set_db :: "database \<Rightarrow> app \<Rightarrow> app" where
  "set_db d a = a\<lparr>ap_sv := (ap_sv a)\<lparr>sv_db := d\<rparr>\<rparr>"

definition set_reprompts :: "reprompt_store \<Rightarrow> app \<Rightarrow> app" where
  "set_reprompts st a = a\<lparr>ap_reprompts := st\<rparr>"

lemma set_db_simps [simp]:
  "ap_db (set_db d a) = d" "ap_keys (set_db d a) = ap_keys a" "ap_reprompts (set_db d a) = ap_reprompts a"
  "ap_limiter (set_db d a) = ap_limiter a" "ap_unlock_limiter (set_db d a) = ap_unlock_limiter a"
  "ap_cookie_secure (set_db d a) = ap_cookie_secure a" "ap_rotation_locked (set_db d a) = ap_rotation_locked a"
  "set_db d (set_db e a) = set_db d a" "set_db (ap_db a) a = a"
  "sv_run_state (ap_sv (set_db d a)) = sv_run_state (ap_sv a)"
  by (simp_all add: set_db_def)

lemma set_reprompts_simps [simp]:
  "ap_sv (set_reprompts st a) = ap_sv a" "ap_reprompts (set_reprompts st a) = st"
  "ap_cookie_secure (set_reprompts st a) = ap_cookie_secure a"
  "ap_rotation_locked (set_reprompts st a) = ap_rotation_locked a"
  by (simp_all add: set_reprompts_def)

record request =
  rq_peer :: "pystr option"
  rq_forwarded_for :: "pystr option"
  rq_user_agent :: "pystr option"
  rq_cookies :: "(pystr \<times> pystr) list"
  rq_authorization :: "pystr option"
  rq_reprompt_grant :: "pystr option"

text \<open>\<^verbatim>\<open>get_db_session\<close>: the transaction of a request.\<close>

definition with_session :: "(database \<Rightarrow> http_error + 'a \<times> database) \<Rightarrow> app \<Rightarrow> (http_error + 'a) \<times> app" where
  "with_session body a =
     (case body (ap_db a) of
        Inl e \<Rightarrow> (Inl e, a)
      | Inr (x, d) \<Rightarrow> (Inr x, set_db d a))"

section \<open>Dependencies\<close>

definition RETRY_AFTER_LOCKED_SECONDS :: int where
  "RETRY_AFTER_LOCKED_SECONDS = 2"

definition require_unlocked_keys :: "key_material \<Rightarrow> http_error + derived_keys" where
  "require_unlocked_keys km =
     (if km_state km = UNLOCKING
      then Inl (HttpError 503 ''service_unlocking'' [(''Retry-After'', show_int RETRY_AFTER_LOCKED_SECONDS)])
      else (case require_ready km of
              Inl e \<Rightarrow> Inl (HttpError 503 ''service_locked'' [])
            | Inr ks \<Rightarrow> Inr ks))"

definition get_client_ip :: "app \<Rightarrow> request \<Rightarrow> pystr" where
  "get_client_ip a rq = extract_client_ip (rq_peer rq) (rq_forwarded_for rq) (Some (ap_trusted a))"

datatype auth_method = COOKIE | BEARER

record authenticated =
  au_user :: user_row
  au_via :: auth_method
  au_session :: "session_row option"
  au_api_token :: "api_token_row option"

definition get_session_service :: "derived_keys \<Rightarrow> session_service" where
  "get_session_service ks =
     \<lparr>ss_keys = ks, ss_floor = DEFAULT_CONSTANT_TIME_FLOOR_SECONDS, ss_cookie_lifetime = SESSION_COOKIE_LIFETIME\<rparr>"

definition current_user_via_cookie ::
    "crypto_lib \<Rightarrow> derived_keys \<Rightarrow> bool \<Rightarrow> request \<Rightarrow> datetime \<Rightarrow> database \<Rightarrow>
     http_error + authenticated option \<times> database" where
  "current_user_via_cookie L ks secure rq now d =
     (case map_of (rq_cookies rq) (session_cookie_name secure) of
        None \<Rightarrow> Inr (None, d)
      | Some cookie_value \<Rightarrow>
         (if cookie_value = [] then Inr (None, d)
          else (case verify_cookie L (get_session_service ks) cookie_value now d of
                  Inl e \<Rightarrow> Inl (Unhandled ''ValueError'')
                | Inr (None, d1) \<Rightarrow> Inr (None, d1)
                | Inr (Some (user, session), d1) \<Rightarrow>
                    Inr (Some \<lparr>au_user = user, au_via = COOKIE, au_session = Some session, au_api_token = None\<rparr>, d1))))"

definition current_user_via_bearer ::
    "crypto_lib \<Rightarrow> derived_keys \<Rightarrow> request \<Rightarrow> datetime \<Rightarrow> database \<Rightarrow> authenticated option \<times> database" where
  "current_user_via_bearer L ks rq now d =
     (case extract_bearer_from_authorization (rq_authorization rq) of
        None \<Rightarrow> (None, d)
      | Some plaintext \<Rightarrow>
         (case verify_bearer L ks (Some plaintext) now d of
            (None, d1) \<Rightarrow> (None, d1)
          | (Some token_dto, d1) \<Rightarrow>
             (case user_by_id d1 (at_user_id token_dto) of
                None \<Rightarrow> (None, d1)
              | Some user \<Rightarrow>
                  (Some \<lparr>au_user = user, au_via = BEARER, au_session = None, au_api_token = Some token_dto\<rparr>, d1))))"

definition unauthorized :: http_error where
  "unauthorized = HttpError 401 ''unauthorized'' [(''WWW-Authenticate'', ''Bearer realm=\"restream-plus\"'')]"

text \<open>Both dependencies are resolved before either is looked at.\<close>

definition require_authenticated ::
    "crypto_lib \<Rightarrow> key_material \<Rightarrow> bool \<Rightarrow> request \<Rightarrow> datetime \<Rightarrow> database \<Rightarrow> http_error + authenticated \<times> database" where
  "require_authenticated L km secure rq now d =
     (case require_unlocked_keys km of
        Inl e \<Rightarrow> Inl e
      | Inr ks \<Rightarrow>
         (case current_user_via_cookie L ks secure rq now d of
            Inl e \<Rightarrow> Inl e
          | Inr (via_cookie, d1) \<Rightarrow>
             (case current_user_via_bearer L ks rq now d1 of
                (via_bearer, d2) \<Rightarrow>
                  (case via_cookie of
                     Some x \<Rightarrow> Inr (x, d2)
                   | None \<Rightarrow> (case via_bearer of Some x \<Rightarrow> Inr (x, d2) | None \<Rightarrow> Inl unauthorized)))))"

text \<open>The check of the \<^verbatim>\<open>X-Reprompt-Grant\<close> header, the same in the dependency and in every protected
  handler.\<close>

definition require_reprompt_grant ::
    "reprompt_scope \<Rightarrow> rat \<Rightarrow> request \<Rightarrow> pystr \<Rightarrow> app \<Rightarrow> http_error option \<times> app" where
  "require_reprompt_grant scope mtime rq uid a =
     (case rq_reprompt_grant rq of
        None \<Rightarrow> (Some (http_exception EC_REPROMPT_REQUIRED 403), a)
      | Some g \<Rightarrow>
         (if g = [] then (Some (http_exception EC_REPROMPT_REQUIRED 403), a)
          else (case rp_consume g uid scope mtime (ap_reprompts a) of
                  (ok, st) \<Rightarrow>
                    (if ok then None else Some (http_exception EC_REPROMPT_INVALID_OR_EXPIRED 403),
                     set_reprompts st a))))"

section \<open>Who is let in\<close>

lemma verify_cookie_Some:
  assumes "verify_cookie L sv c now d = Inr (Some (u, s), d1)"
  shows "s \<in> set (db_sessions d)" "now < hs_expires_at s" "user_by_id d (hs_user_id s) = Some u"
    "hs_token_hash s = hmac_sha256 L (dk_session_token_mac_key (ss_keys sv)) (utf8_encode c)"
  using assms one_or_none_SomeD
  by (fastforce simp: verify_cookie_def compute_session_token_hash_def session_by_hash_def
      split: if_splits option.splits)+

lemma verify_cookie_frame:
  "verify_cookie L sv c now d = Inr (v, d1) \<Longrightarrow>
    db_users d1 = db_users d \<and> db_api_tokens d1 = db_api_tokens d \<and> user_by_id d1 i = user_by_id d i"
  by (auto simp: verify_cookie_def delete_session_def touch_last_seen_def user_by_id_def
      split: sum.splits option.splits if_splits)

lemma verify_bearer_Some:
  assumes "verify_bearer L ks (Some p) now d = (Some r, d1)"
  shows "r \<in> set (db_api_tokens d)" "at_revoked_at r = None"
    "at_token_hash r = hmac_sha256 L (dk_api_token_mac_key ks) (utf8_encode p)" "user_by_id d1 i = user_by_id d i"
  using assms one_or_none_SomeD
  by (fastforce simp: verify_bearer_def compute_api_token_hash_def active_token_by_hash_def user_by_id_def
      touch_last_used_def split: if_splits sum.splits option.splits)+

lemma user_by_id_id: "user_by_id d i = Some u \<Longrightarrow> us_id u = i"
  using one_or_none_SomeD by (fastforce simp: user_by_id_def)

lemma current_user_via_cookie_frame:
  assumes "current_user_via_cookie L ks secure rq now d = Inr (vc, d1)"
  shows "db_users d1 = db_users d" "db_api_tokens d1 = db_api_tokens d" "user_by_id d1 i = user_by_id d i"
  using assms verify_cookie_frame
  by (fastforce simp: current_user_via_cookie_def split: option.splits if_splits sum.splits)+

lemma authenticated_by:
  assumes "require_authenticated L km secure rq now d = Inr (au, d')"
  obtains (cookie) ks u s c where "km_keys km = Some ks" "user_by_id d (hs_user_id s) = Some u"
      "au = \<lparr>au_user = u, au_via = COOKIE, au_session = Some s, au_api_token = None\<rparr>"
      "s \<in> set (db_sessions d)" "now < hs_expires_at s" "map_of (rq_cookies rq) (session_cookie_name secure) = Some c"
      "hs_token_hash s = hmac_sha256 L (dk_session_token_mac_key ks) (utf8_encode c)"
  | (bearer) ks u t p where "km_keys km = Some ks" "user_by_id d (at_user_id t) = Some u"
      "au = \<lparr>au_user = u, au_via = BEARER, au_session = None, au_api_token = Some t\<rparr>"
      "t \<in> set (db_api_tokens d)" "at_revoked_at t = None"
      "extract_bearer_from_authorization (rq_authorization rq) = Some p"
      "at_token_hash t = hmac_sha256 L (dk_api_token_mac_key ks) (utf8_encode p)"
proof -
  obtain ks where ks: "km_keys km = Some ks" "require_unlocked_keys km = Inr ks"
    using assms by (auto simp: require_authenticated_def require_unlocked_keys_def require_ready_def
        split: sum.splits option.splits if_splits)
  obtain vc d1 where c: "current_user_via_cookie L ks secure rq now d = Inr (vc, d1)"
    using assms ks by (auto simp: require_authenticated_def split: sum.splits)
  note same = current_user_via_cookie_frame [OF c]
  show thesis
  proof (cases vc)
    case (Some x)
    then have au: "au = x" using assms ks c by (auto simp: require_authenticated_def split: prod.splits)
    obtain cv s u where x: "map_of (rq_cookies rq) (session_cookie_name secure) = Some cv"
      "verify_cookie L (get_session_service ks) cv now d = Inr (Some (u, s), d1)"
      "x = \<lparr>au_user = u, au_via = COOKIE, au_session = Some s, au_api_token = None\<rparr>"
      using c Some by (auto simp: current_user_via_cookie_def split: option.splits if_splits sum.splits)
    show thesis
      using cookie ks(1) x au verify_cookie_Some [OF x(2)] by (auto simp: get_session_service_def)
  next
    case None
    obtain p t d2 u where b: "extract_bearer_from_authorization (rq_authorization rq) = Some p"
      "verify_bearer L ks (Some p) now d1 = (Some t, d2)" "user_by_id d2 (at_user_id t) = Some u"
      "au = \<lparr>au_user = u, au_via = BEARER, au_session = None, au_api_token = Some t\<rparr>"
      using assms ks c None
      by (auto simp: require_authenticated_def current_user_via_bearer_def split: option.splits prod.splits)
    show thesis
      using bearer ks(1) b verify_bearer_Some [OF b(2)] same by auto
  qed
qed

lemma authenticated_user:
  assumes "require_authenticated L km secure rq now d = Inr (au, d')"
  shows "user_by_id d (us_id (au_user au)) = Some (au_user au)"
  using assms by (rule authenticated_by) (simp_all add: user_by_id_id)

text \<open>C5: A request is let in only with unlocked keys, and then as a user of the database,
  proved by an unexpired session whose hash is that of the presented cookie, or by an unrevoked
  token whose hash is that of the presented bearer value.\<close>

theorem authentication_sound:
  assumes "require_authenticated L km secure rq now d = Inr (au, d')"
  shows "\<exists>ks. km_keys km = Some ks \<and> user_by_id d (us_id (au_user au)) = Some (au_user au) \<and>
    (case au_via au of
       COOKIE \<Rightarrow> \<exists>s\<in>set (db_sessions d). \<exists>c. au_session au = Some s \<and> now < hs_expires_at s \<and>
         hs_user_id s = us_id (au_user au) \<and> map_of (rq_cookies rq) (session_cookie_name secure) = Some c \<and>
         hs_token_hash s = hmac_sha256 L (dk_session_token_mac_key ks) (utf8_encode c)
     | BEARER \<Rightarrow> \<exists>t\<in>set (db_api_tokens d). \<exists>p. au_api_token au = Some t \<and> at_revoked_at t = None \<and>
         at_user_id t = us_id (au_user au) \<and> extract_bearer_from_authorization (rq_authorization rq) = Some p \<and>
         at_token_hash t = hmac_sha256 L (dk_api_token_mac_key ks) (utf8_encode p))"
  using assms by (rule authenticated_by) (auto simp: user_by_id_id)

text \<open>A ready service, and a request with the cookie of a stored session.\<close>

definition sample_ready :: key_material where
  "sample_ready = \<lparr>km_kdf_salt = replicate 16 CHR ''s'', km_state = READY, km_keys = Some (ss_keys sample_service)\<rparr>"

definition sample_session_db :: database where
  "sample_session_db = sample_db\<lparr>db_sessions := [\<lparr>hs_token_hash = ''ctok'', hs_user_id = ''u'', hs_created_at = 0,
     hs_expires_at = 1000, hs_last_seen_at = 0, hs_user_agent = None, hs_ip = None\<rparr>]\<rparr>"

definition sample_http_request :: request where
  "sample_http_request = \<lparr>rq_peer = Some ''10.0.0.1'', rq_forwarded_for = None, rq_user_agent = None,
     rq_cookies = [(''rp_session'', ''tok'')], rq_authorization = None, rq_reprompt_grant = None\<rparr>"

lemma sample_authenticated:
  "\<exists>au d'. require_authenticated toy_lib sample_ready False sample_http_request 999 sample_session_db = Inr (au, d') \<and>
    au_via au = COOKIE"
  by (simp add: require_authenticated_def require_unlocked_keys_def require_ready_def sample_ready_def
      current_user_via_cookie_def sample_http_request_def session_cookie_name_def SESSION_COOKIE_NAME_INSECURE_def
      verify_cookie_def compute_session_token_hash_def get_session_service_def sample_service_def toy_lib_def
      utf8_encode_def utf8_char_def char_code_def session_by_hash_def sample_session_db_def one_or_none_def
      user_by_id_def sample_db_def current_user_via_bearer_def extract_bearer_from_authorization_def)

theorem authentication_sound_witness:
  "\<exists>au d'. require_authenticated toy_lib sample_ready False sample_http_request 999 sample_session_db = Inr (au, d') \<and>
    (\<exists>s\<in>set (db_sessions sample_session_db). au_session au = Some s \<and> (999::int) < hs_expires_at s)"
proof -
  obtain au d' where a: "require_authenticated toy_lib sample_ready False sample_http_request 999 sample_session_db = Inr (au, d')"
    "au_via au = COOKIE"
    using sample_authenticated by blast
  then show ?thesis using authentication_sound [OF a(1)] by auto
qed

section \<open>What a refused request leaves behind\<close>

lemma with_session_error: "fst (with_session body a) = Inl e \<Longrightarrow> snd (with_session body a) = a"
  by (auto simp: with_session_def split: sum.splits)

text \<open>The deletion of an expired session during authentication is lost: with no bearer to fall back on
  the request ends in a 401, which rolls the transaction back.\<close>

lemma expired_session_not_deleted:
  assumes "km_keys km = Some ks" "km_state km = READY"
    "map_of (rq_cookies rq) (session_cookie_name secure) = Some c" "c \<noteq> []" "rq_authorization rq = None"
    "session_by_hash (ap_db a) (hmac_sha256 L (dk_session_token_mac_key ks) (utf8_encode c)) = Some s"
    "hs_expires_at s \<le> now"
  shows "with_session (require_authenticated L km secure rq now) a = (Inl unauthorized, a)"
  using assms
  by (simp add: with_session_def require_authenticated_def require_unlocked_keys_def require_ready_def
      current_user_via_cookie_def verify_cookie_def compute_session_token_hash_def get_session_service_def
      current_user_via_bearer_def extract_bearer_from_authorization_def)

lemma locked_requests_refused:
  "km_state km \<noteq> READY \<Longrightarrow> km_ok km \<Longrightarrow>
    \<exists>e. require_authenticated L km secure rq now d = Inl e \<and> error_status e = 503"
  by (auto simp: require_authenticated_def require_unlocked_keys_def require_ready_def km_ok_def error_status_def
      split: option.split)

text \<open>Authentication writes to sessions and tokens only.\<close>

definition same_rest :: "database \<Rightarrow> database \<Rightarrow> bool" where
  "same_rest d e \<longleftrightarrow> db_users d = db_users e \<and> db_targets d = db_targets e \<and> db_credentials d = db_credentials e \<and>
     db_settings d = db_settings e \<and> db_audit_log d = db_audit_log e \<and> db_history d = db_history e \<and>
     db_next_audit_id d = db_next_audit_id e"

lemma same_rest_writes [simp]:
  "same_rest d d" "same_rest (delete_session th d) e = same_rest d e"
  "same_rest (touch_last_seen th t d) e = same_rest d e" "same_rest (touch_last_used i t d) e = same_rest d e"
  by (simp_all add: same_rest_def delete_session_def touch_last_seen_def touch_last_used_def)

lemma cookie_same_rest:
  "current_user_via_cookie L ks secure rq now d = Inr (x, d1) \<Longrightarrow> same_rest d1 d"
  by (auto simp: current_user_via_cookie_def verify_cookie_def split: sum.splits option.splits if_splits)

lemma bearer_same_rest:
  "current_user_via_bearer L ks rq now d = (x, d1) \<Longrightarrow> same_rest d1 d"
  by (auto simp: current_user_via_bearer_def verify_bearer_def split: sum.splits option.splits if_splits)

lemma require_authenticated_frame:
  assumes "require_authenticated L km secure rq now d = Inr (au, d')"
  shows "db_users d' = db_users d" "db_targets d' = db_targets d" "db_credentials d' = db_credentials d"
    "db_settings d' = db_settings d" "db_audit_log d' = db_audit_log d" "db_history d' = db_history d"
    "db_next_audit_id d' = db_next_audit_id d"
proof -
  have "\<exists>x y d1. (current_user_via_bearer L k rq now d1 = (y, d')) \<and> current_user_via_cookie L k secure rq now d = Inr (x, d1)"
    if "require_unlocked_keys km = Inr k" for k
    using assms that
    by (auto simp: require_authenticated_def split: sum.splits option.splits prod.splits)
  moreover obtain k where "require_unlocked_keys km = Inr k"
    using assms by (auto simp: require_authenticated_def split: sum.splits)
  ultimately obtain x y d1 where "current_user_via_bearer L k rq now d1 = (y, d')"
    "current_user_via_cookie L k secure rq now d = Inr (x, d1)"
    by blast
  then have "same_rest d' d1" "same_rest d1 d" by (simp_all add: cookie_same_rest bearer_same_rest)
  then show "db_users d' = db_users d" "db_targets d' = db_targets d" "db_credentials d' = db_credentials d"
    "db_settings d' = db_settings d" "db_audit_log d' = db_audit_log d" "db_history d' = db_history d"
    "db_next_audit_id d' = db_next_audit_id d"
    by (simp_all add: same_rest_def)
qed

end
