(* ===== verification/Auth_Api.thy ===== *)
theory Auth_Api
  imports Auth_Deps
begin

text \<open>
  The handlers of \<^verbatim>\<open>app/api/auth.py\<close> with the request bodies they take from \<^verbatim>\<open>app/api/schemas.py\<close>: login
  and its background rehash, the session probe, logout, password change, reprompt grants, unlocking.
  A handler maps the process state to an HTTP error or a response, and the new process state. Random
  values and clock readings are arguments. A body that fails its declared bounds is answered 422
  after the dependencies were resolved.
\<close>

section \<open>Request bodies\<close>

definition sized :: "nat \<Rightarrow> nat \<Rightarrow> pystr \<Rightarrow> bool" where
  "sized lo hi s \<longleftrightarrow> lo \<le> length s \<and> length s \<le> hi"

definition validation_error :: http_error where
  "validation_error = HttpError 422 ''validation_error'' []"

record login_body_request =
  lb_username :: pystr
  lb_password :: pystr

definition login_request_valid :: "login_body_request \<Rightarrow> bool" where
  "login_request_valid b \<longleftrightarrow> sized 1 128 (lb_username b) \<and> sized 1 1024 (lb_password b)"

definition unlock_request_valid :: "pystr \<Rightarrow> bool" where
  "unlock_request_valid passphrase \<longleftrightarrow> sized 1 4096 passphrase"

record change_password_request =
  cp_current_password :: pystr
  cp_new_password :: pystr

definition change_password_request_valid :: "change_password_request \<Rightarrow> bool" where
  "change_password_request_valid b \<longleftrightarrow> sized 1 1024 (cp_current_password b) \<and> sized 12 1024 (cp_new_password b)"

record reprompt_issue_request =
  ri_password :: pystr
  ri_scope :: pystr

definition reprompt_issue_request_valid :: "reprompt_issue_request \<Rightarrow> bool" where
  "reprompt_issue_request_valid b \<longleftrightarrow> sized 1 1024 (ri_password b) \<and> sized 1 64 (ri_scope b)"

record user_summary =
  um_id :: pystr
  um_username :: pystr
  um_last_login_at :: "datetime option"

definition summary_of :: "user_row \<Rightarrow> user_summary" where
  "summary_of u = \<lparr>um_id = us_id u, um_username = us_username u, um_last_login_at = us_last_login_at u\<rparr>"

section \<open>Audit rows\<close>

text \<open>An audit row is written in a transaction of its own, on the committed database.\<close>

definition audit ::
    "pystr \<Rightarrow> pystr option \<Rightarrow> pystr option \<Rightarrow> (pystr \<times> json) list \<Rightarrow> datetime \<Rightarrow> app \<Rightarrow> http_error option \<times> app" where
  "audit event actor tid data now a =
     (case append_audit event actor tid data now (ap_db a) of
        Inl e \<Rightarrow> (Some (Unhandled ''IntegrityError''), a)
      | Inr (row, d) \<Rightarrow> (None, set_db d a))"

lemma audit_no_target [simp]: "fst (audit event actor None data now a) = None"
  by (simp add: audit_def append_audit_def Let_def)

lemma audit_frame:
  "\<exists>d. snd (audit event actor tid data now a) = set_db d a \<and> db_users d = db_users (ap_db a) \<and>
    db_sessions d = db_sessions (ap_db a) \<and> db_targets d = db_targets (ap_db a) \<and>
    db_credentials d = db_credentials (ap_db a) \<and> db_api_tokens d = db_api_tokens (ap_db a) \<and>
    db_settings d = db_settings (ap_db a) \<and> db_history d = db_history (ap_db a)"
proof (cases "append_audit event actor tid data now (ap_db a)")
  case (Inl e)
  then show ?thesis by (intro exI [of _ "ap_db a"]) (simp add: audit_def)
next
  case (Inr p)
  then obtain row d where "append_audit event actor tid data now (ap_db a) = Inr (row, d)" by (cases p) auto
  then show ?thesis by (intro exI [of _ d]) (auto simp: audit_def append_audit_def Let_def split: if_splits)
qed

section \<open>Login\<close>

definition api_login ::
    "crypto_lib \<Rightarrow> (pystr \<Rightarrow> pystr) \<Rightarrow> login_env \<Rightarrow> login_body_request \<Rightarrow> request \<Rightarrow> app \<Rightarrow>
     (http_error + cookie_kwargs \<times> user_summary \<times> bool) \<times> app" where
  "api_login L ufold env body rq a =
     (case require_unlocked_keys (ap_keys a) of
        Inl e \<Rightarrow> (Inl e, a)
      | Inr ks \<Rightarrow>
         (if \<not> login_request_valid body then (Inl validation_error, a)
          else
           (let r = login L ufold (get_session_service ks) env
                      \<lparr>lr_username = lb_username body, lr_password = lb_password body,
                       lr_ip = get_client_ip a rq, lr_user_agent = rq_user_agent rq\<rparr> (ap_db a) (ap_limiter a);
                a1 = a\<lparr>ap_limiter := lg_limiter r\<rparr>
            in case lg_result r of
                 Inl (RateLimited secs) \<Rightarrow> (Inl (HttpError 401 ''rate_limited'' [(''Retry-After'', show_int secs)]), a1)
               | Inl InvalidCredentials \<Rightarrow> (Inl (http_exception EC_INVALID_CREDENTIALS 401), a1)
               | Inl (AuthDb e) \<Rightarrow> (Inl (Unhandled ''IntegrityError''), a1)
               | Inl (AuthValueError m) \<Rightarrow> (Inl (Unhandled ''ValueError''), a1)
               | Inr outcome \<Rightarrow>
                   (Inr (build_cookie_set_kwargs (lo_cookie_value outcome) (ap_cookie_secure a) SESSION_COOKIE_LIFETIME,
                         summary_of (lo_user outcome), lo_needs_rehash outcome),
                    set_db (lg_db r) a1))))"

text \<open>The background task, with the salt of the new hash; every failure is logged and swallowed.\<close>

definition rehash_admin_password :: "crypto_lib \<Rightarrow> bytes \<Rightarrow> datetime \<Rightarrow> pystr \<Rightarrow> pystr \<Rightarrow> app \<Rightarrow> app" where
  "rehash_admin_password L salt now uid plaintext a =
     (case hash_password L salt plaintext of
        Inl e \<Rightarrow> a
      | Inr new_hash \<Rightarrow>
          snd (audit ''password_rehashed'' (Some ''system'') None [] now
            (set_db (update_password_hash uid new_hash (ap_db a)) a)))"

section \<open>Session probe and logout\<close>

definition api_me ::
    "crypto_lib \<Rightarrow> request \<Rightarrow> datetime \<Rightarrow> app \<Rightarrow> (http_error + user_summary) \<times> app" where
  "api_me L rq now a =
     with_session (\<lambda>d. case require_authenticated L (ap_keys a) (ap_cookie_secure a) rq now d of
         Inl e \<Rightarrow> Inl e | Inr (au, d1) \<Rightarrow> Inr (summary_of (au_user au), d1)) a"

definition api_logout :: "crypto_lib \<Rightarrow> request \<Rightarrow> app \<Rightarrow> (http_error + cookie_kwargs) \<times> app" where
  "api_logout L rq a =
     with_session (\<lambda>d. case require_unlocked_keys (ap_keys a) of
         Inl e \<Rightarrow> Inl e
       | Inr ks \<Rightarrow>
          (let gone = build_cookie_delete_kwargs (ap_cookie_secure a)
           in case map_of (rq_cookies rq) (session_cookie_name (ap_cookie_secure a)) of
                None \<Rightarrow> Inr (gone, d)
              | Some c \<Rightarrow>
                 (if c = [] then Inr (gone, d)
                  else (case revoke_cookie L (get_session_service ks) c d of
                          Inl e \<Rightarrow> Inl (Unhandled ''ValueError'') | Inr d1 \<Rightarrow> Inr (gone, d1))))) a"

definition api_logout_all ::
    "crypto_lib \<Rightarrow> request \<Rightarrow> datetime \<Rightarrow> app \<Rightarrow> (http_error + cookie_kwargs) \<times> app" where
  "api_logout_all L rq now a =
     with_session (\<lambda>d. case require_authenticated L (ap_keys a) (ap_cookie_secure a) rq now d of
         Inl e \<Rightarrow> Inl e
       | Inr (au, d1) \<Rightarrow>
           Inr (build_cookie_delete_kwargs (ap_cookie_secure a), snd (revoke_all_for_user (us_id (au_user au)) d1))) a"

section \<open>Password change\<close>

definition CHANGE_PASSWORD_TIMING_FLOOR_SECONDS :: rat where
  "CHANGE_PASSWORD_TIMING_FLOOR_SECONDS = 3 / 10"

record change_env =
  ce_now :: datetime
  ce_mono :: rat
  ce_salt :: bytes
  ce_elapsed :: rat

definition floor_pad :: "rat \<Rightarrow> rat \<Rightarrow> rat" where
  "floor_pad floor_seconds elapsed = max 0 (floor_seconds - elapsed)"

text \<open>The part under the timing floor, on the transaction of the request.\<close>

definition change_password_body ::
    "crypto_lib \<Rightarrow> bytes \<Rightarrow> authenticated \<Rightarrow> change_password_request \<Rightarrow> database \<Rightarrow> http_error + database" where
  "change_password_body L salt au body d =
     (if \<not> pv_ok (verify_password L (us_password_hash (au_user au)) (cp_current_password body))
      then Inl (http_exception EC_INVALID_CREDENTIALS 401)
      else (case hash_password L salt (cp_new_password body) of
              Inl e \<Rightarrow> Inl (Unhandled ''ValueError'')
            | Inr new_hash \<Rightarrow>
                Inr (snd (revoke_all_for_user (us_id (au_user au))
                       (update_password_hash (us_id (au_user au)) new_hash d)))))"

definition api_change_password ::
    "crypto_lib \<Rightarrow> change_env \<Rightarrow> change_password_request \<Rightarrow> request \<Rightarrow> app \<Rightarrow>
     (http_error + cookie_kwargs) \<times> app \<times> rat" where
  "api_change_password L env body rq a =
     (case require_authenticated L (ap_keys a) (ap_cookie_secure a) rq (ce_now env) (ap_db a) of
        Inl e \<Rightarrow> (Inl e, a, 0)
      | Inr (au, d1) \<Rightarrow>
         (if \<not> change_password_request_valid body then (Inl validation_error, a, 0)
          else (case require_reprompt_grant CHANGE_PASSWORD (ce_mono env) rq (us_id (au_user au)) a of
             (Some e, a1) \<Rightarrow> (Inl e, a1, 0)
           | (None, a1) \<Rightarrow>
              (let pad = floor_pad CHANGE_PASSWORD_TIMING_FLOOR_SECONDS (ce_elapsed env)
               in case change_password_body L (ce_salt env) au body d1 of
                    Inl e \<Rightarrow> (Inl e, a1, pad)
                  | Inr d2 \<Rightarrow>
                     (Inr (build_cookie_delete_kwargs (ap_cookie_secure a)),
                      snd (audit ''password_changed'' (Some (us_username (au_user au))) None [] (ce_now env)
                        (set_db d2 a1)), pad)))))"

section \<open>Reprompt grants\<close>

definition scope_of :: "pystr \<Rightarrow> reprompt_scope option" where
  "scope_of s = map_of
     [(''reveal_stream_key'', REVEAL_STREAM_KEY), (''regenerate_ingest_key'', REGENERATE_INGEST_KEY),
      (''rotate_passphrase'', ROTATE_PASSPHRASE), (''change_password'', CHANGE_PASSWORD),
      (''delete_target'', DELETE_TARGET), (''revoke_api_token'', REVOKE_API_TOKEN),
      (''clear_credential'', CLEAR_CREDENTIAL), (''reveal_ingest_key'', REVEAL_INGEST_KEY)] s"

definition scope_or_400 :: "pystr \<Rightarrow> http_error + reprompt_scope" where
  "scope_or_400 s = (case scope_of s of None \<Rightarrow> Inl (http_exception EC_BAD_REQUEST 400) | Some sc \<Rightarrow> Inr sc)"

definition issue_reprompt_grant ::
    "crypto_lib \<Rightarrow> pystr \<Rightarrow> datetime \<Rightarrow> rat \<Rightarrow> reprompt_issue_request \<Rightarrow> request \<Rightarrow> app \<Rightarrow>
     (http_error + pystr \<times> datetime) \<times> app" where
  "issue_reprompt_grant L grant_id now mtime body rq a =
     (case require_authenticated L (ap_keys a) (ap_cookie_secure a) rq now (ap_db a) of
        Inl e \<Rightarrow> (Inl e, a)
      | Inr (au, d1) \<Rightarrow>
         (if \<not> reprompt_issue_request_valid body then (Inl validation_error, a)
          else (case scope_or_400 (ri_scope body) of
             Inl e \<Rightarrow> (Inl e, a)
           | Inr scope \<Rightarrow>
              (if \<not> pv_ok (verify_password L (us_password_hash (au_user au)) (ri_password body))
               then (Inl (http_exception EC_INVALID_CREDENTIALS 401), a)
               else (case rp_issue grant_id (us_id (au_user au)) scope mtime (ap_reprompts a) of
                       Inl e \<Rightarrow> (Inl (Unhandled ''ValueError''), a)
                     | Inr (gid, st) \<Rightarrow>
                         (Inr (gid, now + timedelta_of_seconds REPROMPT_GRANT_TTL_SECONDS),
                          set_db d1 (set_reprompts st a)))))))"

section \<open>Unlocking\<close>

text \<open>The attempts are counted under a fixed name. The handler awaits the derivation; the state between
  is not visible in its result.\<close>

definition api_unlock ::
    "crypto_lib \<Rightarrow> (pystr \<Rightarrow> pystr) \<Rightarrow> rat \<Rightarrow> rat \<Rightarrow> pystr \<Rightarrow> request \<Rightarrow> app \<Rightarrow> (http_error + unit) \<times> app" where
  "api_unlock L ufold check_at failed_at passphrase rq a =
     (let ip = get_client_ip a rq
      in if \<not> unlock_request_valid passphrase then (Inl validation_error, a)
         else (case rl_check ufold ip ''__unlock__'' check_at (ap_unlock_limiter a) of
            (decision, l1) \<Rightarrow>
              (let a1 = a\<lparr>ap_unlock_limiter := l1\<rparr>
               in if \<not> rd_allowed decision
                  then (Inl (HttpError 429 ''unlock_rate_limited''
                          [(''Retry-After'', show_int (rd_retry_after_seconds decision))]), a1)
                  else if km_state (ap_keys a1) = READY then (Inr (), a1)
                  else (case unlock L (ap_keys a1) passphrase of
                     (km, None) \<Rightarrow> (Inr (), a1\<lparr>ap_sv := (ap_sv a1)\<lparr>sv_key_material := km\<rparr>\<rparr>)
                   | (km, Some e) \<Rightarrow>
                       (Inl (http_exception EC_UNLOCK_FAILED 401),
                        a1\<lparr>ap_sv := (ap_sv a1)\<lparr>sv_key_material := km\<rparr>,
                           ap_unlock_limiter := rl_record_failure ufold ip ''__unlock__'' failed_at l1\<rparr>)))))"

section \<open>A changed password closes every session\<close>

lemma floor_pad_reaches: "elapsed + floor_pad f elapsed = max elapsed f"
  by (simp add: floor_pad_def max_def)

lemma require_reprompt_grant_frame:
  "require_reprompt_grant scope mtime rq uid a = (r, a1) \<Longrightarrow> ap_sv a1 = ap_sv a"
  by (auto simp: require_reprompt_grant_def split: option.splits if_splits prod.splits)

lemma require_reprompt_grant_None:
  "require_reprompt_grant scope mtime rq uid a = (None, a1) \<Longrightarrow>
    \<exists>g. rq_reprompt_grant rq = Some g \<and> fst (rp_consume g uid scope mtime (ap_reprompts a))"
  by (auto simp: require_reprompt_grant_def split: option.splits if_splits prod.splits)

lemma user_by_id_rehashed:
  "user_by_id (update_password_hash uid h d) i =
    map_option (\<lambda>u. if i = uid then u\<lparr>us_password_hash := h\<rparr> else u) (user_by_id d i)"
  by (auto simp: user_by_id_def update_password_hash_def one_or_none_update_other option.map_comp
      dest: one_or_none_SomeD intro!: option.map_cong)

lemma user_by_id_same: "db_users d = db_users e \<Longrightarrow> user_by_id d i = user_by_id e i"
  by (simp add: user_by_id_def)

lemma revoke_all_frame [simp]:
  "db_users (snd (revoke_all_for_user uid d)) = db_users d"
  "db_credentials (snd (revoke_all_for_user uid d)) = db_credentials d"
  by (simp_all add: revoke_all_for_user_def delete_all_for_user_def)

text \<open>C32: A password change that succeeds spent a grant of that scope, knew the old
  password, leaves the account with a hash that accepts the new one and without any session;
  one that fails changes no table.\<close>

theorem change_password_effect:
  assumes "\<forall>p s. phc_verify L (phc_hash L p s) p"
    "require_authenticated L (ap_keys a) (ap_cookie_secure a) rq (ce_now env) (ap_db a) = Inr (au, d1)"
  shows "case api_change_password L env body rq a of
      (Inl e, a', pad) \<Rightarrow> ap_db a' = ap_db a
    | (Inr cookie, a', pad) \<Rightarrow>
        (\<exists>g. rq_reprompt_grant rq = Some g \<and>
           fst (rp_consume g (us_id (au_user au)) CHANGE_PASSWORD (ce_mono env) (ap_reprompts a))) \<and>
        phc_verify L (us_password_hash (au_user au)) (cp_current_password body) \<and>
        (\<exists>u. user_by_id (ap_db a') (us_id (au_user au)) = Some u \<and>
           pv_ok (verify_password L (us_password_hash u) (cp_new_password body))) \<and>
        (\<forall>s\<in>set (db_sessions (ap_db a')). hs_user_id s \<noteq> us_id (au_user au)) \<and>
        ce_elapsed env + pad = max (ce_elapsed env) CHANGE_PASSWORD_TIMING_FLOOR_SECONDS"
proof (cases "api_change_password L env body rq a")
  case (fields r a' pad)
  show ?thesis
  proof (cases r)
    case (Inl e)
    then have "ap_sv a' = ap_sv a"
      using fields assms(2) require_reprompt_grant_frame
      by (fastforce simp: api_change_password_def Let_def split: if_splits prod.splits option.splits sum.splits)
    then show ?thesis using fields Inl by simp
  next
    case (Inr cookie)
    obtain a1 d2 where g: "require_reprompt_grant CHANGE_PASSWORD (ce_mono env) rq (us_id (au_user au)) a = (None, a1)"
      and valid: "change_password_request_valid body"
      and b: "change_password_body L (ce_salt env) au body d1 = Inr d2"
      and a': "a' = snd (audit ''password_changed'' (Some (us_username (au_user au))) None [] (ce_now env) (set_db d2 a1))"
      and pad: "pad = floor_pad CHANGE_PASSWORD_TIMING_FLOOR_SECONDS (ce_elapsed env)"
      using fields Inr assms(2)
      by (auto simp: api_change_password_def Let_def split: if_splits prod.splits option.splits sum.splits)
    let ?uid = "us_id (au_user au)"
    obtain h where h: "hash_password L (ce_salt env) (cp_new_password body) = Inr h"
      and old: "pv_ok (verify_password L (us_password_hash (au_user au)) (cp_current_password body))"
      and d2: "d2 = snd (revoke_all_for_user ?uid (update_password_hash ?uid h d1))"
      using b by (auto simp: change_password_body_def split: if_splits sum.splits)
    obtain d3 where d3: "a' = set_db d3 (set_db d2 a1)" "db_users d3 = db_users d2" "db_sessions d3 = db_sessions d2"
      using audit_frame [of "''password_changed''" "Some (us_username (au_user au))" None "[]" "ce_now env" "set_db d2 a1"]
        a' by auto
    have "user_by_id (ap_db a) ?uid \<noteq> None"
      using assms(2) by (auto dest!: authenticated_user)
    then obtain u where "user_by_id d1 ?uid = Some u"
      using user_by_id_same [OF require_authenticated_frame(1) [OF assms(2)]] by auto
    then have u: "user_by_id (ap_db a') ?uid = Some (u\<lparr>us_password_hash := h\<rparr>)"
      using user_by_id_same [OF d3(2)] user_by_id_same [of d2 "update_password_hash ?uid h d1"] d2
      by (simp add: d3(1) user_by_id_rehashed)
    have "pv_ok (verify_password L h (cp_new_password body))"
      using h assms(1) by (auto simp: hash_password_def verify_password_def split: if_splits)
    moreover have "phc_verify L (us_password_hash (au_user au)) (cp_current_password body)"
      using old by (simp add: verify_password_def split: if_splits)
    moreover have "\<forall>s\<in>set (db_sessions (ap_db a')). hs_user_id s \<noteq> ?uid"
      using delete_all_for_user_gone d3 d2 by (simp add: revoke_all_for_user_def)
    ultimately show ?thesis
      using fields Inr u require_reprompt_grant_None [OF g] pad by (simp add: floor_pad_reaches)
  qed
qed

definition sample_app :: app where
  "sample_app = \<lparr>ap_sv = new_supervisor sample_session_db sample_ready [] ''rtmp://127.0.0.1/ingest/k'' 0,
     ap_limiter = sample_limiter, ap_unlock_limiter = sample_limiter,
     ap_reprompts = \<lparr>rp_ttl = 60, rp_grants = [(''g'', \<lparr>rg_user_id = ''u'', rg_scope = CHANGE_PASSWORD, rg_issued_at = 0\<rparr>)]\<rparr>,
     ap_trusted = [], ap_rotation_locked = False, ap_cookie_secure = False\<rparr>"

definition sample_change :: change_password_request where
  "sample_change = \<lparr>cp_current_password = ''h'', cp_new_password = ''correct horse''\<rparr>"

definition sample_change_env :: change_env where
  "sample_change_env = \<lparr>ce_now = 999, ce_mono = 10, ce_salt = ''s'', ce_elapsed = 1 / 10\<rparr>"

lemma sample_app_simps [simp]:
  "ap_keys sample_app = sample_ready" "ap_cookie_secure sample_app = False" "ap_db sample_app = sample_session_db"
  by (simp_all add: sample_app_def new_supervisor_def)

lemma sample_request_user:
  "\<exists>au d1. require_authenticated toy_lib sample_ready False (sample_http_request\<lparr>rq_reprompt_grant := g\<rparr>) 999 sample_session_db =
    Inr (au, d1) \<and> us_id (au_user au) = ''u'' \<and> us_password_hash (au_user au) = ''h''"
  by (simp add: require_authenticated_def require_unlocked_keys_def require_ready_def sample_ready_def
      current_user_via_cookie_def sample_http_request_def session_cookie_name_def SESSION_COOKIE_NAME_INSECURE_def
      verify_cookie_def compute_session_token_hash_def get_session_service_def sample_service_def toy_lib_def
      utf8_encode_def utf8_char_def char_code_def session_by_hash_def sample_session_db_def one_or_none_def
      user_by_id_def sample_db_def current_user_via_bearer_def extract_bearer_from_authorization_def)

theorem change_password_effect_witness:
  "\<exists>cookie a' pad. api_change_password toy_lib sample_change_env sample_change
      (sample_http_request\<lparr>rq_reprompt_grant := Some ''g''\<rparr>) sample_app = (Inr cookie, a', pad) \<and>
    (\<forall>s\<in>set (db_sessions (ap_db a')). hs_user_id s \<noteq> ''u'')"
proof -
  let ?rq = "sample_http_request\<lparr>rq_reprompt_grant := Some ''g''\<rparr>"
  have phc: "\<forall>p s. phc_verify toy_lib (phc_hash toy_lib p s) p" by (simp add: toy_lib_def)
  obtain au d1 where au: "require_authenticated toy_lib (ap_keys sample_app) (ap_cookie_secure sample_app) ?rq
      (ce_now sample_change_env) (ap_db sample_app) = Inr (au, d1)" "us_id (au_user au) = ''u''"
    "us_password_hash (au_user au) = ''h''"
    using sample_request_user [of "Some ''g''"] by (auto simp: sample_change_env_def)
  obtain cookie a' pad where r: "api_change_password toy_lib sample_change_env sample_change ?rq sample_app = (Inr cookie, a', pad)"
    using au by (auto simp: api_change_password_def sample_change_def change_password_request_valid_def sized_def
        require_reprompt_grant_def rp_consume_def sample_app_def sample_change_env_def change_password_body_def
        verify_password_def toy_lib_def hash_password_def Let_def)
  then show ?thesis using change_password_effect [OF phc au(1), of sample_change] au(2) by auto
qed

section \<open>What unlocking checks\<close>

text \<open>The handler that unlocks a locked service takes any passphrase of an admissible
  length, never counts a failure for it, and the service is then ready under whatever keys that
  passphrase derives; a later attempt with another passphrase is answered as a success and changes nothing.\<close>

theorem unlock_accepts_any:
  assumes "km_ok (ap_keys a)" "km_state (ap_keys a) = LOCKED" "kdf_lengths L" "unlock_request_valid p"
    "rd_allowed (fst (rl_check ufold (get_client_ip a rq) ''__unlock__'' t (ap_unlock_limiter a)))"
  shows "\<exists>a' ks. api_unlock L ufold t t' p rq a = (Inr (), a') \<and> km_state (ap_keys a') = READY \<and>
    derive_keys L (km_kdf_salt (ap_keys a)) p = Inr ks \<and> km_keys (ap_keys a') = Some ks \<and>
    ap_unlock_limiter a' = snd (rl_check ufold (get_client_ip a rq) ''__unlock__'' t (ap_unlock_limiter a)) \<and>
    (\<forall>q a'' r. unlock_request_valid q \<longrightarrow> api_unlock L ufold u u' q rq' a' = (r, a'') \<longrightarrow>
       ap_keys a'' = ap_keys a' \<and> r \<noteq> Inl (http_exception EC_UNLOCK_FAILED 401))"
proof -
  have p: "p \<noteq> []" using assms(4) by (auto simp: unlock_request_valid_def sized_def)
  have salt: "length (km_kdf_salt (ap_keys a)) = KDF_SALT_LENGTH" using assms(1) by (simp add: km_ok_def)
  obtain ks where ks: "derive_keys L (km_kdf_salt (ap_keys a)) p = Inr ks"
    using derive_keys_total [OF assms(3) salt p] by blast
  obtain d l1 where chk: "rl_check ufold (get_client_ip a rq) ''__unlock__'' t (ap_unlock_limiter a) = (d, l1)"
    by (cases "rl_check ufold (get_client_ip a rq) ''__unlock__'' t (ap_unlock_limiter a)")
  let ?a' = "a\<lparr>ap_unlock_limiter := l1, ap_sv := (ap_sv a)\<lparr>sv_key_material := (ap_keys a)\<lparr>km_state := READY, km_keys := Some ks\<rparr>\<rparr>\<rparr>"
  have run: "api_unlock L ufold t t' p rq a = (Inr (), ?a')"
    using assms(2,4,5) p ks chk
    by (simp add: api_unlock_def unlock_def unlock_begin_def unlock_finish_def Let_def)
  have later: "ap_keys a'' = ap_keys ?a' \<and> r \<noteq> Inl (http_exception EC_UNLOCK_FAILED 401)"
    if "api_unlock L ufold u u' q rq' ?a' = (r, a'')" for q a'' r
    using that
    by (auto simp: api_unlock_def Let_def validation_error_def http_exception_def split: if_splits prod.splits)
  show ?thesis
    by (rule exI [of _ ?a'], rule exI [of _ ks]) (use run ks chk later in auto)
qed

theorem unlock_accepts_any_witness:
  "\<exists>a'. api_unlock toy_lib id 0 0 ''no such passphrase'' sample_http_request
      (sample_app\<lparr>ap_sv := (ap_sv sample_app)\<lparr>sv_key_material := sample_ready\<lparr>km_state := LOCKED, km_keys := None\<rparr>\<rparr>\<rparr>) =
    (Inr (), a') \<and> km_state (ap_keys a') = READY"
proof -
  let ?a = "sample_app\<lparr>ap_sv := (ap_sv sample_app)\<lparr>sv_key_material := sample_ready\<lparr>km_state := LOCKED, km_keys := None\<rparr>\<rparr>\<rparr>"
  have "km_ok (ap_keys ?a)" "km_state (ap_keys ?a) = LOCKED" "unlock_request_valid ''no such passphrase''"
    by (simp_all add: km_ok_def sample_ready_def KDF_SALT_LENGTH_def unlock_request_valid_def sized_def)
  moreover have "rd_allowed (fst (rl_check id (get_client_ip ?a sample_http_request) ''__unlock__'' 0 (ap_unlock_limiter ?a)))"
    by (simp add: sample_app_def sample_limiter_def rl_check_def touch_buckets_def bucket_def Let_def)
  ultimately show ?thesis
    using unlock_accepts_any [of ?a toy_lib "''no such passphrase''" id sample_http_request 0 0] toy_lib_correct(2)
    by blast
qed

end
