(* ===== verification/Targets_Api.thy ===== *)
theory Targets_Api
  imports Auth_Api
begin

text \<open>
  The handlers of \<^verbatim>\<open>app/api/targets.py\<close> with their request bodies: targets, their credentials, and the
  calls to the supervisor that follow a change. The environment of the supervisor's calls is that of
  the request (time, cryptography, outcome of the supervisor's own transactions). A handler commits
  its transaction, then writes its audit row, then calls the supervisor; what raises later does not
  undo what came before.
\<close>

section \<open>Request bodies and views\<close>

record target_create_request =
  tc_type :: target_type
  tc_label :: pystr
  tc_url :: pystr
  tc_enabled :: bool
  tc_settings :: "(pystr \<times> json) list"

definition target_create_valid :: "target_create_request \<Rightarrow> bool" where
  "target_create_valid b \<longleftrightarrow> sized 1 128 (tc_label b) \<and> sized 1 2048 (tc_url b)"

text \<open>A field of a PATCH body is missing, null, or given; the handler does not tell the first two apart,
  the audit row does.\<close>

datatype 'a patch = Unset | Null | Given 'a

fun patch_value :: "'a patch \<Rightarrow> 'a option" where
  "patch_value (Given x) = Some x"
| "patch_value Null = None"
| "patch_value Unset = None"

fun patch_json :: "('a \<Rightarrow> json) \<Rightarrow> pystr \<Rightarrow> 'a patch \<Rightarrow> (pystr \<times> json) list" where
  "patch_json f k Unset = []"
| "patch_json f k Null = [(k, JNull)]"
| "patch_json f k (Given x) = [(k, f x)]"

record target_update_request =
  tu_label :: "pystr patch"
  tu_url :: "pystr patch"
  tu_enabled :: "bool patch"
  tu_settings :: "(pystr \<times> json) list patch"

definition target_update_valid :: "target_update_request \<Rightarrow> bool" where
  "target_update_valid b \<longleftrightarrow>
     (case patch_value (tu_label b) of None \<Rightarrow> True | Some s \<Rightarrow> sized 1 128 s) \<and>
     (case patch_value (tu_url b) of None \<Rightarrow> True | Some s \<Rightarrow> sized 1 2048 s)"

definition update_dump :: "target_update_request \<Rightarrow> (pystr \<times> json) list" where
  "update_dump b = patch_json JString ''label'' (tu_label b) @ patch_json JString ''url'' (tu_url b) @
     patch_json JBool ''enabled'' (tu_enabled b) @ patch_json JObject ''settings'' (tu_settings b)"

definition credential_set_valid :: "pystr \<Rightarrow> bool" where
  "credential_set_valid stream_key \<longleftrightarrow> sized 1 4096 stream_key"

record target_view =
  tv_id :: pystr
  tv_type :: target_type
  tv_label :: pystr
  tv_url :: pystr
  tv_enabled :: bool
  tv_settings :: "(pystr \<times> json) list"
  tv_has_credential :: bool
  tv_credential_last4 :: "pystr option"
  tv_created_at :: datetime
  tv_updated_at :: datetime

definition project_target :: "target_row \<Rightarrow> credential_row option \<Rightarrow> target_view" where
  "project_target t cred =
     \<lparr>tv_id = tr_id t, tv_type = (case parse_target_type (tr_type t) of None \<Rightarrow> CUSTOM | Some ty \<Rightarrow> ty),
      tv_label = tr_label t, tv_url = tr_url t, tv_enabled = tr_enabled t, tv_settings = tr_settings t,
      tv_has_credential = (cred \<noteq> None), tv_credential_last4 = map_option cr_last4 cred,
      tv_created_at = tr_created_at t, tv_updated_at = tr_updated_at t\<rparr>"

definition validate_target_type :: "pystr \<Rightarrow> http_error + target_type" where
  "validate_target_type s =
     (case parse_target_type s of None \<Rightarrow> Inl (http_exception EC_UNKNOWN_TARGET_TYPE 400) | Some ty \<Rightarrow> Inr ty)"

section \<open>Steps shared by the handlers\<close>

definition authenticate :: "sv_env \<Rightarrow> request \<Rightarrow> app \<Rightarrow> http_error + authenticated \<times> database" where
  "authenticate env rq a =
     require_authenticated (ev_crypto env) (ap_keys a) (ap_cookie_secure a) rq (ev_now env) (ap_db a)"

text \<open>What a supervisor call raises: an illegal transition has its translation, the rest is a bare 500.\<close>

definition sv_http_error :: "sv_error \<Rightarrow> http_error" where
  "sv_http_error e = (case e of SvIllegal r \<Rightarrow> illegal_run_state_handler | _ \<Rightarrow> Unhandled ''supervisor'')"

definition call_supervisor :: "sv_step \<Rightarrow> app \<Rightarrow> http_error option \<times> app" where
  "call_supervisor f a =
     (case f (ap_sv a) of (s, r) \<Rightarrow> (map_option sv_http_error r, a\<lparr>ap_sv := s\<rparr>))"

definition silent :: "(supervisor \<Rightarrow> supervisor) \<Rightarrow> sv_step" where
  "silent f s = (f s, None)"

text \<open>Steps after the commit, the first exception ending the handler, then its response.\<close>

fun then_respond :: "(app \<Rightarrow> http_error option \<times> app) list \<Rightarrow> (app \<Rightarrow> 'r) \<Rightarrow> app \<Rightarrow> (http_error + 'r) \<times> app" where
  "then_respond [] r a = (Inr (r a), a)"
| "then_respond (f # fs) r a =
     (case f a of (Some e, a') \<Rightarrow> (Inl e, a') | (None, a') \<Rightarrow> then_respond fs r a')"

definition audit_as ::
    "sv_env \<Rightarrow> authenticated \<Rightarrow> pystr \<Rightarrow> pystr option \<Rightarrow> (pystr \<times> json) list \<Rightarrow> app \<Rightarrow> http_error option \<times> app" where
  "audit_as env au event tid data = audit event (Some (us_username (au_user au))) tid data (ev_now env)"

text \<open>A handler that authenticates, checks a grant, and goes on; the grant stays spent whatever follows.\<close>

definition granted_handler ::
    "reprompt_scope \<Rightarrow> sv_env \<Rightarrow> rat \<Rightarrow> request \<Rightarrow>
     (authenticated \<Rightarrow> database \<Rightarrow> app \<Rightarrow> (http_error + 'r) \<times> app) \<Rightarrow> app \<Rightarrow> (http_error + 'r) \<times> app" where
  "granted_handler scope env mtime rq body a =
     (case authenticate env rq a of
        Inl e \<Rightarrow> (Inl e, a)
      | Inr (au, d) \<Rightarrow>
         (case require_reprompt_grant scope mtime rq (us_id (au_user au)) a of
            (Some e, a1) \<Rightarrow> (Inl e, a1)
          | (None, a1) \<Rightarrow> body au d a1))"

section \<open>Targets\<close>

definition api_list_targets :: "sv_env \<Rightarrow> request \<Rightarrow> app \<Rightarrow> (http_error + target_view list) \<times> app" where
  "api_list_targets env rq a =
     with_session (\<lambda>d0. case authenticate env rq a of
         Inl e \<Rightarrow> Inl e
       | Inr (au, d) \<Rightarrow> Inr (map (\<lambda>t. project_target t (credential_for_target d (tr_id t))) (list_targets d), d)) a"

definition api_get_target :: "sv_env \<Rightarrow> pystr \<Rightarrow> request \<Rightarrow> app \<Rightarrow> (http_error + target_view) \<times> app" where
  "api_get_target env tid rq a =
     with_session (\<lambda>d0. case authenticate env rq a of
         Inl e \<Rightarrow> Inl e
       | Inr (au, d) \<Rightarrow>
          (case target_by_id d tid of
             None \<Rightarrow> Inl (http_exception EC_TARGET_NOT_FOUND 404)
           | Some t \<Rightarrow> Inr (project_target t (credential_for_target d tid), d))) a"

definition api_create_target ::
    "sv_env \<Rightarrow> pystr \<Rightarrow> target_create_request \<Rightarrow> request \<Rightarrow> app \<Rightarrow> (http_error + target_view) \<times> app" where
  "api_create_target env new_id body rq a =
     (case authenticate env rq a of
        Inl e \<Rightarrow> (Inl e, a)
      | Inr (au, d) \<Rightarrow>
         (if \<not> target_create_valid body then (Inl validation_error, a)
          else (case create_target new_id (target_type_value (tc_type body)) (tc_label body) (tc_url body)
                       (tc_enabled body) (tc_settings body) (ev_now env) d of
             Inl e \<Rightarrow> (Inl (Unhandled ''IntegrityError''), a)
           | Inr (dto, d1) \<Rightarrow>
               then_respond
                 [audit_as env au ''target_created'' (Some (tr_id dto))
                    [(''type'', JString (target_type_value (tc_type body))), (''label'', JString (tc_label body))],
                  call_supervisor (if tc_enabled body then enable_target env (tr_id dto) else (\<lambda>s. (s, None)))]
                 (\<lambda>a'. project_target dto None) (set_db d1 a))))"

text \<open>The supervisor calls of an update: by the change of the flag when the body gives it, otherwise a
  cycle of an enabled target.\<close>

definition update_calls :: "sv_env \<Rightarrow> pystr \<Rightarrow> bool option \<Rightarrow> bool \<Rightarrow> sv_step list" where
  "update_calls env tid given was_enabled =
     (case given of
        Some en \<Rightarrow>
          (if en \<and> \<not> was_enabled then [enable_target env tid]
           else if \<not> en \<and> was_enabled then [silent (disable_target env tid)] else [])
      | None \<Rightarrow> (if was_enabled then [silent (disable_target env tid), enable_target env tid] else []))"

definition api_update_target ::
    "sv_env \<Rightarrow> pystr \<Rightarrow> target_update_request \<Rightarrow> request \<Rightarrow> app \<Rightarrow> (http_error + target_view) \<times> app" where
  "api_update_target env tid body rq a =
     (case authenticate env rq a of
        Inl e \<Rightarrow> (Inl e, a)
      | Inr (au, d) \<Rightarrow>
         (if \<not> target_update_valid body then (Inl validation_error, a)
          else (case target_by_id d tid of
             None \<Rightarrow> (Inl (http_exception EC_TARGET_NOT_FOUND 404), a)
           | Some existing \<Rightarrow>
              (case update_target tid (patch_value (tu_label body)) (patch_value (tu_url body))
                      (patch_value (tu_enabled body)) (patch_value (tu_settings body)) (ev_now env) d of
                 (None, d1) \<Rightarrow> (Inl (http_exception EC_TARGET_NOT_FOUND 404), a)
               | (Some updated, d1) \<Rightarrow>
                   then_respond
                     (audit_as env au ''target_updated'' (Some tid) (update_dump body) #
                      map call_supervisor (update_calls env tid (patch_value (tu_enabled body)) (tr_enabled existing)))
                     (\<lambda>a'. project_target updated (credential_for_target (ap_db a') tid)) (set_db d1 a)))))"

text \<open>The workers are stopped before the row goes; the supervisor call touches no table.\<close>

definition api_delete_target ::
    "sv_env \<Rightarrow> rat \<Rightarrow> pystr \<Rightarrow> request \<Rightarrow> app \<Rightarrow> (http_error + unit) \<times> app" where
  "api_delete_target env mtime tid rq =
     granted_handler DELETE_TARGET env mtime rq (\<lambda>au d a.
       case target_by_id d tid of
         None \<Rightarrow> (Inl (http_exception EC_TARGET_NOT_FOUND 404), a)
       | Some existing \<Rightarrow>
          (let a1 = a\<lparr>ap_sv := disable_target env tid (ap_sv a)\<rparr>
           in case delete_target tid d of
                (False, d1) \<Rightarrow> (Inl (http_exception EC_TARGET_NOT_FOUND 404), a1)
              | (True, d1) \<Rightarrow>
                  then_respond
                    [audit_as env au ''target_deleted'' None
                       [(''target_id'', JString tid), (''label'', JString (tr_label existing))]]
                    (\<lambda>a'. ()) (set_db d1 a1)))"

section \<open>Credentials\<close>

record credential_summary =
  cs_last4 :: pystr
  cs_lifetime :: pystr
  cs_created_at :: datetime
  cs_expires_at :: "datetime option"

text \<open>The sealed row of a stream key: the random row id, salt and nonce are arguments.\<close>

definition seal_credential ::
    "sv_env \<Rightarrow> bytes \<Rightarrow> pystr \<Rightarrow> bytes \<Rightarrow> bytes \<Rightarrow> pystr \<Rightarrow> pystr \<Rightarrow> http_error + credential_input" where
  "seal_credential env kek new_id salt nonce lifetime plaintext =
     (case build_credential_aad salt of
        Inl e \<Rightarrow> Inl (Unhandled ''ValueError'')
      | Inr aad \<Rightarrow>
         (case aead_encrypt (ev_crypto env) nonce kek (utf8_encode plaintext) aad of
            Inl e \<Rightarrow> Inl (Unhandled ''ValueError'')
          | Inr (n, ct) \<Rightarrow> Inr \<lparr>ci_id = new_id, ci_lifetime = lifetime, ci_ciphertext = ct, ci_nonce = n,
               ci_salt = salt, ci_last4 = (if length plaintext \<ge> 4 then tail_slice 4 plaintext else plaintext),
               ci_expires_at = None, ci_now = ev_now env\<rparr>))"

definition api_set_credential ::
    "sv_env \<Rightarrow> pystr \<Rightarrow> bytes \<Rightarrow> bytes \<Rightarrow> pystr \<Rightarrow> pystr \<Rightarrow> request \<Rightarrow> app \<Rightarrow>
     (http_error + credential_summary) \<times> app" where
  "api_set_credential env new_id salt nonce tid stream_key rq a =
     (case authenticate env rq a of
        Inl e \<Rightarrow> (Inl e, a)
      | Inr (au, d) \<Rightarrow>
      (case require_unlocked_keys (ap_keys a) of
        Inl e \<Rightarrow> (Inl e, a)
      | Inr ks \<Rightarrow>
      (if \<not> credential_set_valid stream_key then (Inl validation_error, a)
       else (case target_by_id d tid of
        None \<Rightarrow> (Inl (http_exception EC_TARGET_NOT_FOUND 404), a)
      | Some target \<Rightarrow>
      (case validate_target_type (tr_type target) of
        Inl e \<Rightarrow> (Inl e, a)
      | Inr ty \<Rightarrow>
      (let lifetime = lifetime_value (lifetime_for ty)
       in case seal_credential env (dk_stream_key_kek ks) new_id salt nonce lifetime stream_key of
        Inl e \<Rightarrow> (Inl e, a)
      | Inr c \<Rightarrow>
      (case upsert_credential tid c d of
        Inl e \<Rightarrow> (Inl (Unhandled ''IntegrityError''), a)
      | Inr (dto, d1) \<Rightarrow>
          then_respond
            [audit_as env au ''credential_set'' (Some tid)
               [(''lifetime'', JString lifetime), (''last4'', JString (ci_last4 c))],
             call_supervisor (if tr_enabled target then enable_target env tid else (\<lambda>s. (s, None)))]
            (\<lambda>a'. \<lparr>cs_last4 = cr_last4 dto, cs_lifetime = lifetime, cs_created_at = cr_created_at dto,
               cs_expires_at = cr_expires_at dto\<rparr>) (set_db d1 a))))))))"

definition api_reveal_credential ::
    "sv_env \<Rightarrow> rat \<Rightarrow> pystr \<Rightarrow> request \<Rightarrow> app \<Rightarrow> (http_error + pystr \<times> pystr) \<times> app" where
  "api_reveal_credential env mtime tid rq a =
     (case require_unlocked_keys (ap_keys a) of
        Inl e \<Rightarrow> (Inl e, a)
      | Inr ks \<Rightarrow>
     granted_handler REVEAL_STREAM_KEY env mtime rq (\<lambda>au d a.
       case target_by_id d tid of
         None \<Rightarrow> (Inl (http_exception EC_TARGET_NOT_FOUND 404), a)
       | Some target \<Rightarrow>
       (case credential_for_target d tid of
         None \<Rightarrow> (Inl (http_exception EC_CREDENTIAL_NOT_FOUND 404), a)
       | Some cred \<Rightarrow>
       (case build_credential_aad (cr_salt cred) of
         Inl e \<Rightarrow> (Inl (Unhandled ''ValueError''), a)
       | Inr aad \<Rightarrow>
       (case aead_decrypt (ev_crypto env) (dk_stream_key_kek ks) (cr_nonce cred) (cr_ciphertext cred) aad of
         Inl e \<Rightarrow> (Inl (if e = AEADDecryptionError then http_exception EC_NOT_FOUND 500 else Unhandled ''ValueError''), a)
       | Inr plaintext_bytes \<Rightarrow>
       (case utf8_decode plaintext_bytes of
         None \<Rightarrow> (Inl (Unhandled ''UnicodeDecodeError''), a)
       | Some plaintext \<Rightarrow>
           then_respond
             [audit_as env au ''credential_revealed'' (Some tid) [(''last4'', JString (cr_last4 cred))]]
             (\<lambda>a'. (plaintext, cr_last4 cred)) (set_db d a)))))) a)"

definition api_clear_credential ::
    "sv_env \<Rightarrow> rat \<Rightarrow> pystr \<Rightarrow> request \<Rightarrow> app \<Rightarrow> (http_error + unit) \<times> app" where
  "api_clear_credential env mtime tid rq =
     granted_handler CLEAR_CREDENTIAL env mtime rq (\<lambda>au d a.
       case target_by_id d tid of
         None \<Rightarrow> (Inl (http_exception EC_TARGET_NOT_FOUND 404), a)
       | Some target \<Rightarrow>
          (case delete_credential_for_target tid d of
             (False, d1) \<Rightarrow> (Inr (), set_db d1 a)
           | (True, d1) \<Rightarrow>
               then_respond
                 [audit_as env au ''credential_cleared'' (Some tid) [],
                  call_supervisor (silent (disable_target env tid))]
                 (\<lambda>a'. ()) (set_db d1 a)))"

definition api_reset_target_worker ::
    "sv_env \<Rightarrow> pystr \<Rightarrow> worker_role \<Rightarrow> request \<Rightarrow> app \<Rightarrow> (http_error + unit) \<times> app" where
  "api_reset_target_worker env tid role rq a =
     (case authenticate env rq a of
        Inl e \<Rightarrow> (Inl e, a)
      | Inr (au, d) \<Rightarrow> (Inr (), (set_db d a)\<lparr>ap_sv := reset_target_worker tid role (ap_sv (set_db d a))\<rparr>))"

lemma then_respond_invariant:
  "(\<And>f b. f \<in> set fs \<Longrightarrow> P b \<Longrightarrow> P (snd (f b))) \<Longrightarrow> P a \<Longrightarrow> P (snd (then_respond fs r a))"
proof (induction fs arbitrary: a)
  case (Cons f fs)
  have "P (snd (f a))" by (rule Cons.prems) (use Cons.prems in auto)
  moreover have "P (snd (then_respond fs r b))" if "P b" for b
    by (rule Cons.IH) (use Cons.prems that in auto)
  ultimately show ?case by (cases "f a"; cases "fst (f a)") auto
qed simp

section \<open>A stored key is revealed as it was set\<close>

lemma audit_success:
  "tid = None \<or> target_by_id (ap_db a) (the tid) \<noteq> None \<Longrightarrow> fst (audit event actor tid data now a) = None"
  by (auto simp: audit_def append_audit_def Let_def split: option.split)

lemma audit_credential [simp]:
  "credential_for_target (ap_db (snd (audit event actor t data now a))) tid = credential_for_target (ap_db a) tid"
  "target_by_id (ap_db (snd (audit event actor t data now a))) tid = target_by_id (ap_db a) tid"
  "ap_keys (snd (audit event actor t data now a)) = ap_keys a"
  "sv_workers (ap_sv (snd (audit event actor t data now a))) = sv_workers (ap_sv a)"
  by (auto simp: audit_def append_audit_def Let_def credential_for_target_def target_by_id_def set_db_def
      split: sum.split if_splits)

lemma enable_target_db [simp]: "sv_db (fst (enable_target env tid s)) = sv_db s"
proof -
  have "sv_db (fst (spawn_workers_for_target env t dm k u)) = sv_db u" for t dm k u
    unfolding spawn_workers_for_target_def
    by (rule steps_invariant [where P = "\<lambda>v. sv_db v = sv_db u"]) (use spawn_worker_frame in auto)
  then show ?thesis
    by (auto simp: enable_target_def enable_locked_def Let_def split: sum.split option.split)
qed

lemma enable_target_keys [simp]: "sv_key_material (fst (enable_target env tid s)) = sv_key_material s"
proof -
  have one: "sv_key_material (fst (spawn_worker env t dm k r u)) = sv_key_material u" for t dm k r u
    by (auto simp: spawn_worker_def launch_guarded_def launch_worker_def abandon_worker_def Let_def split: sum.split)
  have "sv_key_material (fst (spawn_workers_for_target env t dm k u)) = sv_key_material u" for t dm k u
    unfolding spawn_workers_for_target_def
    by (rule steps_invariant [where P = "\<lambda>v. sv_key_material v = sv_key_material u"]) (auto simp: one)
  then show ?thesis
    by (auto simp: enable_target_def enable_locked_def Let_def split: sum.split option.split)
qed

lemma call_supervisor_frame [simp]:
  "ap_db (snd (call_supervisor f a)) = sv_db (fst (f (ap_sv a)))"
  "ap_keys (snd (call_supervisor f a)) = sv_key_material (fst (f (ap_sv a)))"
  "ap_reprompts (snd (call_supervisor f a)) = ap_reprompts a"
  by (simp_all add: call_supervisor_def split: prod.split)

lemma require_reprompt_grant_db [simp]: "ap_sv (snd (require_reprompt_grant scope mtime rq uid a)) = ap_sv a"
  by (auto simp: require_reprompt_grant_def split: option.split prod.split)

lemma upsert_found:
  "upsert_credential tid c d = Inr (row, d1) \<Longrightarrow>
    credential_for_target d1 tid = Some (credential_of tid c) \<and> cr_last4 row = ci_last4 c"
  by (auto simp: upsert_credential_def credential_for_target_def replace_credential_def one_or_none_delete_key
      split: if_splits) (simp_all add: credential_of_def)

lemma upsert_targets: "upsert_credential tid c d = Inr (row, d1) \<Longrightarrow> target_by_id d1 i = target_by_id d i"
  by (auto simp: upsert_credential_def target_by_id_def split: if_splits)

lemma authenticate_rows:
  assumes "authenticate env rq a = Inr (au, d)"
  shows "target_by_id d i = target_by_id (ap_db a) i" "credential_for_target d i = credential_for_target (ap_db a) i"
  using require_authenticated_frame [OF assms [unfolded authenticate_def]]
  by (simp_all add: target_by_id_def credential_for_target_def)

lemma set_credential_stores:
  assumes "api_set_credential env new_id salt nonce tid key rq a = (Inr summ, a')"
  shows "\<exists>ks c aad ct. km_keys (ap_keys a) = Some ks \<and> ap_keys a' = ap_keys a \<and>
    credential_for_target (ap_db a') tid = Some (credential_of tid c) \<and> target_by_id (ap_db a') tid \<noteq> None \<and>
    build_credential_aad salt = Inr aad \<and> ci_salt c = salt \<and> ci_nonce c = nonce \<and>
    aead_encrypt (ev_crypto env) nonce (dk_stream_key_kek ks) (utf8_encode key) aad = Inr (nonce, ct) \<and>
    ci_ciphertext c = ct \<and> ci_last4 c = tail_slice 4 key \<and> cs_last4 summ = tail_slice 4 key"
proof -
  obtain au d ks where au: "authenticate env rq a = Inr (au, d)" "require_unlocked_keys (ap_keys a) = Inr ks"
    using assms by (auto simp: api_set_credential_def split: sum.splits prod.splits)
  then obtain t ty c row d1 where t: "target_by_id d tid = Some t" "validate_target_type (tr_type t) = Inr ty"
    and c: "seal_credential env (dk_stream_key_kek ks) new_id salt nonce (lifetime_value (lifetime_for ty)) key = Inr c"
    and u: "upsert_credential tid c d = Inr (row, d1)"
    and r: "then_respond
        [audit_as env au ''credential_set'' (Some tid)
           [(''lifetime'', JString (lifetime_value (lifetime_for ty))), (''last4'', JString (ci_last4 c))],
         call_supervisor (if tr_enabled t then enable_target env tid else (\<lambda>s. (s, None)))]
        (\<lambda>a'. \<lparr>cs_last4 = cr_last4 row, cs_lifetime = lifetime_value (lifetime_for ty),
           cs_created_at = cr_created_at row, cs_expires_at = cr_expires_at row\<rparr>) (set_db d1 a) = (Inr summ, a')"
    using assms unfolding api_set_credential_def Let_def
    by (auto simp del: then_respond.simps split: sum.splits prod.splits if_splits option.splits)
  have ks: "km_keys (ap_keys a) = Some ks"
    using au(2) by (auto simp: require_unlocked_keys_def require_ready_def split: if_splits option.splits)
  let ?f = "if tr_enabled t then enable_target env tid else (\<lambda>s. (s, None))"
  let ?a1 = "snd (audit_as env au ''credential_set'' (Some tid)
           [(''lifetime'', JString (lifetime_value (lifetime_for ty))), (''last4'', JString (ci_last4 c))] (set_db d1 a))"
  have a': "a' = snd (call_supervisor ?f ?a1)" and summ: "cs_last4 summ = cr_last4 row"
    using r by (auto split: prod.splits option.splits)
  have "ap_db a' = ap_db ?a1" "ap_keys a' = ap_keys ?a1" by (simp_all add: a')
  moreover have "length salt = KDF_SALT_LENGTH" "length (dk_stream_key_kek ks) = DERIVED_KEY_LENGTH"
    using c by (auto simp: seal_credential_def build_credential_aad_def aead_encrypt_def split: if_splits)
  moreover have short: "(if length key \<ge> 4 then tail_slice 4 key else key) = tail_slice 4 key"
    by (simp add: tail_slice_def)
  ultimately show ?thesis
    using c ks upsert_found [OF u] upsert_targets [OF u] t(1) summ
    by (auto simp: seal_credential_def build_credential_aad_def aead_encrypt_def audit_as_def)
qed

lemma granted_handler_run:
  assumes "authenticate env rq a = Inr (au, d)"
    "fst (require_reprompt_grant scope mtime rq (us_id (au_user au)) a) = None"
  shows "granted_handler scope env mtime rq body a =
    body au d (snd (require_reprompt_grant scope mtime rq (us_id (au_user au)) a))"
  using assms by (cases "require_reprompt_grant scope mtime rq (us_id (au_user au)) a") (simp add: granted_handler_def)

text \<open>C33: A stream key that was stored successfully is what a later reveal under
  the same unlocked keys answers to a caller with a valid grant, together with its last four
  characters; without a valid grant the answer is a 403 and no table has changed.\<close>

theorem revealed_credential_matches:
  assumes "api_set_credential env new_id salt nonce tid key rq a = (Inr summ, a')"
    "aead_correct (ev_crypto env)" "length nonce = AEAD_NONCE_LENGTH" "ev_crypto env2 = ev_crypto env"
    "authenticate env2 rq2 a' = Inr (au, d)"
  shows "case require_reprompt_grant REVEAL_STREAM_KEY mtime rq2 (us_id (au_user au)) a' of
      (None, a1) \<Rightarrow> fst (api_reveal_credential env2 mtime tid rq2 a') = Inr (key, cs_last4 summ)
    | (Some e, a1) \<Rightarrow> api_reveal_credential env2 mtime tid rq2 a' = (Inl e, a1) \<and> error_status e = 403 \<and> ap_sv a1 = ap_sv a'"
proof -
  obtain ks c aad ct where st: "km_keys (ap_keys a) = Some ks" "ap_keys a' = ap_keys a"
    "credential_for_target (ap_db a') tid = Some (credential_of tid c)" "target_by_id (ap_db a') tid \<noteq> None"
    "build_credential_aad salt = Inr aad" "ci_salt c = salt" "ci_nonce c = nonce"
    "aead_encrypt (ev_crypto env) nonce (dk_stream_key_kek ks) (utf8_encode key) aad = Inr (nonce, ct)"
    "ci_ciphertext c = ct" "ci_last4 c = tail_slice 4 key" "cs_last4 summ = tail_slice 4 key"
    using set_credential_stores [OF assms(1)] by blast
  have ks: "require_unlocked_keys (ap_keys a') = Inr ks"
    using st assms(5)
    by (auto simp: authenticate_def require_authenticated_def require_unlocked_keys_def require_ready_def
        split: if_splits option.splits)
  obtain t where t: "target_by_id d tid = Some t" using st(4) authenticate_rows(1) [OF assms(5)] by auto
  have cred: "credential_for_target d tid = Some (credential_of tid c)"
    using st(3) authenticate_rows(2) [OF assms(5)] by simp
  have "aead_decrypt (ev_crypto env) (dk_stream_key_kek ks) nonce ct aad = Inr (utf8_encode key)"
    using st(8) assms(2,3) by (auto simp: aead_encrypt_def aead_decrypt_def aead_correct_def GCM_TAG_LENGTH_def split: if_splits)
  then have opened: "aead_decrypt (ev_crypto env2) (dk_stream_key_kek ks) (cr_nonce (credential_of tid c))
      (cr_ciphertext (credential_of tid c)) aad = Inr (utf8_encode key)"
    using assms(4) st(7,9) by (simp add: credential_of_def)
  have aad: "build_credential_aad (cr_salt (credential_of tid c)) = Inr aad" "cr_last4 (credential_of tid c) = tail_slice 4 key"
    using st by (simp_all add: credential_of_def)
  have ok: "fst (audit_as env2 au ''credential_revealed'' (Some tid) [(''last4'', JString (tail_slice 4 key))] (set_db d a1)) = None" for a1
    unfolding audit_as_def by (rule audit_success) (simp add: t)
  show ?thesis
  proof (cases "require_reprompt_grant REVEAL_STREAM_KEY mtime rq2 (us_id (au_user au)) a'")
    case (Pair e a1)
    show ?thesis
    proof (cases e)
      case None
      then show ?thesis
        using Pair ks t cred aad opened ok [of a1] st(11)
        by (auto simp: api_reveal_credential_def granted_handler_run [OF assms(5)] split: prod.split)
    next
      case (Some err)
      then have "error_status err = 403"
        using Pair by (auto simp: require_reprompt_grant_def split: option.splits if_splits prod.splits)
      then show ?thesis
        using Pair Some ks assms(5) require_reprompt_grant_frame [OF Pair]
        by (simp add: api_reveal_credential_def granted_handler_def)
    qed
  qed
qed

text \<open>A process with full-length keys, a grant to reveal, and a request of the signed-in user.\<close>

definition sample_env_api :: sv_env where
  "sample_env_api = sample_env\<lparr>ev_now := 999, ev_crypto := toy_lib\<rparr>"

definition sample_grant_app :: "reprompt_scope \<Rightarrow> app" where
  "sample_grant_app scope = sample_app\<lparr>
     ap_sv := (ap_sv sample_app)\<lparr>sv_key_material := sample_ready\<lparr>km_keys :=
       Some ((ss_keys sample_service)\<lparr>dk_stream_key_kek := replicate 32 CHR ''k''\<rparr>)\<rparr>\<rparr>,
     ap_reprompts := \<lparr>rp_ttl = 60, rp_grants = [(''g'', \<lparr>rg_user_id = ''u'', rg_scope = scope, rg_issued_at = 0\<rparr>)]\<rparr>\<rparr>"

definition sample_grant_request :: request where
  "sample_grant_request = sample_http_request\<lparr>rq_reprompt_grant := Some ''g''\<rparr>"

definition sample_stored :: "(http_error + credential_summary) \<times> app" where
  "sample_stored = api_set_credential sample_env_api ''c1'' (replicate 16 CHR ''s'') (replicate 12 CHR ''n'') ''t1''
     ''live_key_7F2A'' sample_grant_request (sample_grant_app REVEAL_STREAM_KEY)"

lemma sample_stored_ok:
  "is_ok (fst sample_stored)" "is_ok (authenticate sample_env_api sample_grant_request (snd sample_stored))"
  "case authenticate sample_env_api sample_grant_request (snd sample_stored) of
     Inl e \<Rightarrow> False
   | Inr (au, d) \<Rightarrow> fst (require_reprompt_grant REVEAL_STREAM_KEY 10 sample_grant_request (us_id (au_user au))
       (snd sample_stored)) = None"
  by code_simp+

theorem revealed_credential_matches_witness:
  "\<exists>last4. fst (api_reveal_credential sample_env_api 10 ''t1'' sample_grant_request (snd sample_stored)) =
    Inr (''live_key_7F2A'', last4)"
proof -
  obtain summ a' where s: "sample_stored = (Inr summ, a')"
    using sample_stored_ok(1) by (metis prod.collapse sum.collapse(2))
  have "is_ok (authenticate sample_env_api sample_grant_request a')" using sample_stored_ok(2) by (simp add: s)
  then obtain au d where au: "authenticate sample_env_api sample_grant_request a' = Inr (au, d)"
    by (cases "authenticate sample_env_api sample_grant_request a'") auto
  have c: "aead_correct (ev_crypto sample_env_api)" "length (replicate 12 CHR ''n'') = AEAD_NONCE_LENGTH"
    using toy_lib_correct(1) by (simp_all add: sample_env_api_def AEAD_NONCE_LENGTH_def)
  have "fst (require_reprompt_grant REVEAL_STREAM_KEY 10 sample_grant_request (us_id (au_user au)) a') = None"
    using sample_stored_ok(3) by (simp add: s au)
  then show ?thesis
    using revealed_credential_matches [OF s [unfolded sample_stored_def] c refl au, of 10] by (auto simp: s split: prod.splits)
qed

section \<open>Deleting a target\<close>

lemma granted_handler_Inr:
  assumes "granted_handler scope env mtime rq body a = (Inr x, a')"
  obtains au d a1 where "authenticate env rq a = Inr (au, d)"
    "require_reprompt_grant scope mtime rq (us_id (au_user au)) a = (None, a1)" "body au d a1 = (Inr x, a')"
  using assms by (auto simp: granted_handler_def split: sum.splits prod.splits option.splits)

lemma disable_target_db [simp]: "sv_db (disable_target env tid s) = sv_db s"
proof -
  have one: "sv_db (tear_down_worker env t u i) = sv_db u" for t u i
    by (simp add: tear_down_worker_def unregister_secret_def Let_def split: option.split)
  have "sv_db (foldl (tear_down_worker env tid) s is) = sv_db s" for "is"
    by (induction "is" arbitrary: s) (simp_all add: one)
  then show ?thesis by (simp add: disable_target_def tear_down_workers_for_target_def)
qed

lemma disabled_workers_gone:
  assumes "sv_ok s" "i \<in> set (workers_of tid s)"
  shows "map_of (sv_workers (disable_target env tid s)) i = None" "map_of (sv_secrets (disable_target env tid s)) i = None"
proof -
  have "\<forall>i\<in>set (workers_of tid s). wid_target i = tid"
    using assms(1) by (cases "map_of (sv_target_workers s) tid") (auto simp: sv_ok_def keyed_ok_def workers_of_def)
  from tear_down_workers_maps [OF assms(1) this, of env i]
  show "map_of (sv_workers (disable_target env tid s)) i = None" "map_of (sv_secrets (disable_target env tid s)) i = None"
    using assms(2) by (simp_all add: disable_target_def tear_down_workers_for_target_def)
qed

lemma delete_target_rows:
  assumes "delete_target tid d = (b, d1)"
  shows "target_by_id d1 j = (if j = tid then None else target_by_id d j)"
    "credential_for_target d1 j = (if j = tid then None else credential_for_target d j)"
    "\<forall>r\<in>set (db_audit_log d1). al_target_id r \<noteq> Some tid"
proof -
  have d1: "db_targets d1 = delete_where (\<lambda>r. tr_id r = tid) (db_targets d)"
    "db_credentials d1 = delete_where (\<lambda>r. cr_target_id r = tid) (db_credentials d)"
    "db_audit_log d1 = update_where (\<lambda>r. al_target_id r = Some tid) (\<lambda>r. r\<lparr>al_target_id := None\<rparr>) (db_audit_log d)"
    using assms by (auto simp: delete_target_def)
  show "target_by_id d1 j = (if j = tid then None else target_by_id d j)"
    "credential_for_target d1 j = (if j = tid then None else credential_for_target d j)"
    by (simp_all add: target_by_id_def credential_for_target_def d1 one_or_none_delete_key)
  show "\<forall>r\<in>set (db_audit_log d1). al_target_id r \<noteq> Some tid" by (auto simp: d1 update_where_def)
qed

text \<open>C34: A deletion that succeeds had a grant for it; afterwards the target's row and its
  credential are gone, no audit row points to it, and the rows of the other targets are as before. Of the workers exactly
  those listed for the target are gone, with their secrets: all its workers when all are listed, as after a start, and
  not one that an earlier run left behind unlisted.\<close>

theorem target_deletion_complete:
  assumes "api_delete_target env mtime tid rq a = (Inr (), a')" "sv_ok (ap_sv a)"
  shows "(\<exists>g uid. rq_reprompt_grant rq = Some g \<and> fst (rp_consume g uid DELETE_TARGET mtime (ap_reprompts a))) \<and>
    target_by_id (ap_db a') j = (if j = tid then None else target_by_id (ap_db a) j) \<and>
    credential_for_target (ap_db a') j = (if j = tid then None else credential_for_target (ap_db a) j) \<and>
    (\<forall>r\<in>set (db_audit_log (ap_db a')). al_target_id r \<noteq> Some tid) \<and>
    map_of (sv_workers (ap_sv a')) i = (if i \<in> set (workers_of tid (ap_sv a)) then None else map_of (sv_workers (ap_sv a)) i) \<and>
    map_of (sv_secrets (ap_sv a')) i = (if i \<in> set (workers_of tid (ap_sv a)) then None else map_of (sv_secrets (ap_sv a)) i) \<and>
    (\<forall>k\<in>set (workers_of tid (ap_sv a)). wid_target k = tid)"
proof -
  obtain au d a1 where h: "authenticate env rq a = Inr (au, d)"
    "require_reprompt_grant DELETE_TARGET mtime rq (us_id (au_user au)) a = (None, a1)"
    and b: "(case target_by_id d tid of
         None \<Rightarrow> (Inl (http_exception EC_TARGET_NOT_FOUND 404), a1)
       | Some existing \<Rightarrow>
          (let a1 = a1\<lparr>ap_sv := disable_target env tid (ap_sv a1)\<rparr>
           in case delete_target tid d of
                (False, d1) \<Rightarrow> (Inl (http_exception EC_TARGET_NOT_FOUND 404), a1)
              | (True, d1) \<Rightarrow>
                  then_respond
                    [audit_as env au ''target_deleted'' None
                       [(''target_id'', JString tid), (''label'', JString (tr_label existing))]]
                    (\<lambda>a'. ()) (set_db d1 a1))) = (Inr (), a')"
    using assms(1) unfolding api_delete_target_def by (rule granted_handler_Inr)
  obtain ex d1 where ex: "target_by_id d tid = Some ex" and d1: "delete_target tid d = (True, d1)"
    and a': "a' = snd (audit_as env au ''target_deleted'' None
        [(''target_id'', JString tid), (''label'', JString (tr_label ex))]
        (set_db d1 (a1\<lparr>ap_sv := disable_target env tid (ap_sv a1)\<rparr>)))"
    using b by (auto simp: Let_def split: option.splits prod.splits bool.splits)
  let ?a2 = "set_db d1 (a1\<lparr>ap_sv := disable_target env tid (ap_sv a1)\<rparr>)"
  have sv: "ap_sv a1 = ap_sv a" by (rule require_reprompt_grant_frame [OF h(2)])
  have log: "db_audit_log (ap_db a') = db_audit_log d1 @ [\<lparr>al_id = db_next_audit_id d1, al_at = stored_time (ev_now env),
      al_event_type = ''target_deleted'', al_actor = Some (us_username (au_user au)), al_target_id = None,
      al_data = [(''target_id'', JString tid), (''label'', JString (tr_label ex))]\<rparr>]"
    unfolding a' audit_as_def by (simp add: audit_def append_audit_def Let_def)
  have rows: "target_by_id (ap_db a') j = target_by_id d1 j" "credential_for_target (ap_db a') j = credential_for_target d1 j"
    "sv_workers (ap_sv a') = sv_workers (disable_target env tid (ap_sv a))"
    unfolding a' audit_as_def by (simp_all add: sv set_db_def)
  have secrets: "sv_secrets (ap_sv a') = sv_secrets (disable_target env tid (ap_sv a))"
    unfolding a' audit_as_def by (simp add: audit_def append_audit_def Let_def set_db_def sv)
  have own: "\<forall>k\<in>set (workers_of tid (ap_sv a)). wid_target k = tid"
    using assms(2) by (cases "map_of (sv_target_workers (ap_sv a)) tid") (auto simp: sv_ok_def keyed_ok_def workers_of_def)
  note d = authenticate_rows [OF h(1)] and gone = disable_target_exact [OF assms(2), of env tid i]
  show ?thesis
    using require_reprompt_grant_None [OF h(2)] delete_target_rows [OF d1] log rows secrets d gone own by auto
qed

text \<open>The deletion of a target whose worker runs.\<close>

definition sample_busy_app :: app where
  "sample_busy_app =
     (let a = sample_grant_app DELETE_TARGET
      in a\<lparr>ap_sv := (ap_sv a)\<lparr>sv_run_state := ARMED, sv_workers := sv_workers sample_started,
             sv_secrets := sv_secrets sample_started, sv_target_workers := sv_target_workers sample_started,
             sv_targets := sv_targets sample_started, sv_registry := sv_registry sample_started\<rparr>\<rparr>)"

definition sample_deleted :: "(http_error + unit) \<times> app" where
  "sample_deleted = api_delete_target sample_env_api 10 ''t1'' sample_grant_request sample_busy_app"

lemma sample_deleted_ok: "is_ok (fst sample_deleted)"
  by code_simp

theorem target_deletion_complete_witness:
  "target_by_id (ap_db (snd sample_deleted)) ''t1'' = None \<and> target_by_id (ap_db sample_busy_app) ''t1'' \<noteq> None \<and>
    map_of (sv_workers (ap_sv (snd sample_deleted))) sample_worker = None \<and>
    map_of (sv_workers (ap_sv sample_busy_app)) sample_worker \<noteq> None"
proof -
  have "fst sample_deleted = Inr ()" using sample_deleted_ok by (cases "fst sample_deleted") auto
  then have s: "sample_deleted = (Inr (), snd sample_deleted)" by (simp add: prod_eq_iff)
  have sv: "ap_sv (sample_grant_app DELETE_TARGET) = (new_supervisor sample_session_db sample_ready [] ''rtmp://127.0.0.1/ingest/k'' 0)
      \<lparr>sv_key_material := sample_ready\<lparr>km_keys :=
         Some ((ss_keys sample_service)\<lparr>dk_stream_key_kek := replicate 32 CHR ''k''\<rparr>)\<rparr>\<rparr>"
    by (simp add: sample_grant_app_def sample_app_def)
  have ok: "sv_ok (ap_sv sample_busy_app)"
    using sample_started(8) by (simp add: sample_busy_app_def sv_ok_def Let_def)
  have row: "target_by_id (ap_db sample_busy_app) ''t1'' \<noteq> None"
    using sv by (simp add: sample_busy_app_def Let_def new_supervisor_def sample_session_db_def sample_db_def
        target_by_id_def one_or_none_def)
  have listed: "sample_worker \<in> set (workers_of ''t1'' (ap_sv sample_busy_app))"
    using sample_started(5) by (simp add: sample_busy_app_def Let_def workers_of_def)
  have "map_of (sv_workers (ap_sv sample_busy_app)) sample_worker \<noteq> None"
    using sample_started(2) by (auto simp: sample_busy_app_def Let_def map_of_eq_None_iff simp flip: set_map)
  then show ?thesis
    using target_deletion_complete [OF s [unfolded sample_deleted_def] ok, of "''t1''" sample_worker] row listed
    by (simp add: sample_deleted_def)
qed

section \<open>Changes a running worker does not see\<close>

lemma spawn_existing:
  assumes "\<forall>r\<in>set rs. map_of (sv_workers s) \<lparr>wid_target = tg_id dm, wid_role = r\<rparr> \<noteq> None"
  shows "steps (map (spawn_worker env t dm key) rs) s = (s, None)"
  using assms by (induction rs) (auto simp: spawn_worker_def Let_def)

lemma load_row_id: "load_row L kek d t = Inr ((t', dm, key), fs) \<Longrightarrow> tg_id dm = tr_id t"
  by (auto simp: load_row_def target_dto_to_domain_def Let_def split: option.splits opened_credential.splits)

lemma reload_target_id:
  assumes "reload_target env tid s = Inr (Some (t, dm, key))"
  shows "tg_id dm = tid"
proof -
  obtain row L kek fs where "target_by_id (sv_db s) tid = Some row" "load_row L kek (sv_db s) row = Inr ((t, dm, key), fs)"
    using assms by (auto simp: reload_target_def split: sum.splits if_splits option.splits prod.splits)
  then show ?thesis using load_row_id one_or_none_SomeD by (fastforce simp: target_by_id_def)
qed

lemma enable_target_existing:
  assumes "\<And>r. map_of (sv_workers s) \<lparr>wid_target = tid, wid_role = r\<rparr> \<noteq> None"
  shows "sv_workers (fst (enable_target env tid s)) = sv_workers s \<and> sv_secrets (fst (enable_target env tid s)) = sv_secrets s"
proof (cases "reload_target env tid s")
  case (Inr r)
  show ?thesis
  proof (cases r)
    case (Some p)
    obtain t dm key where p: "p = (t, dm, key)" by (cases p)
    have "tg_id dm = tid" using reload_target_id Inr Some p by simp
    then show ?thesis
      using Inr Some p assms spawn_existing
      by (auto simp: enable_target_def enable_locked_def spawn_workers_for_target_def Let_def split: option.split)
  qed (simp add: enable_target_def enable_locked_def Inr)
qed (simp add: enable_target_def enable_locked_def)

text \<open>A PATCH that gives the flag together with a new URL, for a target that is
  enabled already, stores the URL and leaves the running workers with the old one; the cycle that
  a PATCH without the flag causes does not happen.\<close>

theorem patched_url_not_applied:
  assumes "api_update_target env tid body rq a = (Inr view, a')" "target_by_id (ap_db a) tid = Some t" "tr_enabled t"
    "tu_enabled body = Given True" "tu_url body = Given url"
  shows "(\<exists>t'. target_by_id (ap_db a') tid = Some t' \<and> tr_url t' = url) \<and>
    sv_workers (ap_sv a') = sv_workers (ap_sv a) \<and> tv_url view = url"
proof -
  obtain au d where au: "authenticate env rq a = Inr (au, d)"
    using assms(1) by (auto simp: api_update_target_def split: sum.splits)
  have t: "target_by_id d tid = Some t" using authenticate_rows(1) [OF au] assms(2) by simp
  obtain up d1 where u: "update_target tid (patch_value (tu_label body)) (Some url) (Some True)
      (patch_value (tu_settings body)) (ev_now env) d = (Some up, d1)"
    and r: "then_respond (audit_as env au ''target_updated'' (Some tid) (update_dump body) # map call_supervisor [])
      (\<lambda>a'. project_target up (credential_for_target (ap_db a') tid)) (set_db d1 a) = (Inr view, a')"
    using assms au t unfolding api_update_target_def update_calls_def
    by (auto simp del: then_respond.simps split: prod.splits if_splits option.splits)
  have up: "target_by_id d1 tid = Some up" "tr_url up = url"
    using u t one_or_none_SomeD [OF t [unfolded target_by_id_def]]
    by (auto simp: update_target_def Let_def target_by_id_def one_or_none_update_other or_keep_def)
  have "a' = snd (audit_as env au ''target_updated'' (Some tid) (update_dump body) (set_db d1 a))"
    "view = project_target up (credential_for_target (ap_db a') tid)"
    using r by (auto split: prod.splits option.splits)
  then show ?thesis using up by (simp add: audit_as_def project_target_def set_db_def)
qed

definition sample_patch :: target_update_request where
  "sample_patch = \<lparr>tu_label = Unset, tu_url = Given ''rtmp://live.twitch.tv/other'', tu_enabled = Given True, tu_settings = Null\<rparr>"

definition sample_patched :: "(http_error + target_view) \<times> app" where
  "sample_patched = api_update_target sample_env_api ''t1'' sample_patch sample_grant_request (sample_grant_app DELETE_TARGET)"

lemma sample_patched_ok: "is_ok (fst sample_patched)"
  by code_simp

theorem patched_url_not_applied_witness:
  "\<exists>t'. target_by_id (ap_db (snd sample_patched)) ''t1'' = Some t' \<and> tr_url t' = ''rtmp://live.twitch.tv/other''"
proof -
  obtain v a' where s: "sample_patched = (Inr v, a')"
    using sample_patched_ok by (metis prod.collapse sum.collapse(2))
  have t: "target_by_id (ap_db (sample_grant_app DELETE_TARGET)) ''t1'' = Some \<lparr>tr_id = ''t1'', tr_type = ''twitch'',
       tr_label = ''main'', tr_url = ''rtmp://live.twitch.tv/app'', tr_enabled = True, tr_settings = [],
       tr_created_at = 0, tr_updated_at = 0\<rparr>"
    by (simp add: sample_grant_app_def sample_app_def new_supervisor_def sample_session_db_def sample_db_def
        target_by_id_def one_or_none_def)
  show ?thesis
    using patched_url_not_applied [OF s [unfolded sample_patched_def] t] by (simp add: s sample_patch_def)
qed

text \<open>Storing a new key for a target whose workers run leaves these workers and the
  key they were started with in place, although the target is handed to the supervisor.\<close>

theorem new_key_not_applied:
  assumes "api_set_credential env new_id salt nonce tid key rq a = (r, a')"
    "\<forall>role. map_of (sv_workers (ap_sv a)) \<lparr>wid_target = tid, wid_role = role\<rparr> \<noteq> None"
  shows "sv_workers (ap_sv a') = sv_workers (ap_sv a) \<and> sv_secrets (ap_sv a') = sv_secrets (ap_sv a)"
proof -
  let ?P = "\<lambda>b. sv_workers (ap_sv b) = sv_workers (ap_sv a) \<and> sv_secrets (ap_sv b) = sv_secrets (ap_sv a)"
  have aud: "?P (snd (audit_as env au e t x b))" if "?P b" for au e t x b
    using that by (auto simp: audit_as_def audit_def set_db_def split: sum.split)
  have en: "?P (snd (call_supervisor (enable_target env tid) b))" if "?P b" for b
    using that enable_target_existing [of "ap_sv b" tid env] assms(2)
    by (cases "enable_target env tid (ap_sv b)") (simp add: call_supervisor_def)
  have no: "?P (snd (call_supervisor (\<lambda>s. (s, None)) b))" if "?P b" for b
    using that by (simp add: call_supervisor_def)
  have db: "?P (set_db d a)" for d by (simp add: set_db_def)
  have tail: "?P (snd (then_respond [audit_as env au e t x, call_supervisor h] f (set_db d a)))"
    if "h = enable_target env tid \<or> h = (\<lambda>s. (s, None))" for au e t x h d and f :: "app \<Rightarrow> credential_summary"
    by (rule then_respond_invariant [where P = ?P]) (use that aud en no db in auto)
  have "?P (snd (api_set_credential env new_id salt nonce tid key rq a))"
    using tail [OF disjI1 [OF refl]] tail [OF disjI2 [OF refl]] unfolding api_set_credential_def Let_def
    by (simp del: then_respond.simps split: sum.split prod.split option.split)
  then show ?thesis by (simp add: assms(1))
qed

definition sample_worker :: ffmpeg_worker where
  "sample_worker = projr (new_ffmpeg_worker \<lparr>sc_worker_id = \<lparr>wid_target = ''t1'', wid_role = PRIMARY\<rparr>,
     sc_target_type = TWITCH, sc_input_url = ''rtmp://127.0.0.1/ingest/k'', sc_output_url = ''rtmp://live.twitch.tv/app/old''\<rparr>
     None 0 0)"

definition sample_running_app :: app where
  "sample_running_app = (sample_grant_app DELETE_TARGET)\<lparr>ap_sv := (ap_sv (sample_grant_app DELETE_TARGET))
     \<lparr>sv_workers := [(\<lparr>wid_target = ''t1'', wid_role = PRIMARY\<rparr>, sample_worker),
        (\<lparr>wid_target = ''t1'', wid_role = BACKUP\<rparr>, sample_worker)], sv_run_state := LIVE\<rparr>\<rparr>"

theorem new_key_not_applied_witness:
  "\<exists>r a'. api_set_credential sample_env_api ''c1'' (replicate 16 CHR ''s'') (replicate 12 CHR ''n'') ''t1''
      ''live_key_7F2A'' sample_grant_request sample_running_app = (r, a') \<and>
    sv_workers (ap_sv a') = sv_workers (ap_sv sample_running_app)"
proof -
  have h: "\<forall>role. map_of (sv_workers (ap_sv sample_running_app)) \<lparr>wid_target = ''t1'', wid_role = role\<rparr> \<noteq> None"
  proof
    fix role :: worker_role
    show "map_of (sv_workers (ap_sv sample_running_app)) \<lparr>wid_target = ''t1'', wid_role = role\<rparr> \<noteq> None"
      by (cases role) (simp_all add: sample_running_app_def)
  qed
  obtain r a' where "api_set_credential sample_env_api ''c1'' (replicate 16 CHR ''s'') (replicate 12 CHR ''n'') ''t1''
      ''live_key_7F2A'' sample_grant_request sample_running_app = (r, a')"
    by (cases "api_set_credential sample_env_api ''c1'' (replicate 16 CHR ''s'') (replicate 12 CHR ''n'') ''t1''
      ''live_key_7F2A'' sample_grant_request sample_running_app")
  then show ?thesis using new_key_not_applied [OF _ h] by blast
qed

end
