(* ===== verification/Settings_Api.thy ===== *)
theory Settings_Api
  imports Targets_Api
begin

text \<open>
  The handlers of \<^verbatim>\<open>app/api/settings_api.py\<close>, \<^verbatim>\<open>app/api/api_tokens_api.py\<close> and
  \<^verbatim>\<open>app/api/sessions_history.py\<close>: settings and the ingest key, API tokens, the paginated history of
  runs. Random keys, token plaintexts and row ids are arguments. As in the target handlers a write is
  committed before its audit row.
\<close>

section \<open>Settings\<close>

definition INGEST_KEY_GRACE_DEFAULT :: timedelta where
  "INGEST_KEY_GRACE_DEFAULT = minutes 10"

definition key_last4 :: "pystr \<Rightarrow> pystr" where
  "key_last4 k = (if 4 \<le> length k then tail_slice 4 k else k)"

record settings_view =
  sw_first_run_complete :: bool
  sw_idle_timeout_seconds :: int
  sw_log_retention_days :: int
  sw_ingest_key_last4 :: pystr
  sw_ingest_key_has_previous :: bool
  sw_ingest_key_rotated_at :: "datetime option"
  sw_ingest_key_grace_until :: "datetime option"
  sw_updated_at :: datetime

definition project_settings :: "settings_row \<Rightarrow> settings_view" where
  "project_settings r =
     \<lparr>sw_first_run_complete = se_first_run_complete r, sw_idle_timeout_seconds = se_idle_timeout_seconds r,
      sw_log_retention_days = se_log_retention_days r, sw_ingest_key_last4 = key_last4 (se_ingest_key_current r),
      sw_ingest_key_has_previous = (se_ingest_key_previous r \<noteq> None),
      sw_ingest_key_rotated_at = se_ingest_key_rotated_at r,
      sw_ingest_key_grace_until = se_ingest_key_grace_until r, sw_updated_at = se_updated_at r\<rparr>"

record settings_update_request =
  su_idle_timeout_seconds :: "int patch"
  su_log_retention_days :: "int patch"

definition settings_update_valid :: "settings_update_request \<Rightarrow> bool" where
  "settings_update_valid b \<longleftrightarrow>
     (case patch_value (su_idle_timeout_seconds b) of None \<Rightarrow> True | Some n \<Rightarrow> 30 \<le> n \<and> n \<le> 86400) \<and>
     (case patch_value (su_log_retention_days b) of None \<Rightarrow> True | Some n \<Rightarrow> 1 \<le> n \<and> n \<le> 365)"

definition settings_dump :: "settings_update_request \<Rightarrow> (pystr \<times> json) list" where
  "settings_dump b = patch_json JInt ''idle_timeout_seconds'' (su_idle_timeout_seconds b) @
     patch_json JInt ''log_retention_days'' (su_log_retention_days b)"

definition settings_error :: "db_error \<Rightarrow> http_error" where
  "settings_error e = Unhandled (case e of DbValueError m \<Rightarrow> ''ValueError'' | _ \<Rightarrow> ''SettingsNotFoundError'')"

definition api_get_settings :: "sv_env \<Rightarrow> request \<Rightarrow> app \<Rightarrow> (http_error + settings_view) \<times> app" where
  "api_get_settings env rq a =
     with_session (\<lambda>d0. case authenticate env rq a of
         Inl e \<Rightarrow> Inl e
       | Inr (au, d) \<Rightarrow>
          (case settings_get d of Inl e \<Rightarrow> Inl (settings_error e) | Inr r \<Rightarrow> Inr (project_settings r, d))) a"

definition api_update_settings ::
    "sv_env \<Rightarrow> settings_update_request \<Rightarrow> request \<Rightarrow> app \<Rightarrow> (http_error + settings_view) \<times> app" where
  "api_update_settings env body rq a =
     (case authenticate env rq a of
        Inl e \<Rightarrow> (Inl e, a)
      | Inr (au, d) \<Rightarrow>
         (if \<not> settings_update_valid body then (Inl validation_error, a)
          else (case settings_update None (patch_value (su_idle_timeout_seconds body))
                       (patch_value (su_log_retention_days body)) (ev_now env) d of
                  Inl e \<Rightarrow> (Inl (settings_error e), a)
                | Inr (updated, d1) \<Rightarrow>
                    then_respond [audit_as env au ''settings_updated'' None (settings_dump body)]
                      (\<lambda>a'. project_settings updated) (set_db d1 a))))"

record ingest_key_rotated =
  ir_plaintext :: pystr
  ir_last4 :: pystr
  ir_grace_until :: datetime

definition api_rotate_ingest_key ::
    "sv_env \<Rightarrow> rat \<Rightarrow> pystr \<Rightarrow> request \<Rightarrow> app \<Rightarrow> (http_error + ingest_key_rotated) \<times> app" where
  "api_rotate_ingest_key env mtime new_key rq =
     granted_handler REGENERATE_INGEST_KEY env mtime rq (\<lambda>au d a.
       let grace_until = ev_now env + INGEST_KEY_GRACE_DEFAULT
       in case rotate_ingest_key new_key grace_until (ev_now env) d of
            Inl e \<Rightarrow> (Inl (settings_error e), a)
          | Inr (updated, d1) \<Rightarrow>
              then_respond
                [audit_as env au ''ingest_key_rotated'' None
                   [(''new_last4'', JString (tail_slice 4 new_key)),
                    (''grace_until'', JString (ev_isoformat env grace_until))]]
                (\<lambda>a'. \<lparr>ir_plaintext = new_key, ir_last4 = tail_slice 4 new_key, ir_grace_until = grace_until\<rparr>)
                (set_db d1 a))"

definition api_reveal_ingest_key ::
    "sv_env \<Rightarrow> rat \<Rightarrow> request \<Rightarrow> app \<Rightarrow> (http_error + pystr \<times> pystr) \<times> app" where
  "api_reveal_ingest_key env mtime rq =
     granted_handler REVEAL_INGEST_KEY env mtime rq (\<lambda>au d a.
       case settings_get d of
         Inl e \<Rightarrow> (Inl (settings_error e), a)
       | Inr r \<Rightarrow>
          (let plaintext = se_ingest_key_current r
           in then_respond
                [audit_as env au ''ingest_key_revealed'' None [(''last4'', JString (key_last4 plaintext))]]
                (\<lambda>a'. (plaintext, key_last4 plaintext)) (set_db d a)))"

text \<open>An audit row without a target cannot fail, and touches nothing but the log.\<close>

lemma then_respond_audit:
  "then_respond [audit_as env au event None data] r a =
    (let a1 = snd (audit_as env au event None data a) in (Inr (r a1), a1))"
proof -
  have "fst (audit_as env au event None data a) = None" by (simp add: audit_as_def)
  then show ?thesis by (cases "audit_as env au event None data a") (simp add: Let_def)
qed

lemma audit_settings:
  "db_settings (ap_db (snd (audit_as env au event tid data a))) = db_settings (ap_db a)"
  "db_history (ap_db (snd (audit_as env au event tid data a))) = db_history (ap_db a)"
  "db_api_tokens (ap_db (snd (audit_as env au event tid data a))) = db_api_tokens (ap_db a)"
  "ap_keys (snd (audit_as env au event tid data a)) = ap_keys a"
  by (auto simp: audit_as_def audit_def append_audit_def Let_def set_db_def split: sum.split if_splits)

section \<open>API tokens\<close>

record api_token_view =
  aw_id :: pystr
  aw_label :: pystr
  aw_created_at :: datetime
  aw_last_used_at :: "datetime option"
  aw_revoked_at :: "datetime option"

definition project_token :: "api_token_row \<Rightarrow> api_token_view" where
  "project_token t =
     \<lparr>aw_id = at_id t, aw_label = at_label t, aw_created_at = at_created_at t,
      aw_last_used_at = at_last_used_at t, aw_revoked_at = at_revoked_at t\<rparr>"

definition token_create_valid :: "pystr \<Rightarrow> bool" where
  "token_create_valid label \<longleftrightarrow> sized 1 128 label"

definition api_list_tokens :: "sv_env \<Rightarrow> request \<Rightarrow> app \<Rightarrow> (http_error + api_token_view list) \<times> app" where
  "api_list_tokens env rq a =
     with_session (\<lambda>d0. case authenticate env rq a of
         Inl e \<Rightarrow> Inl e
       | Inr (au, d) \<Rightarrow> Inr (map project_token (token_list_all d), d)) a"

definition api_create_token ::
    "sv_env \<Rightarrow> pystr \<Rightarrow> pystr \<Rightarrow> pystr \<Rightarrow> request \<Rightarrow> app \<Rightarrow> (http_error + pystr \<times> api_token_view) \<times> app" where
  "api_create_token env random new_id label rq a =
     (case authenticate env rq a of
        Inl e \<Rightarrow> (Inl e, a)
      | Inr (au, d) \<Rightarrow>
     (case require_unlocked_keys (ap_keys a) of
        Inl e \<Rightarrow> (Inl e, a)
      | Inr ks \<Rightarrow>
     (if \<not> token_create_valid label then (Inl validation_error, a)
      else (case token_create (ev_crypto env) ks random new_id (us_id (au_user au)) label (ev_now env) d of
              Inl (AuthDb e) \<Rightarrow> (Inl (Unhandled ''IntegrityError''), a)
            | Inl e \<Rightarrow> (Inl (Unhandled ''ValueError''), a)
            | Inr (created, d1) \<Rightarrow>
                then_respond
                  [audit_as env au ''api_token_created'' None
                     [(''token_id'', JString (at_id (ct_dto created))), (''label'', JString label)]]
                  (\<lambda>a'. (ct_plaintext created, project_token (ct_dto created))) (set_db d1 a)))))"

definition api_revoke_token ::
    "sv_env \<Rightarrow> rat \<Rightarrow> pystr \<Rightarrow> request \<Rightarrow> app \<Rightarrow> (http_error + unit) \<times> app" where
  "api_revoke_token env mtime token_id rq =
     granted_handler REVOKE_API_TOKEN env mtime rq (\<lambda>au d a.
       case token_revoke token_id (ev_now env) d of
         (False, d1) \<Rightarrow> (Inl (http_exception EC_API_TOKEN_NOT_FOUND 404), a)
       | (True, d1) \<Rightarrow>
           then_respond
             [audit_as env au ''api_token_revoked'' None [(''token_id'', JString token_id)]]
             (\<lambda>a'. ()) (set_db d1 a))"

section \<open>Run history\<close>

record run_history_item =
  hi_id :: pystr
  hi_started_at :: datetime
  hi_ended_at :: "datetime option"
  hi_end_reason :: "pystr option"
  hi_duration_seconds :: "rat option"

record run_history_page =
  hp_items :: "run_history_item list"
  hp_next_before :: "datetime option"

definition compute_duration_seconds :: "datetime \<Rightarrow> datetime option \<Rightarrow> rat option" where
  "compute_duration_seconds started_at ended_at =
     map_option (\<lambda>e. of_int (e - started_at) / 10 ^ 6) ended_at"

definition history_item :: "run_row \<Rightarrow> run_history_item" where
  "history_item r =
     \<lparr>hi_id = rh_id r, hi_started_at = rh_started_at r, hi_ended_at = rh_ended_at r, hi_end_reason = rh_end_reason r,
      hi_duration_seconds = compute_duration_seconds (rh_started_at r) (rh_ended_at r)\<rparr>"

definition history_page :: "int \<Rightarrow> datetime option \<Rightarrow> database \<Rightarrow> db_error + run_history_page" where
  "history_page limit before d =
     (case history_recent (limit + 1) before d of
        Inl e \<Rightarrow> Inl e
      | Inr rows \<Rightarrow>
         (let has_more = int (length rows) > limit;
              page = take (nat limit) rows
          in Inr \<lparr>hp_items = map history_item page,
                  hp_next_before = (if has_more \<and> page \<noteq> [] then Some (rh_started_at (last page)) else None)\<rparr>))"

definition api_list_run_history ::
    "sv_env \<Rightarrow> int \<Rightarrow> datetime option \<Rightarrow> request \<Rightarrow> app \<Rightarrow> (http_error + run_history_page) \<times> app" where
  "api_list_run_history env limit before rq a =
     with_session (\<lambda>d0. case authenticate env rq a of
         Inl e \<Rightarrow> Inl e
       | Inr (au, d) \<Rightarrow>
          (if limit < 1 \<or> 200 < limit then Inl validation_error
           else (case history_page limit before d of
                   Inl e \<Rightarrow> Inl (Unhandled ''ValueError'')
                 | Inr page \<Rightarrow> Inr (page, d)))) a"

text \<open>A client that asks for the first page and follows the cursor.\<close>

fun follow_pages :: "nat \<Rightarrow> int \<Rightarrow> datetime option \<Rightarrow> database \<Rightarrow> run_history_item list option" where
  "follow_pages 0 limit before d = None"
| "follow_pages (Suc n) limit before d =
     (case history_page limit before d of
        Inl e \<Rightarrow> None
      | Inr page \<Rightarrow>
         (case hp_next_before page of
            None \<Rightarrow> Some (hp_items page)
          | Some b \<Rightarrow> map_option (append (hp_items page)) (follow_pages n limit (Some b) d)))"

definition newest_first :: "database \<Rightarrow> run_row list" where
  "newest_first d = sort_key (\<lambda>r. - rh_started_at r) (db_history d)"

section \<open>The pages are the history\<close>

lemma sorted_wrt_newest_first:
  "distinct (map rh_started_at (db_history d)) \<Longrightarrow> sorted_wrt (\<lambda>r s. rh_started_at s < rh_started_at r) (newest_first d)"
proof -
  assume dist: "distinct (map rh_started_at (db_history d))"
  have "sorted_wrt (\<lambda>x y. x < y) (map (\<lambda>r. - rh_started_at r) (newest_first d))"
    unfolding strict_sorted_iff newest_first_def
    using dist by (auto simp: distinct_map inj_on_def)
  then show ?thesis by (simp add: sorted_wrt_map)
qed

lemma history_recent_newest:
  "0 < limit \<Longrightarrow> history_recent limit before d = Inr (take (nat limit) (filter (\<lambda>r. case before of None \<Rightarrow> True
     | Some b \<Rightarrow> rh_started_at r < stored_time b) (newest_first d)))"
  by (simp add: history_recent_def newest_first_def filter_sort)

lemma filter_after_prefix:
  assumes "sorted_wrt (\<lambda>r s. rh_started_at s < rh_started_at r) (xs @ [x] @ ys)"
  shows "filter (\<lambda>r. rh_started_at r < rh_started_at x) (xs @ [x] @ ys) = ys"
  using assms by (auto simp: sorted_wrt_append intro!: filter_False filter_True)

lemma history_page_split:
  assumes sorted: "sorted_wrt (\<lambda>r s. rh_started_at s < rh_started_at r) (newest_first d)"
    and stored: "\<forall>r\<in>set (newest_first d). stored_time (rh_started_at r) = rh_started_at r"
    and limit: "0 < limit"
    and rest: "newest_first d = pre @ suf"
      "filter (\<lambda>r. case before of None \<Rightarrow> True | Some b \<Rightarrow> rh_started_at r < stored_time b) (newest_first d) = suf"
  obtains (last_page) "length suf \<le> nat limit"
      "history_page limit before d = Inr \<lparr>hp_items = map history_item suf, hp_next_before = None\<rparr>"
  | (more) mid r ys where "suf = mid @ [r] @ ys" "length mid + 1 = nat limit" "ys \<noteq> []"
      "history_page limit before d = Inr \<lparr>hp_items = map history_item (mid @ [r]), hp_next_before = Some (rh_started_at r)\<rparr>"
      "filter (\<lambda>s. rh_started_at s < stored_time (rh_started_at r)) (newest_first d) = ys"
proof (cases "length suf \<le> nat limit")
  case True
  then show thesis
    using last_page limit rest(2) by (simp add: history_page_def history_recent_newest Let_def min_def)
next
  case False
  let ?mid = "take (nat limit - 1) suf"
  let ?r = "suf ! (nat limit - 1)"
  let ?ys = "drop (nat limit) suf"
  have len: "nat limit - 1 < length suf" using False limit by linarith
  have split: "suf = ?mid @ [?r] @ ?ys"
    using id_take_nth_drop [OF len] limit by (simp add: Suc_diff_1)
  have page: "take (nat limit) suf = ?mid @ [?r]"
    using take_Suc_conv_app_nth [OF len] limit by (simp add: Suc_diff_1)
  have "filter (\<lambda>s. rh_started_at s < rh_started_at ?r) ((pre @ ?mid) @ [?r] @ ?ys) = ?ys"
    by (rule filter_after_prefix) (use sorted rest(1) split in \<open>metis append.assoc\<close>)
  moreover have "stored_time (rh_started_at ?r) = rh_started_at ?r"
    using stored rest(1) len by (auto simp: nth_mem)
  ultimately have after: "filter (\<lambda>s. rh_started_at s < stored_time (rh_started_at ?r)) (newest_first d) = ?ys"
    using rest(1) split by (metis append.assoc)
  have "history_page limit before d = Inr \<lparr>hp_items = map history_item (?mid @ [?r]), hp_next_before = Some (rh_started_at ?r)\<rparr>"
    using limit False rest(2) page
    by (simp add: history_page_def history_recent_newest Let_def min_def) auto
  then show thesis
    using more [OF split _ _ _ after] len limit False by simp
qed

lemma follow_pages_rest:
  assumes "sorted_wrt (\<lambda>r s. rh_started_at s < rh_started_at r) (newest_first d)"
    "\<forall>r\<in>set (newest_first d). stored_time (rh_started_at r) = rh_started_at r" "0 < limit"
    "newest_first d = pre @ suf"
    "filter (\<lambda>r. case before of None \<Rightarrow> True | Some b \<Rightarrow> rh_started_at r < stored_time b) (newest_first d) = suf"
    "length suf < n"
  shows "follow_pages n limit before d = Some (map history_item suf)"
  using assms(4-)
proof (induction n arbitrary: pre suf before)
  case (Suc n)
  from assms(1-3) Suc.prems(1,2) show ?case
  proof (rule history_page_split)
    fix mid r ys
    assume p: "suf = mid @ [r] @ ys" "history_page limit before d =
        Inr \<lparr>hp_items = map history_item (mid @ [r]), hp_next_before = Some (rh_started_at r)\<rparr>"
      "filter (\<lambda>s. rh_started_at s < stored_time (rh_started_at r)) (newest_first d) = ys"
    have "follow_pages n limit (Some (rh_started_at r)) d = Some (map history_item ys)"
      by (rule Suc.IH [of "pre @ mid @ [r]"]) (use p Suc.prems in auto)
    then show ?case using p by simp
  qed simp
qed simp

text \<open>C36: Following the cursor from the first page ends, and the pages together are
  the whole history, newest first, each run once, when no two runs started in the same second.\<close>

theorem history_pages_complete:
  assumes "distinct (map rh_started_at (db_history d))"
    "\<forall>r\<in>set (db_history d). stored_time (rh_started_at r) = rh_started_at r" "1 \<le> limit"
  shows "follow_pages (length (db_history d) + 1) limit None d = Some (map history_item (newest_first d))"
  by (rule follow_pages_rest [where pre = "[]"])
    (use assms sorted_wrt_newest_first in \<open>auto simp: newest_first_def\<close>)

definition sample_history :: "int list \<Rightarrow> database" where
  "sample_history ts = sample_db\<lparr>db_history := map (\<lambda>t. \<lparr>rh_id = show_int t, rh_started_at = seconds t,
     rh_ended_at = None, rh_end_reason = None, rh_notes = []\<rparr>) ts\<rparr>"

lemma sample_history_ok:
  "distinct (map rh_started_at (db_history (sample_history [5, 9, 7])))"
  "\<forall>r\<in>set (db_history (sample_history [5, 9, 7])). stored_time (rh_started_at r) = rh_started_at r"
  "length (db_history (sample_history [5, 9, 7])) = 3"
  by code_simp+

theorem history_pages_complete_witness:
  "follow_pages 4 2 None (sample_history [5, 9, 7]) = Some (map history_item (newest_first (sample_history [5, 9, 7])))"
  using history_pages_complete [OF sample_history_ok(1,2), of 2] by (simp add: sample_history_ok(3) del: follow_pages.simps)

text \<open>Runs that started in the same second: the cursor skips what the page cut off.\<close>

lemma same_second_run_lost:
  "follow_pages 4 1 None ((sample_history [5, 5])) = Some (map history_item (take 1 (newest_first (sample_history [5, 5]))))"
  by code_simp

end
