(* ===== verification/Control_Api.thy ===== *)
theory Control_Api
  imports Settings_Api
begin

text \<open>
  What starts, stops, gates and probes the service: \<^verbatim>\<open>app/api/run.py\<close> with its fire-and-forget tasks,
  the nginx webhooks of \<^verbatim>\<open>app/api/internal_rtmp.py\<close>, the locked-mode gate of
  \<^verbatim>\<open>app/api/middleware.py\<close>, the probes of \<^verbatim>\<open>app/api/health.py\<close> and the object look-ups of
  \<^verbatim>\<open>app/api/deps.py\<close>. A start or stop is two steps, the request that schedules it and the task that
  runs it later; the scheduled tasks are a list beside the process. The outcome of the database and
  nginx probes, and whether the address library sees a loopback address inside an IPv4-mapped one
  (it depends on its version), are arguments.
\<close>

section \<open>Objects of the application\<close>

text \<open>\<^verbatim>\<open>get_supervisor\<close>, \<^verbatim>\<open>get_event_bus\<close>, \<^verbatim>\<open>get_settings\<close>.\<close>

definition get_app_object :: "'a option \<Rightarrow> http_error + 'a" where
  "get_app_object x =
     (case x of None \<Rightarrow> Inl (http_exception EC_AUTH_STATE_NOT_INITIALISED 500) | Some y \<Rightarrow> Inr y)"

section \<open>Run control\<close>

record worker_snapshot_view =
  wv_role :: worker_role
  wv_state :: worker_state
  wv_last_event_at :: datetime
  wv_last_error :: "pystr option"
  wv_breaker_failures_in_window :: int
  wv_last_progress :: "progress_snapshot option"

record target_snapshot_view =
  sn_target_id :: pystr
  sn_ui_state :: target_ui_state
  sn_snapshots_by_role :: "worker_snapshot_view list"

record run_state_view =
  rv_run_state :: run_state
  rv_targets :: "target_snapshot_view list"
  rv_heartbeat_age_seconds :: rat
  rv_dropped_total :: int
  rv_run_state_changed_at :: "datetime option"

text \<open>The projection of this module leaves the progress out.\<close>

definition run_snapshot_view :: "worker_snapshot \<Rightarrow> worker_snapshot_view" where
  "run_snapshot_view s =
     \<lparr>wv_role = ws_role s, wv_state = ws_state s, wv_last_event_at = ws_last_event_at s,
      wv_last_error = ws_last_error s, wv_breaker_failures_in_window = ws_breaker_failures_in_window s,
      wv_last_progress = None\<rparr>"

definition run_project_target :: "target \<Rightarrow> target_snapshot_view" where
  "run_project_target t =
     \<lparr>sn_target_id = tg_id t, sn_ui_state = compute_ui_state t,
      sn_snapshots_by_role = map run_snapshot_view (role_snapshots t)\<rparr>"

definition total_seconds :: "timedelta \<Rightarrow> rat" where
  "total_seconds td = of_int td / 10 ^ 6"

definition api_get_state ::
    "sv_env \<Rightarrow> bus_event event_bus \<Rightarrow> request \<Rightarrow> app \<Rightarrow> (http_error + run_state_view) \<times> app" where
  "api_get_state env b rq a =
     with_session (\<lambda>d0. case authenticate env rq a of
         Inl e \<Rightarrow> Inl e
       | Inr (au, d) \<Rightarrow>
           Inr (\<lparr>rv_run_state = sv_run_state (ap_sv a),
                 rv_targets = map (\<lambda>(i, t). run_project_target t) (sv_targets (ap_sv a)),
                 rv_heartbeat_age_seconds = total_seconds (heartbeat_age (ev_mns env) (ap_sv a)),
                 rv_dropped_total = dropped_total b, rv_run_state_changed_at = sv_changed_at (ap_sv a)\<rparr>, d)) a"

datatype sv_task = RunStart | RunStop

definition api_start_run ::
    "sv_env \<Rightarrow> request \<Rightarrow> app \<times> sv_task list \<Rightarrow> (http_error + run_state) \<times> app \<times> sv_task list" where
  "api_start_run env rq st =
     (case st of (a, q) \<Rightarrow>
      (case authenticate env rq a of
         Inl e \<Rightarrow> (Inl e, a, q)
       | Inr (au, d) \<Rightarrow>
          (let previous = sv_run_state (ap_sv a)
           in if \<not> run_is_legal previous START_REQUESTED
              then (Inl (http_exception EC_ILLEGAL_RUN_STATE 409), a, q)
              else if ap_rotation_locked a then (Inl (http_exception EC_RUN_ACTIVE 409), a, q)
              else (Inr previous, set_db d a, q @ [RunStart]))))"

definition api_stop_run ::
    "sv_env \<Rightarrow> request \<Rightarrow> app \<times> sv_task list \<Rightarrow> (http_error + run_state) \<times> app \<times> sv_task list" where
  "api_stop_run env rq st =
     (case st of (a, q) \<Rightarrow>
      (case authenticate env rq a of
         Inl e \<Rightarrow> (Inl e, a, q)
       | Inr (au, d) \<Rightarrow>
          (let previous = sv_run_state (ap_sv a)
           in if \<not> run_is_legal previous STOP_REQUESTED
              then (Inl (http_exception EC_ILLEGAL_RUN_STATE 409), a, q)
              else (Inr previous, set_db d a, q @ [RunStop]))))"

text \<open>The oldest scheduled task runs; nobody looks at the exception it ends with.\<close>

fun run_task :: "sv_env \<Rightarrow> app \<times> sv_task list \<Rightarrow> app \<times> sv_task list" where
  "run_task env (a, []) = (a, [])"
| "run_task env (a, RunStart # q) = (a\<lparr>ap_sv := fst (start_run env (ap_sv a))\<rparr>, q)"
| "run_task env (a, RunStop # q) = (a\<lparr>ap_sv := fst (stop_run env ''user_stop'' (ap_sv a))\<rparr>, q)"

section \<open>The nginx webhooks\<close>

definition is_loopback :: "bool \<Rightarrow> ip_address \<Rightarrow> bool" where
  "is_loopback mapped addr =
     (case addr of
        IPv4 n \<Rightarrow> n div 2 ^ 24 = 127
      | IPv6 n \<Rightarrow> n = 1 \<or> mapped \<and> n div 2 ^ 32 = 65535 \<and> n mod 2 ^ 32 div 2 ^ 24 = 127)"

definition forbidden :: http_error where
  "forbidden = HttpError 403 ''Forbidden'' []"

definition assert_loopback :: "bool \<Rightarrow> request \<Rightarrow> http_error option" where
  "assert_loopback mapped rq =
     (case rq_peer rq of
        None \<Rightarrow> Some forbidden
      | Some peer \<Rightarrow>
         (case ip_address_of peer of
            None \<Rightarrow> Some forbidden
          | Some addr \<Rightarrow> (if is_loopback mapped addr then None else Some forbidden)))"

text \<open>\<^verbatim>\<open>hmac.compare_digest\<close> on two strings raises unless both are ASCII.\<close>

definition compare_digest :: "pystr \<Rightarrow> pystr \<Rightarrow> http_error + bool" where
  "compare_digest s t =
     (if (\<forall>c\<in>set s. char_code c < 128) \<and> (\<forall>c\<in>set t. char_code c < 128) then Inr (s = t)
      else Inl (Unhandled ''TypeError''))"

definition keys_match :: "pystr \<Rightarrow> pystr \<Rightarrow> pystr option \<Rightarrow> http_error + bool" where
  "keys_match submitted current previous =
     (case compare_digest submitted current of
        Inl e \<Rightarrow> Inl e
      | Inr current_ok \<Rightarrow>
         (case previous of
            None \<Rightarrow> Inr current_ok
          | Some p \<Rightarrow> (case compare_digest submitted p of
                Inl e \<Rightarrow> Inl e | Inr prev_ok \<Rightarrow> Inr (current_ok \<or> prev_ok))))"

definition api_on_publish ::
    "sv_env \<Rightarrow> bool \<Rightarrow> pystr option \<Rightarrow> request \<Rightarrow> app \<Rightarrow> (http_error + unit) \<times> app" where
  "api_on_publish env mapped form_name rq a =
     (case form_name of
        None \<Rightarrow> (Inl validation_error, a)
      | Some name \<Rightarrow>
     (case assert_loopback mapped rq of
        Some e \<Rightarrow> (Inl e, a)
      | None \<Rightarrow>
     (if km_state (ap_keys a) \<noteq> READY then (Inl (http_exception EC_SERVICE_LOCKED 503), a)
      else (case settings_get (ap_db a) of
              Inl e \<Rightarrow> (Inl (settings_error e), a)
            | Inr current \<Rightarrow>
               (case keys_match name (se_ingest_key_current current) (se_ingest_key_previous current) of
                  Inl e \<Rightarrow> (Inl e, a)
                | Inr False \<Rightarrow> (Inl (http_exception EC_INGEST_KEY_INVALID 403), a)
                | Inr True \<Rightarrow> (Inr (), a\<lparr>ap_sv := notify_obs_publish_began env (ap_sv a)\<rparr>))))))"

definition api_on_publish_done ::
    "sv_env \<Rightarrow> bool \<Rightarrow> request \<Rightarrow> app \<Rightarrow> (http_error + unit) \<times> app" where
  "api_on_publish_done env mapped rq a =
     (case assert_loopback mapped rq of
        Some e \<Rightarrow> (Inl e, a)
      | None \<Rightarrow> (Inr (), a\<lparr>ap_sv := notify_obs_publish_ended env (ap_sv a)\<rparr>))"

section \<open>The locked-mode gate\<close>

definition DEFAULT_ALLOWLIST :: "pystr list" where
  "DEFAULT_ALLOWLIST = [''/api/unlock'', ''/livez'', ''/readyz'', ''/healthz'', ''/internal/rtmp/'']"

definition STATIC_PATH_PREFIXES :: "pystr list" where
  "STATIC_PATH_PREFIXES = [''/assets/'', ''/static/'']"

definition is_static_root :: "pystr \<Rightarrow> bool" where
  "is_static_root path \<longleftrightarrow> path \<in> {''/'', ''/index.html''}"

definition allowed_by :: "pystr \<Rightarrow> pystr \<Rightarrow> bool" where
  "allowed_by path p \<longleftrightarrow> path = rstrip_char CHR ''/'' p
     \<or> suffix ''/'' p \<and> prefix p path
     \<or> \<not> suffix ''/'' p \<and> prefix (p @ ''/'') path"

definition is_allowlisted :: "pystr \<Rightarrow> pystr list \<Rightarrow> bool" where
  "is_allowlisted path allowlist \<longleftrightarrow> (\<exists>p\<in>set allowlist. allowed_by path p)"

text \<open>\<open>None\<close> passes the request on.\<close>

definition locked_mode_dispatch :: "key_material \<Rightarrow> pystr \<Rightarrow> http_error option" where
  "locked_mode_dispatch km path =
     (if is_static_root path \<or> is_allowlisted path DEFAULT_ALLOWLIST then None
      else if \<exists>p\<in>set STATIC_PATH_PREFIXES. prefix p path then None
      else (case km_state km of
              READY \<Rightarrow> None
            | UNLOCKING \<Rightarrow>
                Some (HttpError 503 ''service_unlocking'' [(''Retry-After'', show_int RETRY_AFTER_LOCKED_SECONDS)])
            | LOCKED \<Rightarrow> Some (HttpError 503 ''service_locked'' [])))"

section \<open>Health\<close>

record check_result =
  ch_ok :: bool
  ch_detail :: "(pystr \<times> json) list"

record health_response =
  he_code :: int
  he_status :: pystr
  he_checks :: "(pystr \<times> check_result) list"

definition api_livez :: health_response where
  "api_livez = \<lparr>he_code = 200, he_status = ''alive'', he_checks = []\<rparr>"

text \<open>A probe is the name of the error it ended with, if any; the age goes to the body as text, JSON
  numbers being whole in the model.\<close>

definition probe_result :: "pystr option \<Rightarrow> check_result" where
  "probe_result failure =
     (case failure of
        None \<Rightarrow> \<lparr>ch_ok = True, ch_detail = []\<rparr>
      | Some e \<Rightarrow> \<lparr>ch_ok = False, ch_detail = [(''error'', JString e)]\<rparr>)"

fun km_state_value :: "key_material_state \<Rightarrow> pystr" where
  "km_state_value LOCKED = ''locked''"
| "km_state_value UNLOCKING = ''unlocking''"
| "km_state_value READY = ''ready''"

definition health_checks ::
    "(rat \<Rightarrow> json) \<Rightarrow> int \<Rightarrow> pystr option \<Rightarrow> pystr option \<Rightarrow> bool \<Rightarrow> bus_event event_bus \<Rightarrow> app \<Rightarrow>
     (pystr \<times> check_result) list" where
  "health_checks show mns db_failure nginx_failure check_nginx b a =
     [(''db'', probe_result db_failure),
      (''supervisor'', \<lparr>ch_ok = \<not> heartbeat_is_stale mns (ap_sv a),
         ch_detail = [(''last_tick_seconds_ago'', show (total_seconds (heartbeat_age mns (ap_sv a))))]\<rparr>),
      (''event_bus'', \<lparr>ch_ok = True, ch_detail = [(''dropped_total'', JInt (dropped_total b))]\<rparr>),
      (''passphrase'', \<lparr>ch_ok = (km_state_value (km_state (ap_keys a)) = ''ready''),
         ch_detail = [(''state'', JString (km_state_value (km_state (ap_keys a))))]\<rparr>)] @
     (if check_nginx then [(''nginx_rtmp'', probe_result nginx_failure)] else [])"

definition api_readyz ::
    "(rat \<Rightarrow> json) \<Rightarrow> int \<Rightarrow> pystr option \<Rightarrow> pystr option \<Rightarrow> bool \<Rightarrow> bus_event event_bus \<Rightarrow> app \<Rightarrow>
     health_response" where
  "api_readyz show mns db_failure nginx_failure check_nginx b a =
     (let checks = health_checks show mns db_failure nginx_failure check_nginx b a;
          all_ok = list_all (\<lambda>k. case map_of checks k of None \<Rightarrow> True | Some c \<Rightarrow> ch_ok c)
            [''db'', ''supervisor'', ''passphrase'', ''nginx_rtmp'']
      in if all_ok then \<lparr>he_code = 200, he_status = ''ready'', he_checks = checks\<rparr>
         else \<lparr>he_code = 503, he_status = ''not_ready'', he_checks = checks\<rparr>)"

text \<open>\<^verbatim>\<open>/healthz\<close> is the same handler.\<close>

definition api_healthz ::
    "(rat \<Rightarrow> json) \<Rightarrow> int \<Rightarrow> pystr option \<Rightarrow> pystr option \<Rightarrow> bool \<Rightarrow> bus_event event_bus \<Rightarrow> app \<Rightarrow>
     health_response" where
  "api_healthz = api_readyz"

section \<open>Two accepted starts\<close>

lemma start_run_leaves_offline:
  assumes "sv_run_state s = OFFLINE"
  shows "sv_run_state (fst (start_run env s)) \<noteq> OFFLINE"
proof -
  define s1 where "s1 = fst (set_run_state env START_REQUESTED ''user pressed START'' s)"
  have s1: "sv_run_state s1 = STARTING" "set_run_state env START_REQUESTED ''user pressed START'' s = (s1, None)"
    using assms by (simp_all add: s1_def set_run_state_def)
  obtain s2 r where b: "start_body env s1 = (s2, r)" by (cases "start_body env s1")
  have s2: "sv_run_state s2 \<in> {STARTING, ARMED, LIVE}"
    using start_body_keeps [OF s1(1), of env] b by simp
  show ?thesis
  proof (cases r)
    case None
    then show ?thesis using assms s1 s2 b by (auto simp: start_run_def)
  next
    case (Some e)
    then show ?thesis using assms s1(2) b start_rollback_state(1) [OF s2, of env] by (simp add: start_run_def)
  qed
qed

lemma start_run_refused: "sv_run_state s \<noteq> OFFLINE \<Longrightarrow> fst (start_run env s) = s"
  by (simp add: start_run_def)

lemma api_start_run_Inr:
  "api_start_run env rq (a, q) = (Inr p, a', q') \<Longrightarrow>
    p = OFFLINE \<and> sv_run_state (ap_sv a) = OFFLINE \<and> sv_run_state (ap_sv a') = OFFLINE \<and>
    \<not> ap_rotation_locked a \<and> q' = q @ [RunStart]"
  by (auto simp: api_start_run_def Let_def run_is_legal_iff split: sum.splits if_splits)
    (cases "sv_run_state (ap_sv a)"; simp add: run_transition_def run_TRANSITIONS_def)+

text \<open>Two start requests accepted before either task ran both answer OFFLINE;
  when the two tasks run, with whatever outcome, the second changes nothing.\<close>

theorem second_start_harmless:
  assumes "api_start_run env1 rq1 (a, []) = (Inr p1, a1, q1)" "api_start_run env2 rq2 (a1, q1) = (Inr p2, a2, q2)"
  shows "p1 = OFFLINE \<and> p2 = OFFLINE \<and>
    run_task e2 (run_task e1 (a2, q2)) = (fst (run_task e1 (a2, q2)), []) \<and>
    sv_run_state (ap_sv (fst (run_task e1 (a2, q2)))) \<noteq> OFFLINE"
proof -
  note acc = api_start_run_Inr [OF assms(1)] api_start_run_Inr [OF assms(2)]
  have "sv_run_state (fst (start_run e1 (ap_sv a2))) \<noteq> OFFLINE"
    by (rule start_run_leaves_offline) (use acc in blast)
  then show ?thesis using acc start_run_refused by simp
qed

definition sample_control :: "app \<times> sv_task list" where
  "sample_control = (sample_grant_app REGENERATE_INGEST_KEY, [])"

definition sample_accept :: "app \<times> sv_task list \<Rightarrow> app \<times> sv_task list" where
  "sample_accept st = snd (api_start_run sample_env_api sample_grant_request st)"

lemma sample_accepts:
  "fst (api_start_run sample_env_api sample_grant_request sample_control) = Inr OFFLINE"
  "fst (api_start_run sample_env_api sample_grant_request (sample_accept sample_control)) = Inr OFFLINE"
  by code_simp+

theorem second_start_harmless_witness:
  "run_task sample_env_api (run_task sample_env_api (sample_accept (sample_accept sample_control))) =
    (fst (run_task sample_env_api (sample_accept (sample_accept sample_control))), [])"
proof -
  let ?s1 = "sample_accept sample_control" and ?s2 = "sample_accept (sample_accept sample_control)"
  have s1: "api_start_run sample_env_api sample_grant_request (fst sample_control, []) = (Inr OFFLINE, fst ?s1, snd ?s1)"
    using sample_accepts(1) by (simp add: sample_accept_def sample_control_def prod_eq_iff)
  have s2: "api_start_run sample_env_api sample_grant_request (fst ?s1, snd ?s1) = (Inr OFFLINE, fst ?s2, snd ?s2)"
    using sample_accepts(2) by (simp add: sample_accept_def prod_eq_iff)
  from second_start_harmless [OF s1 s2] show ?thesis by simp
qed

text \<open>A start accepted before a rotation takes its lock runs under the lock: the task does not look at
  it.\<close>

lemma start_task_ignores_rotation_lock:
  "run_task env (a\<lparr>ap_rotation_locked := True\<rparr>, RunStart # q) =
    ((fst (run_task env (a, RunStart # q)))\<lparr>ap_rotation_locked := True\<rparr>, q)"
  by simp

section \<open>Who may publish\<close>

definition ascii_string :: "pystr \<Rightarrow> bool" where
  "ascii_string s \<longleftrightarrow> (\<forall>c\<in>set s. char_code c < 128)"

lemma compare_digest_ascii:
  "compare_digest s t = (if ascii_string s \<and> ascii_string t then Inr (s = t) else Inl (Unhandled ''TypeError''))"
  by (simp add: compare_digest_def ascii_string_def)

definition publish_allowed :: "bool \<Rightarrow> pystr \<Rightarrow> request \<Rightarrow> app \<Rightarrow> bool" where
  "publish_allowed mapped name rq a \<longleftrightarrow>
     (\<exists>peer addr. rq_peer rq = Some peer \<and> ip_address_of peer = Some addr \<and> is_loopback mapped addr) \<and>
     km_state (ap_keys a) = READY \<and>
     (\<exists>r. db_settings (ap_db a) = Some r \<and> ascii_string name \<and> ascii_string (se_ingest_key_current r) \<and>
        (case se_ingest_key_previous r of None \<Rightarrow> name = se_ingest_key_current r
         | Some p \<Rightarrow> ascii_string p \<and> (name = se_ingest_key_current r \<or> name = p)))"

lemma assert_loopback_None:
  "assert_loopback mapped rq = None \<longleftrightarrow>
    (\<exists>peer addr. rq_peer rq = Some peer \<and> ip_address_of peer = Some addr \<and> is_loopback mapped addr)"
  by (simp add: assert_loopback_def split: option.split)

lemma keys_match_True:
  "keys_match name cur prev = Inr True \<longleftrightarrow> ascii_string name \<and> ascii_string cur \<and>
    (case prev of None \<Rightarrow> name = cur | Some p \<Rightarrow> ascii_string p \<and> (name = cur \<or> name = p))"
  by (auto simp: keys_match_def compare_digest_ascii split: option.split)

text \<open>C37: A publish is allowed exactly for a loopback peer, unlocked keys, an existing settings row and a name that is
  the current or the previous ingest key, all of them ASCII (the comparison raises otherwise). The application
  it publishes to is not looked at. When it is allowed an armed run becomes live; in every other case the state of the process
  does not change.\<close>

theorem publish_allowed_exactly:
  "api_on_publish env mapped (Some name) rq a =
    (if publish_allowed mapped name rq a
     then (Inr (), a\<lparr>ap_sv := if sv_run_state (ap_sv a) = ARMED
                then publish_run_state env ARMED ''OBS started publishing'' ((ap_sv a)\<lparr>sv_run_state := LIVE\<rparr>)
                else ap_sv a\<rparr>)
     else (fst (api_on_publish env mapped (Some name) rq a), a)) \<and>
    (is_ok (fst (api_on_publish env mapped (Some name) rq a)) \<longleftrightarrow> publish_allowed mapped name rq a)"
proof -
  have "publish_allowed mapped name rq a \<longleftrightarrow> assert_loopback mapped rq = None \<and> km_state (ap_keys a) = READY \<and>
      (\<exists>r. db_settings (ap_db a) = Some r \<and> keys_match name (se_ingest_key_current r) (se_ingest_key_previous r) = Inr True)"
    by (simp add: publish_allowed_def assert_loopback_None keys_match_True)
  then show ?thesis
    by (auto simp: api_on_publish_def settings_get_def notify_obs_publish_began_def
        split: option.split sum.split bool.split)
qed

lemma authenticate_ready:
  assumes "authenticate env rq a = Inr (au, d)"
  shows "db_settings d = db_settings (ap_db a)" "km_state (ap_keys a) = READY"
proof -
  show "db_settings d = db_settings (ap_db a)"
    using require_authenticated_frame(4) assms by (simp add: authenticate_def)
  show "km_state (ap_keys a) = READY"
    using assms
    by (auto simp: authenticate_def require_authenticated_def require_unlocked_keys_def require_ready_def
        split: sum.splits if_splits option.splits)
qed

lemma on_publish_key:
  assumes "assert_loopback mapped rq = None" "km_state (ap_keys a) = READY" "db_settings (ap_db a) = Some r"
    "keys_match name (se_ingest_key_current r) (se_ingest_key_previous r) = Inr True"
  shows "fst (api_on_publish env mapped (Some name) rq a) = Inr ()"
  using assms by (simp add: api_on_publish_def settings_get_def)

text \<open>C38: After a rotation of the ingest key the old key is accepted whenever it
  is used, the end of the announced grace period included.\<close>

theorem old_ingest_key_never_expires:
  assumes "api_rotate_ingest_key env mtime new_key rq a = (Inr v, a')" "db_settings (ap_db a) = Some r"
    "ascii_string new_key" "ascii_string (se_ingest_key_current r)" "assert_loopback mapped rq2 = None"
  shows "ir_grace_until v = ev_now env + minutes 10 \<and>
    fst (api_on_publish env2 mapped (Some (se_ingest_key_current r)) rq2 a') = Inr () \<and>
    fst (api_on_publish env2 mapped (Some new_key) rq2 a') = Inr ()"
  using assms(1) unfolding api_rotate_ingest_key_def
proof (rule granted_handler_Inr)
  fix au d a1
  let ?grace = "ev_now env + INGEST_KEY_GRACE_DEFAULT"
  assume h: "authenticate env rq a = Inr (au, d)"
    "require_reprompt_grant REGENERATE_INGEST_KEY mtime rq (us_id (au_user au)) a = (None, a1)"
    "(let grace_until = ev_now env + INGEST_KEY_GRACE_DEFAULT
       in case rotate_ingest_key new_key grace_until (ev_now env) d of
            Inl e \<Rightarrow> (Inl (settings_error e), a1)
          | Inr (updated, d1) \<Rightarrow>
              then_respond
                [audit_as env au ''ingest_key_rotated'' None
                   [(''new_last4'', JString (tail_slice 4 new_key)),
                    (''grace_until'', JString (ev_isoformat env grace_until))]]
                (\<lambda>a'. \<lparr>ir_plaintext = new_key, ir_last4 = tail_slice 4 new_key, ir_grace_until = grace_until\<rparr>)
                (set_db d1 a1)) = (Inr v, a')"
  have keys: "km_state (ap_keys a1) = READY"
    using authenticate_ready(2) [OF h(1)] require_reprompt_grant_frame [OF h(2)] by simp
  obtain r1 d1 where r1: "rotate_ingest_key new_key ?grace (ev_now env) d = Inr (r1, d1)" "db_settings d1 = Some r1"
    "se_ingest_key_current r1 = new_key" "se_ingest_key_previous r1 = Some (se_ingest_key_current r)"
    using authenticate_ready(1) [OF h(1)] assms(2) by (simp add: rotate_ingest_key_def Let_def)
  have "ir_grace_until v = ?grace" "db_settings (ap_db a') = Some r1" "km_state (ap_keys a') = READY"
    using h(3) r1(1,2) keys by (auto simp: Let_def then_respond_audit audit_settings simp del: then_respond.simps)
  then show ?thesis
    using r1(3,4) assms(3-5) on_publish_key [of mapped rq2 a' r1]
    by (simp add: keys_match_def compare_digest_ascii INGEST_KEY_GRACE_DEFAULT_def)
qed

definition sample_key_rotated :: "(http_error + ingest_key_rotated) \<times> app" where
  "sample_key_rotated = api_rotate_ingest_key sample_env_api 10 ''new_key'' sample_grant_request
     (sample_grant_app REGENERATE_INGEST_KEY)"

lemma sample_key_rotated_ok:
  "is_ok (fst sample_key_rotated)" "map_option se_ingest_key_current (db_settings (ap_db (sample_grant_app REGENERATE_INGEST_KEY))) = Some ''k''"
  "ascii_string ''new_key'' \<and> ascii_string ''k''"
  by code_simp+

lemma sample_loopback: "assert_loopback False (sample_grant_request\<lparr>rq_peer := Some ''::1''\<rparr>) = None"
  by (simp add: assert_loopback_def sample_addresses is_loopback_def)

theorem old_ingest_key_never_expires_witness:
  "fst (api_on_publish (sample_env_api\<lparr>ev_now := minutes 999\<rparr>) False (Some ''k'')
     (sample_grant_request\<lparr>rq_peer := Some ''::1''\<rparr>) (snd sample_key_rotated)) = Inr ()"
proof -
  obtain v a' where v: "sample_key_rotated = (Inr v, a')"
    using sample_key_rotated_ok(1) by (cases "fst sample_key_rotated") (auto simp: prod_eq_iff)
  obtain r where r: "db_settings (ap_db (sample_grant_app REGENERATE_INGEST_KEY)) = Some r" "se_ingest_key_current r = ''k''"
    using sample_key_rotated_ok(2) by auto
  have "ascii_string ''new_key''" "ascii_string (se_ingest_key_current r)" using sample_key_rotated_ok(3) r(2) by simp_all
  from old_ingest_key_never_expires [OF v [unfolded sample_key_rotated_def] r(1) this sample_loopback,
      THEN conjunct2, THEN conjunct1]
  show ?thesis unfolding v r(2) snd_conv .
qed

section \<open>What the gate lets through\<close>

text \<open>C18: Until the keys are there the gate answers 503 to every path but the page itself,
  its assets, unlocking, the probes and the nginx webhooks.\<close>

theorem locked_gate_exact:
  "locked_mode_dispatch km path =
    (if km_state km = READY \<or>
        path \<in> {''/'', ''/index.html'', ''/api/unlock'', ''/livez'', ''/readyz'', ''/healthz'', ''/internal/rtmp''} \<or>
        (\<exists>p\<in>{''/api/unlock/'', ''/livez/'', ''/readyz/'', ''/healthz/'', ''/internal/rtmp/'', ''/assets/'', ''/static/''}.
           prefix p path)
     then None
     else Some (HttpError 503 (if km_state km = UNLOCKING then ''service_unlocking'' else ''service_locked'')
            (if km_state km = UNLOCKING then [(''Retry-After'', ''2'')] else [])))"
proof -
  have simps: "allowed_by path ''/api/unlock'' \<longleftrightarrow> path = ''/api/unlock'' \<or> prefix ''/api/unlock/'' path"
    "allowed_by path ''/livez'' \<longleftrightarrow> path = ''/livez'' \<or> prefix ''/livez/'' path"
    "allowed_by path ''/readyz'' \<longleftrightarrow> path = ''/readyz'' \<or> prefix ''/readyz/'' path"
    "allowed_by path ''/healthz'' \<longleftrightarrow> path = ''/healthz'' \<or> prefix ''/healthz/'' path"
    "allowed_by path ''/internal/rtmp/'' \<longleftrightarrow> path = ''/internal/rtmp'' \<or> prefix ''/internal/rtmp/'' path"
    by (simp_all add: allowed_by_def rstrip_char_def suffix_to_prefix)
  have retry: "show_int RETRY_AFTER_LOCKED_SECONDS = ''2''" by code_simp
  show ?thesis
    by (cases "km_state km")
      (auto simp: locked_mode_dispatch_def is_static_root_def is_allowlisted_def DEFAULT_ALLOWLIST_def
        STATIC_PATH_PREFIXES_def simps retry)
qed

section \<open>When the service is ready\<close>

text \<open>The readiness probe answers 200 exactly when the database answers, the supervisor
  ticked within ten seconds, the keys are there and, where it is asked for, nginx answers; dropped
  events never make it fail.\<close>

theorem ready_exactly:
  "he_code (api_readyz show mns db_failure nginx_failure check_nginx b a) =
    (if db_failure = None \<and> heartbeat_age mns (ap_sv a) \<le> seconds 10 \<and> km_state (ap_keys a) = READY \<and>
        (nginx_failure = None \<or> check_nginx = False)
     then 200 else 503)"
  by (cases "km_state (ap_keys a)")
    (auto simp: api_readyz_def health_checks_def Let_def probe_result_def heartbeat_is_stale_def
      HEARTBEAT_STALE_AFTER_def split: option.split)

end
