(* ===== verification/Ws_Api.thy ===== *)
theory Ws_Api
  imports Control_Api
begin

text \<open>
  The WebSocket of \<^verbatim>\<open>app/api/ws.py\<close>: admission of a connection, the registry of subscribers and the
  broadcaster that fills their queues, the loop that forwards a queue to its socket, and the wire
  envelopes. Subscribers are told apart by identity, which is a number here. The broadcaster and
  the tasks of the connections interleave at their awaits: a broadcast is a step, and so is what a task
  does from one wait to the next, with how the send it waited for ended.
\<close>

section \<open>Envelopes\<close>

definition WS_PROTOCOL_VERSION :: int where
  "WS_PROTOCOL_VERSION = 1"

definition snapshot_to_view :: "worker_snapshot \<Rightarrow> worker_snapshot_view" where
  "snapshot_to_view s =
     \<lparr>wv_role = ws_role s, wv_state = ws_state s, wv_last_event_at = ws_last_event_at s,
      wv_last_error = ws_last_error s, wv_breaker_failures_in_window = ws_breaker_failures_in_window s,
      wv_last_progress = ws_last_progress s\<rparr>"

text \<open>The data of an envelope, before it is printed as JSON.\<close>

datatype ws_data =
  RunStateData run_state run_state pystr datetime
| TargetData pystr target_ui_state "worker_snapshot_view list" datetime
| HostData rat "(pystr \<times> worker_role \<times> rat) list" int "rat option" datetime
| DropData int datetime
| FullData run_state_view

record ws_envelope =
  en_v :: int
  en_event :: pystr
  en_data :: ws_data

definition envelope :: "pystr \<Rightarrow> ws_data \<Rightarrow> ws_envelope" where
  "envelope name x = \<lparr>en_v = WS_PROTOCOL_VERSION, en_event = name, en_data = x\<rparr>"

definition event_to_envelope :: "bus_event \<Rightarrow> ws_envelope option" where
  "event_to_envelope e =
     (case be_payload e of
        RunStateChanged new old c \<Rightarrow> Some (envelope ''run.state.changed'' (RunStateData new old c (be_at e)))
      | TargetSnapshot tid ui snaps \<Rightarrow>
          Some (envelope ''target.snapshot'' (TargetData tid ui (map snapshot_to_view snaps) (be_at e)))
      | HostStats cpu by_target rss kbps \<Rightarrow>
          Some (envelope ''host.stats'' (HostData cpu
            (map (\<lambda>h. (wid_target (hc_worker_id h), wid_role (hc_worker_id h), hc_cpu_pct h)) by_target)
            rss kbps (be_at e)))
      | DropAlert n \<Rightarrow> Some (envelope ''bus.drop_alert'' (DropData n (be_at e)))
      | BusWorker we \<Rightarrow> None)"

definition build_state_full :: "int \<Rightarrow> bus_event event_bus \<Rightarrow> supervisor \<Rightarrow> run_state_view" where
  "build_state_full mns b s =
     \<lparr>rv_run_state = sv_run_state s,
      rv_targets = map (\<lambda>(i, t). \<lparr>sn_target_id = tg_id t, sn_ui_state = compute_ui_state t,
        sn_snapshots_by_role = map snapshot_to_view (role_snapshots t)\<rparr>) (sv_targets s),
      rv_heartbeat_age_seconds = total_seconds (heartbeat_age mns s),
      rv_dropped_total = dropped_total b, rv_run_state_changed_at = sv_changed_at s\<rparr>"

section \<open>Admission\<close>

definition WS_CLOSE_AUTH_FAIL :: int where
  "WS_CLOSE_AUTH_FAIL = 4401"

definition WS_CLOSE_LOCKED :: int where
  "WS_CLOSE_LOCKED = 4503"

definition WS_CLOSE_OVERLOAD :: int where
  "WS_CLOSE_OVERLOAD = 1011"

text \<open>The code the socket is closed with, or \<open>None\<close> when it is accepted. The session that looks the
  cookie up is the handler's own, and it commits where the code says so.\<close>

definition ws_admit :: "sv_env \<Rightarrow> request \<Rightarrow> app \<Rightarrow> int option \<times> app" where
  "ws_admit env rq a =
     (case map_of (rq_cookies rq) (session_cookie_name (ap_cookie_secure a)) of
        None \<Rightarrow> (Some WS_CLOSE_AUTH_FAIL, a)
      | Some cookie_value \<Rightarrow>
     (if cookie_value = [] then (Some WS_CLOSE_AUTH_FAIL, a)
      else if km_state (ap_keys a) \<noteq> READY then (Some WS_CLOSE_LOCKED, a)
      else (case require_ready (ap_keys a) of
        Inl e \<Rightarrow> (Some 1006, a)
      | Inr ks \<Rightarrow>
     (case compute_session_token_hash (ev_crypto env) cookie_value (dk_session_token_mac_key ks) of
        Inl e \<Rightarrow> (Some 1006, a)
      | Inr token_hash \<Rightarrow>
     (case session_by_hash (ap_db a) token_hash of
        None \<Rightarrow> (Some WS_CLOSE_AUTH_FAIL, a)
      | Some http_session \<Rightarrow>
     (if hs_expires_at http_session \<le> ev_now env
      then (Some WS_CLOSE_AUTH_FAIL, set_db (delete_session token_hash (ap_db a)) a)
      else (case user_by_id (ap_db a) (hs_user_id http_session) of
        None \<Rightarrow> (Some WS_CLOSE_AUTH_FAIL, a)
      | Some user \<Rightarrow> (None, set_db (touch_last_seen token_hash (ev_now env) (ap_db a)) a))))))))"

section \<open>Subscribers\<close>

definition WS_PER_CLIENT_QUEUE_CAPACITY :: nat where
  "WS_PER_CLIENT_QUEUE_CAPACITY = 256"

record ws_subscriber =
  su_queue :: "bus_event list"
  su_overflowed :: bool

type_synonym ws_registry = "(nat \<times> ws_subscriber) list"

definition new_subscriber :: ws_subscriber where
  "new_subscriber = \<lparr>su_queue = [], su_overflowed = False\<rparr>"

definition registry_add :: "nat \<Rightarrow> ws_subscriber \<Rightarrow> ws_registry \<Rightarrow> ws_registry" where
  "registry_add i sub reg = AList.update i sub reg"

definition registry_remove :: "nat \<Rightarrow> ws_registry \<Rightarrow> ws_registry" where
  "registry_remove i reg = AList.delete i reg"

definition offer :: "bus_event \<Rightarrow> ws_subscriber \<Rightarrow> ws_subscriber" where
  "offer e sub =
     (if su_overflowed sub then sub
      else if length (su_queue sub) < WS_PER_CLIENT_QUEUE_CAPACITY then sub\<lparr>su_queue := su_queue sub @ [e]\<rparr>
      else sub\<lparr>su_overflowed := True\<rparr>)"

definition broadcast :: "bus_event \<Rightarrow> ws_registry \<Rightarrow> ws_registry" where
  "broadcast e reg = map (\<lambda>(i, sub). (i, offer e sub)) reg"

text \<open>The broadcaster handles a drained batch event by event.\<close>

fun ws_broadcaster :: "bus_event list \<Rightarrow> ws_registry \<Rightarrow> ws_registry" where
  "ws_broadcaster [] reg = reg"
| "ws_broadcaster (e # es) reg = ws_broadcaster es (broadcast e reg)"

section \<open>One connection\<close>

text \<open>What a send ends with, and where the handler of a connection waits: in the first send, for an event, or in the
  send of an envelope; or it has closed the socket with a code, or returned.\<close>

datatype ws_send = Sent | Disconnected | SendFailed

datatype ws_status = InFirst ws_envelope | InGet | InSend ws_envelope | ClosedWith int | Returned

record ws_conn =
  wc_sub :: ws_subscriber
  wc_sent :: "ws_envelope list"
  wc_status :: ws_status

text \<open>An accepted connection is registered and sends the state.\<close>

definition ws_connect :: "run_state_view \<Rightarrow> ws_conn" where
  "ws_connect full =
     \<lparr>wc_sub = new_subscriber, wc_sent = [], wc_status = InFirst (envelope ''state.full'' (FullData full))\<rparr>"

text \<open>\<^verbatim>\<open>_forward_loop\<close> from its top to where it waits next. Taking from a queue that is not empty does not wait, so
  events without an envelope are skipped in one go; the overload is looked at before an event is taken, not after.\<close>

fun loop_top :: "bool \<Rightarrow> bus_event list \<Rightarrow> bus_event list \<times> ws_status" where
  "loop_top overflowed q =
     (if overflowed then (q, ClosedWith WS_CLOSE_OVERLOAD)
      else (case q of
              [] \<Rightarrow> ([], InGet)
            | event # rest \<Rightarrow>
               (case event_to_envelope event of
                  None \<Rightarrow> loop_top overflowed rest
                | Some env \<Rightarrow> (rest, InSend env))))"

declare loop_top.simps [simp del]

definition enter_loop :: "ws_conn \<Rightarrow> ws_conn" where
  "enter_loop c =
     (case loop_top (su_overflowed (wc_sub c)) (su_queue (wc_sub c)) of
        (q, st) \<Rightarrow> c\<lparr>wc_sub := (wc_sub c)\<lparr>su_queue := q\<rparr>, wc_status := st\<rparr>)"

text \<open>One turn of the connection's task: it runs on from where it waits. A disconnect in the first send is suppressed; a
  task that waits for an event runs on once there is one, and then does not look at the overload again.\<close>

definition forward_turn :: "ws_send \<Rightarrow> ws_conn \<Rightarrow> ws_conn" where
  "forward_turn r c =
     (case wc_status c of
        InFirst env \<Rightarrow>
          (case r of
             Sent \<Rightarrow> enter_loop (c\<lparr>wc_sent := [env]\<rparr>)
           | Disconnected \<Rightarrow> enter_loop c
           | SendFailed \<Rightarrow> c\<lparr>wc_status := Returned\<rparr>)
      | InGet \<Rightarrow>
          (case su_queue (wc_sub c) of
             [] \<Rightarrow> c
           | event # rest \<Rightarrow>
              (let c1 = c\<lparr>wc_sub := (wc_sub c)\<lparr>su_queue := rest\<rparr>\<rparr>
               in case event_to_envelope event of
                    None \<Rightarrow> enter_loop c1
                  | Some env \<Rightarrow> c1\<lparr>wc_status := InSend env\<rparr>))
      | InSend env \<Rightarrow>
          (case r of
             Sent \<Rightarrow> enter_loop (c\<lparr>wc_sent := wc_sent c @ [env]\<rparr>)
           | _ \<Rightarrow> c\<lparr>wc_status := Returned\<rparr>)
      | _ \<Rightarrow> c)"

datatype ws_step = Broadcast bus_event | Turn ws_send

fun ws_do :: "ws_conn \<Rightarrow> ws_step \<Rightarrow> ws_conn" where
  "ws_do c (Broadcast e) = c\<lparr>wc_sub := offer e (wc_sub c)\<rparr>"
| "ws_do c (Turn r) = forward_turn r c"

fun broadcasts :: "ws_step list \<Rightarrow> bus_event list" where
  "broadcasts [] = []"
| "broadcasts (Broadcast e # xs) = e # broadcasts xs"
| "broadcasts (Turn r # xs) = broadcasts xs"

text \<open>What the first send puts on the wire, unless it failed.\<close>

fun hello :: "ws_envelope \<Rightarrow> ws_step list \<Rightarrow> ws_envelope list" where
  "hello f [] = [f]"
| "hello f (Broadcast e # xs) = hello f xs"
| "hello f (Turn r # xs) = (if r = Disconnected then [] else [f])"

section \<open>A connection misses nothing without being closed\<close>

text \<open>What the loop has taken from the queue, what is still there, what was offered, and what was sent.\<close>

definition sent_ok :: "ws_envelope list \<Rightarrow> ws_conn \<Rightarrow> bus_event list \<Rightarrow> bool" where
  "sent_ok first c taken \<longleftrightarrow>
     (case wc_status c of
        InFirst f \<Rightarrow> wc_sent c = [] \<and> taken = []
      | InSend env \<Rightarrow> wc_sent c @ [env] = first @ List.map_filter event_to_envelope taken
      | Returned \<Rightarrow> prefix (wc_sent c) (first @ List.map_filter event_to_envelope taken)
      | _ \<Rightarrow> wc_sent c = first @ List.map_filter event_to_envelope taken)"

definition taken_ok :: "bus_event list \<Rightarrow> ws_conn \<Rightarrow> bus_event list \<Rightarrow> bool" where
  "taken_ok offered c taken \<longleftrightarrow>
     prefix (taken @ su_queue (wc_sub c)) offered \<and>
     length (su_queue (wc_sub c)) \<le> WS_PER_CLIENT_QUEUE_CAPACITY \<and>
     (if su_overflowed (wc_sub c)
      then length taken + WS_PER_CLIENT_QUEUE_CAPACITY + (if wc_status c = InGet then 1 else 0) \<le> length offered
      else taken @ su_queue (wc_sub c) = offered \<and> (\<forall>code. wc_status c \<noteq> ClosedWith code))"

lemma taken_ok_offer: "taken_ok offered c taken \<Longrightarrow> taken_ok (offered @ [e]) (c\<lparr>wc_sub := offer e (wc_sub c)\<rparr>) taken"
  by (auto simp: taken_ok_def offer_def prefix_def split: if_splits)

lemma sent_ok_offer [simp]: "sent_ok first (c\<lparr>wc_sub := u\<rparr>) taken = sent_ok first c taken"
  by (cases "wc_status c") (simp_all add: sent_ok_def)

lemma taken_ok_ended:
  "taken_ok offered c taken \<Longrightarrow> taken_ok offered (c\<lparr>wc_status := Returned\<rparr>) taken"
  "taken_ok offered c taken \<Longrightarrow> taken_ok offered (c\<lparr>wc_sent := es, wc_status := Returned\<rparr>) taken"
  by (auto simp: taken_ok_def split: if_splits)

lemma map_filter_Nil [simp]: "List.map_filter f [] = []"
  by (simp add: List.map_filter_def)

lemma map_filter_snoc:
  "List.map_filter f (xs @ [x]) = List.map_filter f xs @ (case f x of None \<Rightarrow> [] | Some y \<Rightarrow> [y])"
  by (simp add: List.map_filter_def split: option.split)

lemma map_filter_append: "List.map_filter f (xs @ ys) = List.map_filter f xs @ List.map_filter f ys"
  by (simp add: List.map_filter_def)

text \<open>The loop entered at its top, with what was taken before.\<close>

lemma loop_top_takes:
  "loop_top ov q = (q', st) \<Longrightarrow> \<exists>ts. q = ts @ q' \<and>
    (if ov then ts = [] \<and> st = ClosedWith WS_CLOSE_OVERLOAD
     else (st = InGet \<and> List.map_filter event_to_envelope ts = []) \<or>
       (\<exists>env. st = InSend env \<and> List.map_filter event_to_envelope ts = [env]))"
proof (induction q)
  case Nil
  then show ?case by (auto simp: loop_top.simps [of _ "[]"] List.map_filter_def split: if_splits)
next
  case (Cons e q)
  show ?case
  proof (cases "ov \<or> event_to_envelope e \<noteq> None")
    case True
    then show ?thesis using Cons.prems
      by (intro exI [of _ "if ov then [] else [e]"]) (auto simp: loop_top.simps [of _ "_ # _"] List.map_filter_def split: if_splits)
  next
    case False
    then have "loop_top ov q = (q', st)" using Cons.prems by (simp add: loop_top.simps [of _ "_ # _"])
    from Cons.IH [OF this] False obtain ts where "q = ts @ q'"
      "(st = InGet \<and> List.map_filter event_to_envelope ts = []) \<or>
       (\<exists>env. st = InSend env \<and> List.map_filter event_to_envelope ts = [env])" by auto
    then show ?thesis using False by (intro exI [of _ "e # ts"]) (auto simp: List.map_filter_def)
  qed
qed

lemma enter_loop_sim:
  assumes "taken_ok offered (c\<lparr>wc_status := Returned\<rparr>) taken" "wc_sent c = first @ List.map_filter event_to_envelope taken"
  shows "\<exists>taken'. taken_ok offered (enter_loop c) taken' \<and> sent_ok first (enter_loop c) taken'"
proof -
  obtain q st where l: "loop_top (su_overflowed (wc_sub c)) (su_queue (wc_sub c)) = (q, st)" by fastforce
  from loop_top_takes [OF l] obtain ts where ts: "su_queue (wc_sub c) = ts @ q"
    "if su_overflowed (wc_sub c) then ts = [] \<and> st = ClosedWith WS_CLOSE_OVERLOAD
     else (st = InGet \<and> List.map_filter event_to_envelope ts = []) \<or>
       (\<exists>env. st = InSend env \<and> List.map_filter event_to_envelope ts = [env])" by blast
  have e: "enter_loop c = c\<lparr>wc_sub := (wc_sub c)\<lparr>su_queue := q\<rparr>, wc_status := st\<rparr>" using l by (simp add: enter_loop_def)
  have "taken_ok offered (enter_loop c) (taken @ ts)" "sent_ok first (enter_loop c) (taken @ ts)"
    using assms ts by (auto simp: e taken_ok_def sent_ok_def map_filter_append split: if_splits)
  then show ?thesis by blast
qed

lemma enter_loop_status: "wc_status (enter_loop c) \<noteq> InFirst f"
proof -
  obtain q st where l: "loop_top (su_overflowed (wc_sub c)) (su_queue (wc_sub c)) = (q, st)" by fastforce
  show ?thesis using loop_top_takes [OF l] l by (auto simp: enter_loop_def split: if_splits)
qed

lemma turn_leaves_first: "wc_status (forward_turn r c) \<noteq> InFirst f"
  by (auto simp: forward_turn_def Let_def enter_loop_status split: ws_status.split ws_send.split list.split option.split)

lemma turn_sim:
  assumes "taken_ok offered c taken" "sent_ok first c taken"
    "\<And>f. wc_status c = InFirst f \<Longrightarrow> first = (if r = Disconnected then [] else [f])"
  shows "\<exists>taken'. taken_ok offered (forward_turn r c) taken' \<and> sent_ok first (forward_turn r c) taken'"
proof (cases "wc_status c")
  case (InFirst f)
  note h = assms(1,2) assms(3) [OF InFirst] InFirst
  show ?thesis
  proof (cases r)
    case Sent
    then show ?thesis using h enter_loop_sim [of offered "c\<lparr>wc_sent := [f]\<rparr>" taken first] taken_ok_ended(2) [OF assms(1), of "[f]"]
      by (simp add: forward_turn_def sent_ok_def)
  next
    case Disconnected
    then show ?thesis using h enter_loop_sim [of offered c taken first] taken_ok_ended(1) [OF assms(1)]
      by (simp add: forward_turn_def sent_ok_def)
  next
    case SendFailed
    then show ?thesis using h taken_ok_ended(1) [OF assms(1)] by (auto simp: forward_turn_def sent_ok_def)
  qed
next
  case InGet
  show ?thesis
  proof (cases "su_queue (wc_sub c)")
    case Nil
    then show ?thesis using assms(1,2) InGet by (auto simp: forward_turn_def)
  next
    case (Cons e rest)
    let ?c1 = "c\<lparr>wc_sub := (wc_sub c)\<lparr>su_queue := rest\<rparr>\<rparr>"
    have taken: "taken_ok offered (?c1\<lparr>wc_status := Returned\<rparr>) (taken @ [e])"
      using assms(1) Cons InGet by (auto simp: taken_ok_def split: if_splits)
    show ?thesis
    proof (cases "event_to_envelope e")
      case None
      have "wc_sent ?c1 = first @ List.map_filter event_to_envelope (taken @ [e])"
        using assms(2) InGet None by (simp add: sent_ok_def map_filter_snoc)
      from enter_loop_sim [OF taken this] show ?thesis using Cons InGet None by (simp add: forward_turn_def Let_def)
    next
      case (Some env)
      then show ?thesis using assms(2) taken InGet Cons
        by (intro exI [of _ "taken @ [e]"]) (auto simp: forward_turn_def Let_def taken_ok_def sent_ok_def map_filter_snoc split: if_splits)
    qed
  qed
next
  case (InSend env)
  show ?thesis
  proof (cases "r = Sent")
    case True
    then show ?thesis using assms(1,2) InSend enter_loop_sim [of offered "c\<lparr>wc_sent := wc_sent c @ [env]\<rparr>" taken first]
        taken_ok_ended(2) [OF assms(1), of "wc_sent c @ [env]"]
      by (simp add: forward_turn_def sent_ok_def)
  next
    case False
    then have "forward_turn r c = c\<lparr>wc_status := Returned\<rparr>" using InSend by (cases r) (simp_all add: forward_turn_def)
    then show ?thesis using assms(1,2) InSend
      using taken_ok_ended(1) [OF assms(1)]
      by (intro exI [of _ taken]) (auto simp: sent_ok_def prefix_def, metis)
  qed
qed (use assms(1,2) in \<open>auto simp: forward_turn_def\<close>)

lemma ws_sim_run:
  assumes "taken_ok offered c taken" "sent_ok first c taken" "\<And>f. wc_status c = InFirst f \<Longrightarrow> first = hello f xs"
  shows "\<exists>taken'. taken_ok (offered @ broadcasts xs) (foldl ws_do c xs) taken' \<and> sent_ok first (foldl ws_do c xs) taken'"
  using assms
proof (induction xs arbitrary: offered c taken)
  case (Cons x xs)
  show ?case
  proof (cases x)
    case (Broadcast e)
    then show ?thesis using Cons.IH [OF taken_ok_offer [OF Cons.prems(1), of e]] Cons.prems(2,3) by simp
  next
    case (Turn r)
    have "first = (if r = Disconnected then [] else [f])" if "wc_status c = InFirst f" for f
      using Cons.prems(3) [OF that] Turn by simp
    from turn_sim [OF Cons.prems(1,2) this] obtain taken'
      where "taken_ok offered (forward_turn r c) taken'" "sent_ok first (forward_turn r c) taken'" by blast
    from Cons.IH [OF this] show ?thesis using Turn turn_leaves_first by simp
  qed
qed auto

text \<open>C17: However broadcasts and turns of the connection's task interleave, wherever it waits and however its sends end,
  a client has been sent the state and then the envelopes of an initial part of the events offered since, in order; when a
  send is under way its envelope is the next of them. The queue is bounded. As long as it did not overflow, the part taken
  and the queue are all the events, and the socket is not closed. It is closed for overload only
  when a whole queue of events after the part taken was offered.\<close>

theorem ws_no_silent_gap:
  "case foldl ws_do (ws_connect full) xs of c \<Rightarrow> case hello (envelope ''state.full'' (FullData full)) xs of first \<Rightarrow>
     \<exists>taken.
       (case wc_status c of
          InFirst f \<Rightarrow> wc_sent c = []
        | InSend env \<Rightarrow> wc_sent c @ [env] = first @ List.map_filter event_to_envelope taken
        | Returned \<Rightarrow> prefix (wc_sent c) (first @ List.map_filter event_to_envelope taken)
        | _ \<Rightarrow> wc_sent c = first @ List.map_filter event_to_envelope taken) \<and>
       prefix (taken @ su_queue (wc_sub c)) (broadcasts xs) \<and>
       length (su_queue (wc_sub c)) \<le> WS_PER_CLIENT_QUEUE_CAPACITY \<and>
       (if su_overflowed (wc_sub c) then length taken + WS_PER_CLIENT_QUEUE_CAPACITY \<le> length (broadcasts xs)
        else taken @ su_queue (wc_sub c) = broadcasts xs \<and> (\<forall>code. wc_status c \<noteq> ClosedWith code))"
proof -
  have "taken_ok [] (ws_connect full) []" "sent_ok first (ws_connect full) []" for first
    by (simp_all add: taken_ok_def sent_ok_def ws_connect_def new_subscriber_def)
  from ws_sim_run [OF this, of "hello (envelope ''state.full'' (FullData full)) xs" xs]
  obtain taken where "taken_ok (broadcasts xs) (foldl ws_do (ws_connect full) xs) taken"
    "sent_ok (hello (envelope ''state.full'' (FullData full)) xs) (foldl ws_do (ws_connect full) xs) taken"
    by (auto simp: ws_connect_def)
  then show ?thesis
    by (intro exI [of _ taken]) (auto simp: taken_ok_def sent_ok_def split: ws_status.splits if_splits)
qed

text \<open>Once overflowed, the connection sends at most one more envelope, the one it waits for or is sending, and after two
  turns with events in the queue it has closed the socket or returned.\<close>

definition may_send :: "ws_conn \<Rightarrow> nat" where
  "may_send c = (case wc_status c of ClosedWith code \<Rightarrow> 0 | Returned \<Rightarrow> 0 | _ \<Rightarrow> 1)"

lemma enter_loop_overflowed:
  "su_overflowed (wc_sub c) \<Longrightarrow> enter_loop c = c\<lparr>wc_status := ClosedWith WS_CLOSE_OVERLOAD\<rparr>"
  by (simp add: enter_loop_def loop_top.simps)

lemma overflowed_step:
  assumes "su_overflowed (wc_sub c)"
  shows "su_overflowed (wc_sub (ws_do c x)) \<and>
    length (wc_sent (ws_do c x)) + may_send (ws_do c x) \<le> length (wc_sent c) + may_send c"
  using assms
  by (cases x) (auto simp: offer_def forward_turn_def may_send_def Let_def enter_loop_overflowed sent_ok_def
      split: ws_status.split ws_send.split list.split option.split)

lemma overflow_sends_one_more:
  assumes "su_overflowed (wc_sub c)"
  shows "length (wc_sent (foldl ws_do c xs)) + may_send (foldl ws_do c xs) \<le> length (wc_sent c) + may_send c"
  using assms
proof (induction xs arbitrary: c)
  case (Cons x xs)
  from Cons.IH [of "ws_do c x"] overflowed_step [OF Cons.prems, of x] show ?case by simp
qed simp

lemma overflowed_turn:
  assumes "su_overflowed (wc_sub c)" "su_queue (wc_sub c) \<noteq> []"
  shows "wc_status (forward_turn r c) \<noteq> InGet" "su_overflowed (wc_sub (forward_turn r c))"
  using assms
  by (cases "wc_status c"; cases r; cases "su_queue (wc_sub c)"; cases "event_to_envelope (hd (su_queue (wc_sub c)))";
      simp add: forward_turn_def Let_def enter_loop_overflowed)+

lemma overflowed_send_ends:
  "su_overflowed (wc_sub c) \<Longrightarrow> wc_status c \<noteq> InGet \<Longrightarrow> may_send (forward_turn r c) = 0"
  by (cases "wc_status c"; cases r) (simp_all add: forward_turn_def may_send_def enter_loop_overflowed)

lemma overflow_closes:
  "su_overflowed (wc_sub c) \<Longrightarrow> su_queue (wc_sub c) \<noteq> [] \<Longrightarrow> may_send (forward_turn r2 (forward_turn r1 c)) = 0"
  by (simp add: overflowed_send_ends overflowed_turn)

lemma closed_stays:
  "wc_status c = ClosedWith code \<or> wc_status c = Returned \<Longrightarrow> wc_sent (ws_do c x) = wc_sent c \<and> wc_status (ws_do c x) = wc_status c"
  by (cases x) (auto simp: forward_turn_def)

text \<open>The one more: a batch that overflows the queue of a task waiting for an event still gets its first event sent.\<close>

lemma offers_fill:
  "\<not> su_overflowed sub \<Longrightarrow> length (su_queue sub) + length es \<le> WS_PER_CLIENT_QUEUE_CAPACITY \<Longrightarrow>
    foldl (\<lambda>s e. offer e s) sub es = sub\<lparr>su_queue := su_queue sub @ es\<rparr>"
  by (induction es arbitrary: sub) (simp_all add: offer_def)

lemma overflowed_batch_starts:
  assumes "wc_status c = InGet" "wc_sub c = new_subscriber" "event_to_envelope e = Some env"
    "length es = WS_PER_CLIENT_QUEUE_CAPACITY"
  shows "case forward_turn Sent (forward_turn r (foldl ws_do c (map Broadcast (e # es)))) of c' \<Rightarrow>
    wc_sent c' = wc_sent c @ [env] \<and> wc_status c' = ClosedWith WS_CLOSE_OVERLOAD"
proof -
  have off: "foldl ws_do c (map Broadcast xs) = c\<lparr>wc_sub := foldl (\<lambda>s e. offer e s) (wc_sub c) xs\<rparr>" for xs and c :: ws_conn
    by (induction xs arbitrary: c) simp_all
  obtain ds d where es: "es = ds @ [d]"
    using assms(4) by (cases es rule: rev_cases) (auto simp: WS_PER_CLIENT_QUEUE_CAPACITY_def)
  have "foldl (\<lambda>s e. offer e s) new_subscriber (e # ds) = new_subscriber\<lparr>su_queue := e # ds\<rparr>"
    using offers_fill [of new_subscriber "e # ds"] assms(4) es by (simp add: new_subscriber_def)
  then have "foldl (\<lambda>s e. offer e s) new_subscriber (e # es) = \<lparr>su_queue = e # ds, su_overflowed = True\<rparr>"
    using assms(4) es by (simp add: offer_def new_subscriber_def)
  then have "foldl ws_do c (map Broadcast (e # es)) = c\<lparr>wc_sub := \<lparr>su_queue = e # ds, su_overflowed = True\<rparr>\<rparr>"
    using off [of c "e # es"] assms(2) by simp
  then show ?thesis using assms(1,3) by (simp add: forward_turn_def Let_def enter_loop_overflowed)
qed

text \<open>The registry: each subscriber gets its own offers, whatever the others do.\<close>

lemma broadcast_lookup: "map_of (broadcast e reg) i = map_option (offer e) (map_of reg i)"
  unfolding broadcast_def by (rule map_of_map [unfolded o_def, THEN fun_cong])

lemma broadcaster_lookup:
  "map_of (ws_broadcaster es reg) i = map_option (\<lambda>sub. foldl (\<lambda>s e. offer e s) sub es) (map_of reg i)"
  by (induction es arbitrary: reg) (simp_all add: broadcast_lookup option.map_comp o_def option.map_id0 [unfolded id_def])

section \<open>Who may connect\<close>

text \<open>A ready service accepts a socket exactly when the cookie would authenticate
  an HTTP request, as the same session, and refuses with the code for bad credentials otherwise; a
  service without keys accepts none.\<close>

theorem ws_accepts_like_http:
  "fst (ws_admit env rq a) =
    (case map_of (rq_cookies rq) (session_cookie_name (ap_cookie_secure a)) of
       None \<Rightarrow> Some 4401
     | Some c \<Rightarrow>
        (if c = [] then Some 4401
         else if km_state (ap_keys a) \<noteq> READY then Some 4503
         else (case km_keys (ap_keys a) of
                 None \<Rightarrow> Some 1006
               | Some ks \<Rightarrow>
                  (case current_user_via_cookie (ev_crypto env) ks (ap_cookie_secure a) rq (ev_now env) (ap_db a) of
                     Inr (Some au, d) \<Rightarrow> None
                   | _ \<Rightarrow> Some 4401))))"
  by (auto simp: ws_admit_def require_ready_def current_user_via_cookie_def verify_cookie_def
      compute_session_token_hash_def get_session_service_def WS_CLOSE_AUTH_FAIL_def WS_CLOSE_LOCKED_def
      split: option.split)

text \<open>Unlike a failed HTTP request, a refused socket keeps the removal of an expired session.\<close>

lemma ws_expired_session_deleted:
  assumes "map_of (rq_cookies rq) (session_cookie_name (ap_cookie_secure a)) = Some c" "c \<noteq> []"
    "km_state (ap_keys a) = READY" "km_keys (ap_keys a) = Some ks"
    "th = hmac_sha256 (ev_crypto env) (dk_session_token_mac_key ks) (utf8_encode c)"
    "session_by_hash (ap_db a) th = Some s" "hs_expires_at s \<le> ev_now env"
  shows "session_by_hash (ap_db (snd (ws_admit env rq a))) th = None"
  using assms by (simp add: ws_admit_def require_ready_def compute_session_token_hash_def delete_session_gone)

section \<open>The two projections\<close>

text \<open>\<^verbatim>\<open>GET /api/run/state\<close> and the first envelope of a socket show the same, but that the former never
  has the progress of a worker.\<close>

definition without_progress :: "run_state_view \<Rightarrow> run_state_view" where
  "without_progress v = v\<lparr>rv_targets := map (\<lambda>t. t\<lparr>sn_snapshots_by_role :=
     map (wv_last_progress_update (\<lambda>p. None)) (sn_snapshots_by_role t)\<rparr>) (rv_targets v)\<rparr>"

lemma state_views_agree:
  assumes "api_get_state env b rq a = (Inr v, a')"
  shows "v = without_progress (build_state_full (ev_mns env) b (ap_sv a))"
  using assms
  by (auto simp: api_get_state_def with_session_def build_state_full_def without_progress_def run_project_target_def
      run_snapshot_view_def snapshot_to_view_def o_def split: sum.splits prod.splits)

end
