(* ===== verification/Host_Stats.thy ===== *)
theory Host_Stats
  imports Supervisor
begin

text \<open>
  \<^verbatim>\<open>app/fanout/host_stats.py\<close>: the reader of \<^verbatim>\<open>/proc/<pid>/stat\<close>, the accounting of processor time
  between two samples, the ingest rate of nginx, and the sample that combines them. Times are whole
  nanoseconds and ticks, quotients are exact. What a file holds, what the HTTP request returned and
  the tree the XML parser made of it are arguments.
\<close>

section \<open>Reading a stat file\<close>

text \<open>What follows the last occurrence of a separator: \<^verbatim>\<open>raw[raw.rindex(sep) + len(sep):]\<close>.\<close>

fun after_last :: "bytes \<Rightarrow> bytes \<Rightarrow> bytes option" where
  "after_last sep [] = None"
| "after_last sep (c # s) =
     (case after_last sep s of
        Some t \<Rightarrow> Some t
      | None \<Rightarrow> (if prefix sep (c # s) then Some (drop (length sep) (c # s)) else None))"

text \<open>\<^verbatim>\<open>bytes.split()\<close>\<close>

function split_space :: "bytes \<Rightarrow> bytes list" where
  "split_space s =
     (let r = dropWhile byte_space s
      in if r = [] then []
         else takeWhile (\<lambda>c. \<not> byte_space c) r # split_space (dropWhile (\<lambda>c. \<not> byte_space c) r))"
  by pat_completeness auto

lemma split_space_shrinks:
  "dropWhile byte_space s \<noteq> [] \<Longrightarrow>
    length (dropWhile (\<lambda>c. \<not> byte_space c) (dropWhile byte_space s)) < length s"
proof -
  assume r: "dropWhile byte_space s \<noteq> []"
  then obtain c t where t: "dropWhile byte_space s = c # t" "\<not> byte_space c"
    by (metis hd_dropWhile list.exhaust_sel)
  have "length (dropWhile (\<lambda>c. \<not> byte_space c) t) \<le> length t" by (rule length_dropWhile_le)
  moreover have "length (c # t) \<le> length s" unfolding t(1) [symmetric] by (rule length_dropWhile_le)
  ultimately show ?thesis using t by simp
qed

termination split_space
  by (relation "measure length") (use split_space_shrinks in auto)

declare split_space.simps [simp del]

definition read_stat :: "int \<Rightarrow> bytes option \<Rightarrow> (int \<times> int \<times> int) option" where
  "read_stat page_size file =
     (case file of
        None \<Rightarrow> None
      | Some raw \<Rightarrow>
         (case after_last '') '' raw of
            None \<Rightarrow> None
          | Some tail \<Rightarrow>
             (let fields = split_space tail
              in if length fields \<le> 21 then None
                 else (case (py_int (fields ! 11), py_int (fields ! 12), py_int (fields ! 21)) of
                         (Some utime, Some stime, Some rss_pages) \<Rightarrow> Some (utime, stime, rss_pages * page_size)
                       | _ \<Rightarrow> None))))"

section \<open>Accounting\<close>

record sampler =
  sm_last :: "(int \<times> int \<times> int) list"
  sm_self_pid :: int
  sm_clk_tck :: int
  sm_cpus :: int

definition new_sampler :: "int \<Rightarrow> int \<Rightarrow> int option \<Rightarrow> int option \<Rightarrow> sampler" where
  "new_sampler self_pid clk_tck logical_cpus os_cpu_count =
     \<lparr>sm_last = [], sm_self_pid = self_pid, sm_clk_tck = clk_tck,
      sm_cpus = (case logical_cpus of
          Some n \<Rightarrow> n
        | None \<Rightarrow> max (case os_cpu_count of None \<Rightarrow> 1 | Some n \<Rightarrow> if n = 0 then 1 else n) 1)\<rparr>"

definition account_pct :: "int \<Rightarrow> int \<Rightarrow> int \<Rightarrow> int \<Rightarrow> sampler \<Rightarrow> rat \<times> sampler" where
  "account_pct pid utime stime now_ns st =
     (let ticks = utime + stime;
          st1 = st\<lparr>sm_last := AList.update pid (ticks, now_ns) (sm_last st)\<rparr>
      in case map_of (sm_last st) pid of
           None \<Rightarrow> (0, st1)
         | Some (prev_ticks, prev_ns) \<Rightarrow>
            (let d_ticks = ticks - prev_ticks;
                 d_wall_s = (of_int (now_ns - prev_ns) :: rat) / 10 ^ 9
             in if d_ticks < 0 \<or> d_wall_s \<le> 0 then (0, st1)
                else (let cpu_seconds = of_int d_ticks / of_int (sm_clk_tck st);
                          pct = (cpu_seconds / d_wall_s) * (100 / of_int (sm_cpus st))
                      in if pct > 100 * of_int (sm_cpus st)
                         then (0, st\<lparr>sm_last := AList.delete pid (AList.update pid (ticks, now_ns) (sm_last st))\<rparr>)
                         else (pct, st1))))"

definition read_and_account :: "(int \<Rightarrow> (int \<times> int \<times> int) option) \<Rightarrow> int \<Rightarrow> int \<Rightarrow> sampler \<Rightarrow> rat \<times> sampler" where
  "read_and_account proc pid now_ns st =
     (case proc pid of
        None \<Rightarrow> (0, st\<lparr>sm_last := AList.delete pid (sm_last st)\<rparr>)
      | Some (utime, stime, rss) \<Rightarrow> account_pct pid utime stime now_ns st)"

fun sample_workers ::
    "(int \<Rightarrow> (int \<times> int \<times> int) option) \<Rightarrow> int \<Rightarrow> (worker_id \<times> int) list \<Rightarrow> sampler \<Rightarrow> (worker_id \<times> rat) list \<times> sampler" where
  "sample_workers proc now_ns [] st = ([], st)"
| "sample_workers proc now_ns ((i, pid) # ps) st =
     (case read_and_account proc pid now_ns st of
        (pct, st1) \<Rightarrow> (case sample_workers proc now_ns ps st1 of (rest, st2) \<Rightarrow> ((i, pct) # rest, st2)))"

definition prune_samples :: "int set \<Rightarrow> sampler \<Rightarrow> sampler" where
  "prune_samples live st = st\<lparr>sm_last := filter (\<lambda>(p, x). p \<in> live) (sm_last st)\<rparr>"

record host_sample =
  hp_cpu_total_pct :: rat
  hp_cpu_by_target :: "(worker_id \<times> rat) list"
  hp_rss_bytes :: int
  hp_ingest_kbps :: "rat option"

text \<open>\<open>ingest\<close> is what the fetch returned, or \<open>None\<close> when it raised.\<close>

definition host_sample_of ::
    "(int \<Rightarrow> (int \<times> int \<times> int) option) \<Rightarrow> int \<Rightarrow> (worker_id \<times> int) list \<Rightarrow> rat option option \<Rightarrow> sampler \<Rightarrow>
     host_sample \<times> sampler" where
  "host_sample_of proc now_ns pids ingest st =
     (case sample_workers proc now_ns pids st of
        (per_target, st1) \<Rightarrow>
          (let worker_total = (\<Sum>(i, pct)\<leftarrow>per_target. pct);
               (self_pct, rss, st2) =
                 (case proc (sm_self_pid st1) of
                    None \<Rightarrow> (0, 0, st1)
                  | Some (u, s, rss) \<Rightarrow>
                     (case account_pct (sm_self_pid st1) u s now_ns st1 of (p, st') \<Rightarrow> (p, rss, st')))
           in (\<lparr>hp_cpu_total_pct = worker_total + self_pct, hp_cpu_by_target = per_target, hp_rss_bytes = rss,
                hp_ingest_kbps = (case ingest of None \<Rightarrow> None | Some r \<Rightarrow> r)\<rparr>,
               prune_samples (insert (sm_self_pid st2) (snd ` set pids)) st2)))"

section \<open>The ingest rate\<close>

datatype xml = Element (xml_tag: pystr) (xml_text: "pystr option") (xml_children: "xml list")

text \<open>\<^verbatim>\<open>iter\<close> walks the element and all below it, in document order; \<^verbatim>\<open>find\<close> takes the first child.\<close>

fun xml_iter :: "pystr \<Rightarrow> xml \<Rightarrow> xml list" where
  "xml_iter t (Element n x cs) = (if n = t then [Element n x cs] else []) @ concat (map (xml_iter t) cs)"

definition xml_find :: "pystr \<Rightarrow> xml \<Rightarrow> xml option" where
  "xml_find t e = find (\<lambda>c. xml_tag c = t) (xml_children e)"

definition stream_rate :: "xml \<Rightarrow> int option" where
  "stream_rate s =
     (case xml_find ''bw_in'' s of
        None \<Rightarrow> None
      | Some bw \<Rightarrow> (case xml_text bw of None \<Rightarrow> None | Some x \<Rightarrow> py_int (py_strip x)))"

definition application_rates :: "xml \<Rightarrow> int list" where
  "application_rates ap =
     (case xml_find ''name'' ap of
        None \<Rightarrow> []
      | Some n \<Rightarrow>
         (if py_strip (case xml_text n of None \<Rightarrow> [] | Some x \<Rightarrow> x) \<noteq> ''live'' then []
          else (case xml_find ''live'' ap of
                  None \<Rightarrow> []
                | Some lv \<Rightarrow> List.map_filter stream_rate (xml_iter ''stream'' lv))))"

definition ingest_rate :: "xml \<Rightarrow> rat option" where
  "ingest_rate doc =
     (let rates = concat (map application_rates (xml_iter ''application'' doc))
      in if rates = [] then None else Some (of_int (sum_list rates) / 1000))"

datatype parsed_xml = Parsed xml | ParseError | XmlForbidden

text \<open>\<open>None\<close> when an exception leaves the call, which only the refusal of an entity does.\<close>

definition fetch_ingest :: "(int \<times> parsed_xml) option \<Rightarrow> rat option option" where
  "fetch_ingest response =
     (case response of
        None \<Rightarrow> Some None
      | Some (status, body) \<Rightarrow>
         (if status \<noteq> 200 then Some None
          else (case body of
                  ParseError \<Rightarrow> Some None
                | XmlForbidden \<Rightarrow> None
                | Parsed doc \<Rightarrow> Some (ingest_rate doc))))"

definition HOST_STATS_TICK_SECONDS :: rat where
  "HOST_STATS_TICK_SECONDS = 2"

section \<open>A stat line is read back\<close>

lemma after_last_absent: "c \<notin> set s \<Longrightarrow> after_last (c # sep) s = None"
  by (induction s) auto

lemma after_last_found:
  assumes "c \<notin> set (sep @ tail)"
  shows "after_last (c # sep) (xs @ (c # sep) @ tail) = Some tail"
proof (induction xs)
  case Nil
  have "after_last (c # sep) (sep @ tail) = None" by (rule after_last_absent) (use assms in simp)
  then show ?case by simp
qed simp

lemma split_space_field:
  assumes "f \<noteq> []" "\<forall>c\<in>set f. \<not> byte_space c" "byte_space b"
  shows "split_space (f @ b # rest) = f # split_space rest"
proof -
  have drop: "dropWhile byte_space (f @ b # rest) = f @ b # rest"
    using assms(1,2) by (cases f) auto
  have "takeWhile (\<lambda>c. \<not> byte_space c) (f @ b # rest) = f" "dropWhile (\<lambda>c. \<not> byte_space c) (f @ b # rest) = b # rest"
    using assms(2,3) by (simp_all add: takeWhile_append dropWhile_append)
  moreover have "split_space (b # rest) = split_space rest"
    using assms(3) by (subst (1 2) split_space.simps) (simp add: Let_def)
  ultimately show ?thesis using assms(1) drop by (subst split_space.simps) (simp add: Let_def)
qed

lemma split_space_fields:
  assumes "\<forall>(f, b)\<in>set fs. f \<noteq> [] \<and> (\<forall>c\<in>set f. \<not> byte_space c) \<and> byte_space b"
  shows "split_space (concat (map (\<lambda>(f, b). f @ [b]) fs)) = map fst fs"
  using assms
proof (induction fs)
  case Nil
  show ?case by (subst split_space.simps) simp
next
  case (Cons p fs)
  then show ?case by (cases p) (simp add: split_space_field)
qed

text \<open>Whatever the name of a process, blanks and parentheses included, the reader
  finds the times and the memory in the fields that follow it.\<close>

theorem proc_stat_roundtrip:
  assumes "\<forall>(f, b)\<in>set fs. f \<noteq> [] \<and> (\<forall>c\<in>set f. \<not> byte_space c) \<and> byte_space b \<and> CHR '')'' \<notin> set f"
    "21 < length fs" "py_int (fst (fs ! 11)) = Some utime" "py_int (fst (fs ! 12)) = Some stime"
    "py_int (fst (fs ! 21)) = Some pages"
  shows "read_stat page_size (Some (pid @ '' ('' @ comm @ '') '' @ concat (map (\<lambda>(f, b). f @ [b]) fs))) =
    Some (utime, stime, pages * page_size)"
proof -
  have "CHR '')'' \<notin> set ('' '' @ concat (map (\<lambda>(f, b). f @ [b]) fs))"
    using assms(1) by (auto simp: byte_space_def)
  from after_last_found [OF this, of "pid @ '' ('' @ comm"]
  have tail: "after_last '') '' (pid @ '' ('' @ comm @ '') '' @ concat (map (\<lambda>(f, b). f @ [b]) fs)) =
      Some (concat (map (\<lambda>(f, b). f @ [b]) fs))" by simp
  have "split_space (concat (map (\<lambda>(f, b). f @ [b]) fs)) = map fst fs"
    by (rule split_space_fields) (use assms(1) in auto)
  then show ?thesis using assms(2-) tail by (simp add: read_stat_def Let_def)
qed

definition sample_fields :: "(bytes \<times> char) list" where
  "sample_fields = map (\<lambda>f. (f, CHR '' ''))
     [''S'', ''1'', ''1'', ''1'', ''0'', ''-1'', ''4194560'', ''9'', ''0'', ''0'', ''0'', ''250'', ''50'', ''0'', ''0'',
      ''20'', ''0'', ''3'', ''0'', ''777'', ''1000'', ''25'', ''0'']"

lemma sample_fields_ok:
  "\<forall>(f, b)\<in>set sample_fields. f \<noteq> [] \<and> (\<forall>c\<in>set f. \<not> byte_space c) \<and> byte_space b \<and> CHR '')'' \<notin> set f"
  "21 < length sample_fields" "py_int (fst (sample_fields ! 11)) = Some 250"
  "py_int (fst (sample_fields ! 12)) = Some 50" "py_int (fst (sample_fields ! 21)) = Some 25"
  by code_simp+

theorem proc_stat_roundtrip_witness:
  "read_stat 4096 (Some (''7'' @ '' ('' @ ''a) b (c'' @ '') '' @ concat (map (\<lambda>(f, b). f @ [b]) sample_fields))) =
    Some (250, 50, 102400)"
  using proc_stat_roundtrip [OF sample_fields_ok, of 4096 "''7''" "''a) b (c''"] by simp

section \<open>Bounds and baselines\<close>

definition sampler_ok :: "sampler \<Rightarrow> bool" where
  "sampler_ok st \<longleftrightarrow> 0 < sm_clk_tck st \<and> 0 < sm_cpus st \<and> distinct (map fst (sm_last st))"

lemma account_pct_frame:
  "account_pct pid u s now st = (pct, st') \<Longrightarrow>
    sm_self_pid st' = sm_self_pid st \<and> sm_clk_tck st' = sm_clk_tck st \<and> sm_cpus st' = sm_cpus st \<and>
    (sampler_ok st \<longrightarrow> sampler_ok st')"
  by (auto simp: account_pct_def Let_def sampler_ok_def intro!: AList.distinct_update AList.distinct_delete
      split: option.splits prod.splits if_splits)

lemma account_pct_bounds:
  "account_pct pid u s now st = (pct, st') \<Longrightarrow> sampler_ok st \<Longrightarrow> 0 \<le> pct \<and> pct \<le> 100 * of_int (sm_cpus st)"
  by (auto simp: account_pct_def Let_def sampler_ok_def split: option.splits prod.splits if_splits)

lemma read_and_account_bounds:
  assumes "read_and_account proc pid now st = (pct, st')" "sampler_ok st"
  shows "0 \<le> pct \<and> pct \<le> 100 * of_int (sm_cpus st) \<and> sampler_ok st' \<and>
    sm_cpus st' = sm_cpus st \<and> sm_self_pid st' = sm_self_pid st"
proof (cases "proc pid")
  case None
  then show ?thesis using assms by (auto simp: read_and_account_def sampler_ok_def intro!: AList.distinct_delete)
next
  case (Some x)
  then obtain u s rss where "account_pct pid u s now st = (pct, st')"
    using assms(1) by (cases x) (simp add: read_and_account_def)
  then show ?thesis using account_pct_frame account_pct_bounds assms(2) by blast
qed

lemma sample_workers_bounds:
  assumes "sample_workers proc now ps st = (out, st')" "sampler_ok st"
  shows "map fst out = map fst ps \<and> (\<forall>(i, pct)\<in>set out. 0 \<le> pct \<and> pct \<le> 100 * of_int (sm_cpus st)) \<and>
    sampler_ok st' \<and> sm_cpus st' = sm_cpus st \<and> sm_self_pid st' = sm_self_pid st"
  using assms
proof (induction ps arbitrary: st out st')
  case (Cons p ps)
  obtain i pid where p: "p = (i, pid)" by (cases p)
  obtain pct st1 where r: "read_and_account proc pid now st = (pct, st1)" by (cases "read_and_account proc pid now st")
  obtain rest st2 where w: "sample_workers proc now ps st1 = (rest, st2)" by (cases "sample_workers proc now ps st1")
  note b = read_and_account_bounds [OF r Cons.prems(2)]
  then show ?case using Cons.IH [OF w] Cons.prems(1) p r w by auto
qed simp

lemma prune_samples_ok:
  "sampler_ok st \<Longrightarrow> sampler_ok (prune_samples live st) \<and> fst ` set (sm_last (prune_samples live st)) \<subseteq> live"
  by (auto simp: sampler_ok_def prune_samples_def intro: distinct_map_filter)

text \<open>One entry per worker, in order, each between zero and a hundred per cent times
  the number of processors; the total is their sum and the control plane's share; and the
  baselines that are kept belong to live processes only.\<close>

theorem host_sample_bounded:
  assumes "host_sample_of proc now pids ingest st = (out, st')" "sampler_ok st"
  shows "map fst (hp_cpu_by_target out) = map fst pids \<and>
    (\<forall>(i, pct)\<in>set (hp_cpu_by_target out). 0 \<le> pct \<and> pct \<le> 100 * of_int (sm_cpus st)) \<and>
    (\<exists>own. 0 \<le> own \<and> own \<le> 100 * of_int (sm_cpus st) \<and>
       hp_cpu_total_pct out = (\<Sum>(i, pct)\<leftarrow>hp_cpu_by_target out. pct) + own) \<and>
    sampler_ok st' \<and> fst ` set (sm_last st') \<subseteq> insert (sm_self_pid st) (snd ` set pids)"
proof -
  obtain per st1 where w: "sample_workers proc now pids st = (per, st1)" by (cases "sample_workers proc now pids st")
  note b = sample_workers_bounds [OF w assms(2)]
  obtain own rss st2 where o: "(case proc (sm_self_pid st1) of None \<Rightarrow> (0, 0, st1)
      | Some (u, s, rss) \<Rightarrow> (case account_pct (sm_self_pid st1) u s now st1 of (p, st') \<Rightarrow> (p, rss, st'))) = (own, rss, st2)"
    by (metis prod_cases3)
  have own: "0 \<le> own \<and> own \<le> 100 * of_int (sm_cpus st) \<and> sampler_ok st2 \<and> sm_self_pid st2 = sm_self_pid st"
  proof (cases "proc (sm_self_pid st1)")
    case None
    then show ?thesis using o b by (auto simp: sampler_ok_def)
  next
    case (Some x)
    then obtain u s where "account_pct (sm_self_pid st1) u s now st1 = (own, st2)"
      using o by (cases x) (auto split: prod.splits)
    then show ?thesis using b account_pct_frame account_pct_bounds by metis
  qed
  have out: "hp_cpu_by_target out = per" "hp_cpu_total_pct out = (\<Sum>(i, pct)\<leftarrow>per. pct) + own"
    "st' = prune_samples (insert (sm_self_pid st2) (snd ` set pids)) st2"
    using assms(1) w o by (auto simp: host_sample_of_def Let_def)
  show ?thesis
    using b own out prune_samples_ok [of st2 "insert (sm_self_pid st2) (snd ` set pids)"] by auto
qed

definition sample_sampler :: sampler where
  "sample_sampler = new_sampler 1 100 None (Some 4)"

definition sample_proc :: "int \<Rightarrow> int \<Rightarrow> (int \<times> int \<times> int) option" where
  "sample_proc n pid = (if pid = 1 then Some (n, 0, 4096) else if pid = 7 then Some (10 * n, n, 0) else None)"

lemma sample_sampler_ok: "sampler_ok sample_sampler"
  by (simp add: sampler_ok_def sample_sampler_def new_sampler_def)

theorem host_sample_bounded_witness:
  "case host_sample_of (sample_proc 5) 1000 [(sample_worker, 7), (sample_worker, 8)] None sample_sampler of
     (out, st) \<Rightarrow> map fst (hp_cpu_by_target out) = [sample_worker, sample_worker] \<and> fst ` set (sm_last st) \<subseteq> {1, 7, 8}"
proof -
  obtain out st where r: "host_sample_of (sample_proc 5) 1000 [(sample_worker, 7), (sample_worker, 8)] None sample_sampler = (out, st)"
    by fastforce
  from host_sample_bounded [OF r sample_sampler_ok] r show ?thesis
    by (auto simp: sample_sampler_def new_sampler_def)
qed

lemma share_at_most_hundred: "0 < n * w \<Longrightarrow> c \<le> n * w \<Longrightarrow> 100 * c / (n * w) \<le> (100 :: rat)"
  by (simp add: pos_divide_le_eq)

text \<open>A process that used some ticks between two samples is reported with exactly its
  share of the whole host, provided it used no more time than all processors have; that share is
  at most a hundred.\<close>

theorem cpu_share_exact:
  assumes "sampler_ok st" "map_of (sm_last st) pid = Some (ticks, t0)" "t0 < now" "ticks \<le> u + s"
    "of_int (u + s - ticks) / of_int (sm_clk_tck st) \<le> (of_int (sm_cpus st) :: rat) * (of_int (now - t0) / 10 ^ 9)"
  shows "account_pct pid u s now st =
      (100 * (of_int (u + s - ticks) / of_int (sm_clk_tck st)) / (of_int (sm_cpus st) * (of_int (now - t0) / 10 ^ 9)),
       st\<lparr>sm_last := AList.update pid (u + s, now) (sm_last st)\<rparr>) \<and>
    fst (account_pct pid u s now st) \<le> 100"
proof -
  let ?c = "of_int (u + s - ticks) / of_int (sm_clk_tck st) :: rat"
  let ?w = "of_int (now - t0) / 10 ^ 9 :: rat"
  let ?n = "of_int (sm_cpus st) :: rat"
  have pos: "0 < ?w" "1 \<le> ?n" using assms(1,3) by (simp_all add: sampler_ok_def)
  have share: "?c / ?w * (100 / ?n) = 100 * ?c / (?n * ?w)" by simp
  have le: "100 * ?c / (?n * ?w) \<le> 100" using share_at_most_hundred [of ?n ?w ?c] assms(5) pos by simp
  then have "\<not> ?c / ?w * (100 / ?n) > 100 * ?n" unfolding share using pos by (simp only: not_less)
  moreover have "\<not> (u + s - ticks < 0 \<or> ?w \<le> 0)" using assms(4) pos(1) by linarith
  ultimately have "account_pct pid u s now st =
      (100 * ?c / (?n * ?w), st\<lparr>sm_last := AList.update pid (u + s, now) (sm_last st)\<rparr>)"
    unfolding account_pct_def Let_def assms(2) option.case prod.case by (simp only: if_False share)
  then show ?thesis using le by simp
qed

definition sample_baseline :: sampler where
  "sample_baseline = sample_sampler\<lparr>sm_last := [(7, 100, 0)]\<rparr>"

theorem cpu_share_exact_witness: "fst (account_pct 7 250 50 2000000000 sample_baseline) = 25"
  using cpu_share_exact [of sample_baseline 7 100 0 2000000000 250 50]
  by (simp add: sample_baseline_def sample_sampler_def new_sampler_def sampler_ok_def)

text \<open>The guard against implausible readings compares a share of the whole host with a hundred per
  cent per processor: on four processors, four times the whole host passes.\<close>

lemma implausible_share_passes: "fst (account_pct 7 3300 0 2000000000 sample_baseline) = 400"
  by (simp add: account_pct_def Let_def sample_baseline_def sample_sampler_def new_sampler_def)

text \<open>A recycled process id, whose counter starts lower, and an unreadable one report zero.\<close>

lemma recycled_pid_zero:
  "map_of (sm_last st) pid = Some (ticks, t0) \<Longrightarrow> u + s < ticks \<Longrightarrow>
    account_pct pid u s now st = (0, st\<lparr>sm_last := AList.update pid (u + s, now) (sm_last st)\<rparr>)"
  by (simp add: account_pct_def Let_def)

end
