(* ===== verification/Configuration.thy ===== *)
theory Configuration
  imports Client_Ip
begin

text \<open>
  The settings of \<^verbatim>\<open>app/config.py\<close>: the fields with their defaults, the parser of the trusted proxies
  with the part of the \<^verbatim>\<open>ipaddress\<close> library it calls, and the validators in the order they run. The
  settings library has turned each environment variable into a value of its field's type before;
  that part is not modelled.
\<close>

section \<open>Networks\<close>

text \<open>The prefix length a netmask or, failing that, a host nmask stands for.\<close>

definition prefix_of_mask :: "nat \<Rightarrow> nat option" where
  "prefix_of_mask n =
     (case find (\<lambda>k. n = 2 ^ 32 - 2 ^ (32 - k)) [0..<33] of
        Some k \<Rightarrow> Some k
      | None \<Rightarrow> find (\<lambda>k. n = 2 ^ (32 - k) - 1) [0..<33])"

definition prefix_string :: "nat \<Rightarrow> pystr \<Rightarrow> nat option" where
  "prefix_string limit s =
     (if s = [] \<or> \<not> (\<forall>c\<in>set s. ascii_digit c) \<or> limit < decimal_value s then None else Some (decimal_value s))"

definition parse_network4 :: "pystr \<Rightarrow> pystr option \<Rightarrow> ip_network option" where
  "parse_network4 addr nmask =
     (case parse_ipv4 addr of
        None \<Rightarrow> None
      | Some n \<Rightarrow>
         map_option (\<lambda>k. \<lparr>nw_address = IPv4 (n div 2 ^ (32 - k) * 2 ^ (32 - k)), nw_prefixlen = k\<rparr>)
           (case nmask of
              None \<Rightarrow> Some 32
            | Some m \<Rightarrow>
               (case prefix_string 32 m of
                  Some k \<Rightarrow> Some k
                | None \<Rightarrow> (case parse_ipv4 m of None \<Rightarrow> None | Some x \<Rightarrow> prefix_of_mask x))))"

definition parse_network6 :: "pystr \<Rightarrow> pystr option \<Rightarrow> ip_network option" where
  "parse_network6 addr nmask =
     (case parse_ipv6 addr of
        None \<Rightarrow> None
      | Some n \<Rightarrow>
         map_option (\<lambda>k. \<lparr>nw_address = IPv6 (n div 2 ^ (128 - k) * 2 ^ (128 - k)), nw_prefixlen = k\<rparr>)
           (case nmask of None \<Rightarrow> Some 128 | Some m \<Rightarrow> prefix_string 128 m))"

text \<open>\<^verbatim>\<open>ipaddress.ip_network(s, strict=False)\<close>\<close>

definition ip_network_of :: "pystr \<Rightarrow> ip_network option" where
  "ip_network_of s =
     (case split_char CHR ''/'' s of
        [addr] \<Rightarrow> (case parse_network4 addr None of Some w \<Rightarrow> Some w | None \<Rightarrow> parse_network6 addr None)
      | [addr, nmask] \<Rightarrow>
          (case parse_network4 addr (Some nmask) of Some w \<Rightarrow> Some w | None \<Rightarrow> parse_network6 addr (Some nmask))
      | _ \<Rightarrow> None)"

definition parse_trusted_proxies :: "pystr \<Rightarrow> value_error + ip_network list" where
  "parse_trusted_proxies v =
     (if v = [] then Inr []
      else (let entries = filter (\<lambda>s. s \<noteq> []) (map py_strip (split_char CHR '','' v))
            in case all_some (map ip_network_of entries) of
                 None \<Rightarrow> Inl (ValueError ''RESTREAM_TRUSTED_PROXIES entry is not a valid CIDR or IP address'')
               | Some nets \<Rightarrow> Inr nets))"

section \<open>Settings\<close>

datatype passphrase_source = EnvSource | PasteSource

definition MIN_PASSPHRASE_LENGTH :: nat where
  "MIN_PASSPHRASE_LENGTH = 12"

definition MIN_ADMIN_PASSWORD_LENGTH :: nat where
  "MIN_ADMIN_PASSWORD_LENGTH = 12"

record app_settings =
  as_passphrase_source :: passphrase_source
  as_master_passphrase :: "pystr option"
  as_admin_password :: "pystr option"
  as_reset_admin_password :: bool
  as_data_dir :: pystr
  as_bind_host :: pystr
  as_bind_port :: int
  as_log_level :: pystr
  as_log_format :: pystr
  as_healthz_check_nginx :: bool
  as_cookie_secure :: bool
  as_trusted_proxies :: "ip_network list"

definition default_settings :: app_settings where
  "default_settings =
     \<lparr>as_passphrase_source = EnvSource, as_master_passphrase = None, as_admin_password = None,
      as_reset_admin_password = False, as_data_dir = ''/data'', as_bind_host = ''0.0.0.0'', as_bind_port = 8000,
      as_log_level = ''INFO'', as_log_format = ''json'', as_healthz_check_nginx = True, as_cookie_secure = True,
      as_trusted_proxies = []\<rparr>"

definition validate_passphrase_source :: "app_settings \<Rightarrow> value_error option" where
  "validate_passphrase_source s =
     (case as_passphrase_source s of
        EnvSource \<Rightarrow>
         (case as_master_passphrase s of
            None \<Rightarrow> Some (ValueError ''RESTREAM_PASSPHRASE_SOURCE=env requires RESTREAM_MASTER_PASSPHRASE to be set.'')
          | Some p \<Rightarrow>
             (if length p < MIN_PASSPHRASE_LENGTH
              then Some (ValueError ''RESTREAM_MASTER_PASSPHRASE must be at least 12 characters.'') else None))
      | PasteSource \<Rightarrow>
         (if as_master_passphrase s \<noteq> None
          then Some (ValueError ''RESTREAM_PASSPHRASE_SOURCE=paste forbids RESTREAM_MASTER_PASSPHRASE; remove it to avoid ambiguity.'')
          else None))"

definition validate_admin_password_length :: "app_settings \<Rightarrow> value_error option" where
  "validate_admin_password_length s =
     (case as_admin_password s of
        None \<Rightarrow> None
      | Some p \<Rightarrow>
         (if length p < MIN_ADMIN_PASSWORD_LENGTH
          then Some (ValueError ''RESTREAM_ADMIN_PASSWORD must be at least 12 characters.'') else None))"

definition validate_reset_flag_pairing :: "app_settings \<Rightarrow> value_error option" where
  "validate_reset_flag_pairing s =
     (if as_reset_admin_password s \<and> as_admin_password s = None
      then Some (ValueError ''RESTREAM_RESET_ADMIN_PASSWORD=1 requires RESTREAM_ADMIN_PASSWORD to be set to the new value.'')
      else None)"

text \<open>The port's bounds are a constraint of the field, checked first.\<close>

definition validate_settings :: "app_settings \<Rightarrow> value_error + app_settings" where
  "validate_settings s =
     (if \<not> (1 \<le> as_bind_port s \<and> as_bind_port s \<le> 65535) then Inl (ValueError ''bind_port'')
      else (case validate_passphrase_source s of
              Some e \<Rightarrow> Inl e
            | None \<Rightarrow>
               (case validate_admin_password_length s of
                  Some e \<Rightarrow> Inl e
                | None \<Rightarrow> (case validate_reset_flag_pairing s of Some e \<Rightarrow> Inl e | None \<Rightarrow> Inr s))))"

definition kdf_salt_path :: "app_settings \<Rightarrow> pystr" where
  "kdf_salt_path s = as_data_dir s @ ''/.kdf_salt''"

definition kdf_salt_previous_path :: "app_settings \<Rightarrow> pystr" where
  "kdf_salt_previous_path s = as_data_dir s @ ''/.kdf_salt.previous''"

definition db_path :: "app_settings \<Rightarrow> pystr" where
  "db_path s = as_data_dir s @ ''/restream.db''"

definition log_dir :: "app_settings \<Rightarrow> pystr" where
  "log_dir s = as_data_dir s @ ''/logs''"

lemma validate_settings_Inr:
  assumes "validate_settings s = Inr t"
  shows "t = s" "\<And>p. as_admin_password s = Some p \<Longrightarrow> 12 \<le> length p"
    "as_passphrase_source s = EnvSource \<Longrightarrow> \<exists>p. as_master_passphrase s = Some p \<and> 12 \<le> length p"
    "as_passphrase_source s = PasteSource \<Longrightarrow> as_master_passphrase s = None"
    "as_reset_admin_password s \<Longrightarrow> as_admin_password s \<noteq> None"
  using assms
  by (auto simp: validate_settings_def validate_passphrase_source_def validate_admin_password_length_def
      validate_reset_flag_pairing_def MIN_PASSPHRASE_LENGTH_def MIN_ADMIN_PASSWORD_LENGTH_def
      split: if_splits option.splits passphrase_source.splits)

section \<open>Which peers a proxy list trusts\<close>

lemma network_truncated: "(n :: nat) div 2 ^ j * 2 ^ j div 2 ^ j = n div 2 ^ j"
  by simp

lemma bare_network:
  assumes "CHR ''/'' \<notin> set s" "ip_address_of s = Some a"
  shows "\<exists>w. ip_network_of s = Some w \<and> (\<forall>b. in_network b w \<longleftrightarrow> b = a)"
proof -
  have split: "split_char CHR ''/'' s = [s]"
    using assms(1) by (simp add: split_char_None)
  show ?thesis
  proof (cases "parse_ipv4 s")
    case (Some n)
    then have "ip_network_of s = Some \<lparr>nw_address = IPv4 n, nw_prefixlen = 32\<rparr>" "a = IPv4 n"
      using split assms(2) by (simp_all add: ip_network_of_def parse_network4_def ip_address_of_def)
    moreover have "in_network b \<lparr>nw_address = IPv4 n, nw_prefixlen = 32\<rparr> \<longleftrightarrow> b = IPv4 n" for b
      by (cases b) simp_all
    ultimately show ?thesis by blast
  next
    case None
    then obtain n where n: "parse_ipv6 s = Some n" "a = IPv6 n"
      using assms(2) by (auto simp: ip_address_of_def)
    then have "ip_network_of s = Some \<lparr>nw_address = IPv6 n, nw_prefixlen = 128\<rparr>"
      using split None by (simp add: ip_network_of_def parse_network4_def parse_network6_def)
    moreover have "in_network b \<lparr>nw_address = IPv6 n, nw_prefixlen = 128\<rparr> \<longleftrightarrow> b = IPv6 n" for b
      by (cases b) simp_all
    ultimately show ?thesis using n by blast
  qed
qed

lemma all_some_bare:
  assumes "\<forall>s\<in>set ss. CHR ''/'' \<notin> set s \<and> ip_address_of s \<noteq> None"
  shows "\<exists>nets. all_some (map ip_network_of ss) = Some nets \<and>
    (\<forall>b. (\<exists>w\<in>set nets. in_network b w) \<longleftrightarrow> (\<exists>s\<in>set ss. ip_address_of s = Some b))"
  using assms
proof (induction ss)
  case (Cons s ss)
  then obtain a where a: "ip_address_of s = Some a" by auto
  obtain w where w: "ip_network_of s = Some w" "\<forall>b. in_network b w \<longleftrightarrow> b = a"
    using bare_network [OF _ a] Cons.prems by auto
  obtain nets where nets: "all_some (map ip_network_of ss) = Some nets"
    "\<forall>b. (\<exists>w\<in>set nets. in_network b w) \<longleftrightarrow> (\<exists>s\<in>set ss. ip_address_of s = Some b)"
    using Cons.IH Cons.prems by auto
  show ?case using a w nets by (intro exI [of _ "w # nets"]) auto
qed simp

text \<open>A list of plain addresses is accepted, and exactly these addresses are trusted;
  with the empty list no header is believed, and every client is its peer.\<close>

theorem bare_proxies_exact:
  assumes "\<forall>s\<in>set ss. CHR ''/'' \<notin> set s \<and> CHR '','' \<notin> set s \<and> py_strip s = s \<and> ip_address_of s \<noteq> None" "ss \<noteq> []"
  shows "\<exists>nets. parse_trusted_proxies (hd ss @ concat (map (Cons CHR '','') (tl ss))) = Inr nets \<and>
    (\<forall>b. (\<exists>w\<in>set nets. in_network b w) \<longleftrightarrow> (\<exists>s\<in>set ss. ip_address_of s = Some b)) \<and>
    parse_trusted_proxies [] = Inr [] \<and>
    (\<forall>peer fwd. extract_client_ip (Some peer) fwd (Some []) = (if peer = [] then UNKNOWN_CLIENT_IP else peer))"
proof -
  have split: "split_char CHR '','' (s @ concat (map (Cons CHR '','') rest)) = s # rest"
    if "CHR '','' \<notin> set s" "\<forall>t\<in>set rest. CHR '','' \<notin> set t" for s rest
    using that
  proof (induction rest arbitrary: s)
    case (Cons t rest)
    have "find_char CHR '','' (s @ CHR '','' # t @ concat (map (Cons CHR '','') rest)) =
        Some (s, t @ concat (map (Cons CHR '','') rest))"
      using Cons.prems(1) by (simp add: find_char_Some)
    then show ?case using Cons by (simp add: split_char_Some)
  qed (simp add: split_char_None)
  have ne: "s \<noteq> []" if "s \<in> set ss" for s
    using assms(1) that invalid_empty by (auto simp: is_valid_ip_def)
  have "split_char CHR '','' (hd ss @ concat (map (Cons CHR '','') (tl ss))) = ss"
    using split [of "hd ss" "tl ss"] assms by (cases ss) auto
  then have entries: "filter (\<lambda>s. s \<noteq> []) (map py_strip (split_char CHR '','' (hd ss @ concat (map (Cons CHR '','') (tl ss))))) = ss"
    using assms(1) ne by (simp add: map_idI filter_id_conv)
  have "hd ss @ concat (map (Cons CHR '','') (tl ss)) \<noteq> []" using ne assms(2) by simp
  then show ?thesis
    using all_some_bare [of ss] assms(1) entries
    by (auto simp: parse_trusted_proxies_def extract_client_ip_def)
qed

theorem bare_proxies_exact_witness:
  "\<exists>nets. parse_trusted_proxies (''10.0.0.1'' @ '',10.0.0.7'') = Inr nets \<and> (\<exists>w\<in>set nets. in_network (IPv4 167772161) w)"
proof -
  have pre: "\<forall>s\<in>set [''10.0.0.1'', ''10.0.0.7'']. CHR ''/'' \<notin> set s \<and> CHR '','' \<notin> set s \<and> py_strip s = s \<and> ip_address_of s \<noteq> None"
    by (simp add: sample_addresses strip_by_def str_space_def)
  obtain nets where "parse_trusted_proxies (''10.0.0.1'' @ '',10.0.0.7'') = Inr nets"
    and exact: "\<forall>b. (\<exists>w\<in>set nets. in_network b w) \<longleftrightarrow> (\<exists>s\<in>set [''10.0.0.1'', ''10.0.0.7'']. ip_address_of s = Some b)"
    using bare_proxies_exact [OF pre] by auto
  moreover have "\<exists>w\<in>set nets. in_network (IPv4 167772161) w"
    using exact by (simp add: sample_addresses del: in_network.simps)
  ultimately show ?thesis by blast
qed

end
