(* ===== verification/Schema_Init.thy ===== *)
theory Schema_Init
  imports Configuration Database Crypto Credential_Registry Progress_Parser
begin

text \<open>
  \<^verbatim>\<open>app/db/schema_init.py\<close> and the connection pragmas of \<^verbatim>\<open>app/db/engine.py\<close>: bringing a database file
  up at boot, the first administrator, the password reset, and closing the runs a crash left open.
  The file holds its schema version, the objects that exist and their rows. A boot is the list of
  its lasting effects in order and its result, so a process that dies during the boot leaves the
  file after some initial part of these effects. \<^verbatim>\<open>executescript\<close> runs in autocommit mode, so each
  statement of the schema is an effect of its own, and so is the version; the seed, the reset and the
  recovery are transactions, one effect each. Random values and times are arguments.
\<close>

section \<open>The database file\<close>

record database_file =
  df_user_version :: int
  df_objects :: "pystr list"
  df_db :: database

definition empty_database :: database where
  "empty_database =
     \<lparr>db_users = [], db_sessions = [], db_api_tokens = [], db_targets = [], db_credentials = [],
      db_audit_log = [], db_next_audit_id = 1, db_history = [], db_settings = None, db_system = Map.empty\<rparr>"

definition new_database_file :: database_file where
  "new_database_file = \<lparr>df_user_version = 0, df_objects = [], df_db = empty_database\<rparr>"

definition SCHEMA_VERSION :: int where
  "SCHEMA_VERSION = 2"

definition ADMIN_USERNAME :: pystr where
  "ADMIN_USERNAME = ''admin''"

definition AUTOGEN_PASSWORD_LENGTH :: nat where
  "AUTOGEN_PASSWORD_LENGTH = 20"

definition PRAGMAS :: "(pystr \<times> pystr) list" where
  "PRAGMAS =
     [(''journal_mode'', ''WAL''), (''synchronous'', ''NORMAL''), (''foreign_keys'', ''ON''),
      (''busy_timeout'', ''5000''), (''temp_store'', ''MEMORY''), (''mmap_size'', ''67108864''),
      (''cache_size'', ''-32000'')]"

text \<open>The objects of \<^verbatim>\<open>schema.sql\<close> in the order of its statements.\<close>

definition SCHEMA_OBJECTS :: "pystr list" where
  "SCHEMA_OBJECTS =
     [''users'', ''sessions'', ''idx_sessions_user_id'', ''idx_sessions_expires_at'', ''api_tokens'',
      ''idx_api_tokens_user_id'', ''idx_api_tokens_revoked_at'', ''targets'', ''idx_targets_type'',
      ''idx_targets_enabled'', ''credentials'', ''audit_log'', ''idx_audit_log_at'',
      ''idx_audit_log_event_type'', ''idx_audit_log_target_id'', ''sessions_history'',
      ''idx_sessions_history_started_at'', ''idx_sessions_history_ended_at'', ''settings'', ''system'']"

datatype password_source = FromEnv | FromAutogen | FromReset

datatype boot_error =
  JournalModeError pystr | ObjectExists pystr | SchemaVersionMismatchError int int
| AutogenLengthError nat | RegistryRefused value_error | HashError crypto_error | BootDbError db_error

text \<open>The banner block is given by the name and the password it shows.\<close>

datatype boot_effect = WriteFile database_file | PrintBanner pystr pystr | RegisterSecret pystr

record init_result =
  ir_fresh :: bool
  ir_recovered_session_ids :: "pystr list"
  ir_password_source :: "password_source option"

text \<open>What SQLite answers to the journal pragma, the random values, and the times of the three
  transactions.\<close>

record boot_env =
  be_crypto :: crypto_lib
  be_journal_mode :: "pystr option"
  be_random_password :: pystr
  be_random_ingest_key :: pystr
  be_random_user_id :: pystr
  be_random_salt :: bytes
  be_seed_now :: datetime
  be_recover_now :: datetime
  be_isoformat_of :: "datetime \<Rightarrow> pystr"

section \<open>The schema\<close>

definition apply_pragmas :: "pystr option \<Rightarrow> boot_error option" where
  "apply_pragmas row =
     (let actual = map lower_char (case row of None \<Rightarrow> [] | Some m \<Rightarrow> m)
      in if actual \<noteq> map lower_char (the (map_of PRAGMAS ''journal_mode'')) then Some (JournalModeError actual)
         else None)"

fun executescript :: "pystr list \<Rightarrow> database_file \<Rightarrow> boot_effect list \<times> (boot_error + database_file)" where
  "executescript [] f = ([], Inr f)"
| "executescript (x # xs) f =
     (if x \<in> set (df_objects f) then ([], Inl (ObjectExists x))
      else (let f1 = f\<lparr>df_objects := df_objects f @ [x]\<rparr>
            in (case executescript xs f1 of (es, r) \<Rightarrow> (WriteFile f1 # es, r))))"

definition sync_bootstrap_schema ::
    "boot_env \<Rightarrow> database_file \<Rightarrow> boot_effect list \<times> (boot_error + bool \<times> database_file)" where
  "sync_bootstrap_schema env f =
     (case apply_pragmas (be_journal_mode env) of
        Some e \<Rightarrow> ([], Inl e)
      | None \<Rightarrow>
         (if df_user_version f = 0
          then (case executescript SCHEMA_OBJECTS f of
                  (es, Inl e) \<Rightarrow> (es, Inl e)
                | (es, Inr f1) \<Rightarrow>
                   (let f2 = f1\<lparr>df_user_version := SCHEMA_VERSION\<rparr>
                    in (es @ [WriteFile f2], Inr (True, f2))))
          else if df_user_version f \<noteq> SCHEMA_VERSION
          then ([], Inl (SchemaVersionMismatchError (df_user_version f) SCHEMA_VERSION))
          else ([], Inr (False, f))))"

section \<open>The administrator\<close>

definition resolve_bootstrap_password ::
    "boot_env \<Rightarrow> app_settings \<Rightarrow> boot_effect list \<times> (boot_error + pystr \<times> password_source)" where
  "resolve_bootstrap_password env s =
     (case as_admin_password s of
        Some p \<Rightarrow> ([], Inr (p, FromEnv))
      | None \<Rightarrow>
         (let raw = be_random_password env
          in if length raw \<noteq> AUTOGEN_PASSWORD_LENGTH then ([], Inl (AutogenLengthError (length raw)))
             else (case registry_register raw [] of
                     Inl e \<Rightarrow> ([PrintBanner ADMIN_USERNAME raw], Inl (RegistryRefused e))
                   | Inr r \<Rightarrow> ([PrintBanner ADMIN_USERNAME raw, RegisterSecret raw], Inr (raw, FromAutogen)))))"

definition source_name :: "password_source \<Rightarrow> pystr" where
  "source_name s = (case s of FromEnv \<Rightarrow> ''env'' | FromAutogen \<Rightarrow> ''autogen'' | FromReset \<Rightarrow> ''reset'')"

definition audit_system :: "pystr \<Rightarrow> (pystr \<times> json) list \<Rightarrow> datetime \<Rightarrow> database \<Rightarrow> db_error + database" where
  "audit_system event data t d =
     (case append_audit event (Some ''system'') None data t d of Inl e \<Rightarrow> Inl e | Inr (row, d') \<Rightarrow> Inr d')"

definition seed_initial_rows ::
    "boot_env \<Rightarrow> pystr \<Rightarrow> password_source \<Rightarrow> pystr \<Rightarrow> database \<Rightarrow> db_error + database" where
  "seed_initial_rows env phc source last4 d =
     (if db_settings d \<noteq> None then Inl IntegrityError
      else (let d1 = d\<lparr>db_settings := Some
                 \<lparr>se_first_run_complete = True, se_idle_timeout_seconds = 600, se_log_retention_days = 14,
                  se_ingest_key_current = be_random_ingest_key env, se_ingest_key_previous = None,
                  se_ingest_key_rotated_at = None, se_ingest_key_grace_until = None,
                  se_updated_at = stored_time (be_seed_now env)\<rparr>\<rparr>
            in (case create_user (be_random_user_id env) ADMIN_USERNAME phc (be_seed_now env) d1 of
                  Inl e \<Rightarrow> Inl e
                | Inr (user, d2) \<Rightarrow>
                   audit_system
                     (if source = FromAutogen then ''admin_password_autogenerated'' else ''admin_password_set'')
                     [(''source'', JString (source_name source)), (''last4'', JString last4)]
                     (be_seed_now env) d2)))"

definition reset_admin_password :: "boot_env \<Rightarrow> pystr \<Rightarrow> pystr \<Rightarrow> database \<Rightarrow> db_error + database" where
  "reset_admin_password env phc last4 d =
     audit_system ''admin_password_reset'' [(''source'', JString ''reset''), (''last4'', JString last4)]
       (be_seed_now env)
       (d\<lparr>db_users := update_where (\<lambda>r. us_username r = ADMIN_USERNAME) (\<lambda>r. r\<lparr>us_password_hash := phc\<rparr>) (db_users d),
          db_settings := map_option (\<lambda>r. r\<lparr>se_first_run_complete := True\<rparr>) (db_settings d)\<rparr>)"

section \<open>Interrupted runs\<close>

definition recovery_note :: pystr where
  "recovery_note =
     ''ended_at set to started_at; status snapshots are WebSocket-only and not persisted, so the true end time is unknown''"

definition recovery_data :: "boot_env \<Rightarrow> run_row \<Rightarrow> (pystr \<times> json) list" where
  "recovery_data env row =
     [(''session_id'', JString (rh_id row)), (''started_at'', JString (be_isoformat_of env (rh_started_at row))),
      (''reason'', JString ''control_plane_crash''), (''note'', JString recovery_note)]"

definition recover_row :: "boot_env \<Rightarrow> run_row \<Rightarrow> database \<Rightarrow> db_error + database" where
  "recover_row env row d =
     (case audit_system ''interrupted_session_recovered'' (recovery_data env row) (be_recover_now env) d of
        Inl e \<Rightarrow> Inl e
      | Inr d1 \<Rightarrow>
         Inr (d1\<lparr>db_history := update_where (\<lambda>r. rh_id r = rh_id row)
            (\<lambda>r. r\<lparr>rh_ended_at := Some (stored_time (rh_started_at row)),
                   rh_end_reason := Some ''control_plane_crash''\<rparr>) (db_history d1)\<rparr>))"

fun recover_rows :: "boot_env \<Rightarrow> run_row list \<Rightarrow> database \<Rightarrow> db_error + database" where
  "recover_rows env [] d = Inr d"
| "recover_rows env (r # rs) d = (case recover_row env r d of Inl e \<Rightarrow> Inl e | Inr d1 \<Rightarrow> recover_rows env rs d1)"

definition recover_interrupted_sessions :: "boot_env \<Rightarrow> database \<Rightarrow> db_error + pystr list \<times> database" where
  "recover_interrupted_sessions env d =
     (let rows = filter (\<lambda>r. rh_ended_at r = None) (db_history d)
      in (case recover_rows env rows d of Inl e \<Rightarrow> Inl e | Inr d1 \<Rightarrow> Inr (map rh_id rows, d1)))"

section \<open>The whole boot\<close>

text \<open>The administrator's part: on a fresh file the seed, otherwise the reset when it is asked for.\<close>

definition boot_admin ::
    "boot_env \<Rightarrow> app_settings \<Rightarrow> bool \<Rightarrow> database_file \<Rightarrow>
     boot_effect list \<times> (boot_error + password_source option \<times> database_file)" where
  "boot_admin env s fresh f =
     (if fresh
      then (case resolve_bootstrap_password env s of
              (es, Inl e) \<Rightarrow> (es, Inl e)
            | (es, Inr (password, source)) \<Rightarrow>
               (case hash_password (be_crypto env) (be_random_salt env) password of
                  Inl e \<Rightarrow> (es, Inl (HashError e))
                | Inr phc \<Rightarrow>
                   (case seed_initial_rows env phc source (tail_slice 4 password) (df_db f) of
                      Inl e \<Rightarrow> (es, Inl (BootDbError e))
                    | Inr d \<Rightarrow> (let f1 = f\<lparr>df_db := d\<rparr> in (es @ [WriteFile f1], Inr (Some source, f1))))))
      else (case as_admin_password s of
              None \<Rightarrow> ([], Inr (None, f))
            | Some password \<Rightarrow>
               (if \<not> as_reset_admin_password s then ([], Inr (None, f))
                else (case hash_password (be_crypto env) (be_random_salt env) password of
                        Inl e \<Rightarrow> ([], Inl (HashError e))
                      | Inr phc \<Rightarrow>
                         (case reset_admin_password env phc (tail_slice 4 password) (df_db f) of
                            Inl e \<Rightarrow> ([], Inl (BootDbError e))
                          | Inr d \<Rightarrow> (let f1 = f\<lparr>df_db := d\<rparr> in ([WriteFile f1], Inr (Some FromReset, f1))))))))"

definition initialize_schema ::
    "boot_env \<Rightarrow> app_settings \<Rightarrow> database_file \<Rightarrow> boot_effect list \<times> (boot_error + init_result \<times> database_file)" where
  "initialize_schema env s f =
     (case sync_bootstrap_schema env f of
        (es, Inl e) \<Rightarrow> (es, Inl e)
      | (es, Inr (fresh, f1)) \<Rightarrow>
     (case boot_admin env s fresh f1 of
        (es2, Inl e) \<Rightarrow> (es @ es2, Inl e)
      | (es2, Inr (source, f2)) \<Rightarrow>
     (case recover_interrupted_sessions env (df_db f2) of
        Inl e \<Rightarrow> (es @ es2, Inl (BootDbError e))
      | Inr (ids, d) \<Rightarrow>
         (let f3 = f2\<lparr>df_db := d\<rparr>
          in (es @ es2 @ [WriteFile f3],
              Inr (\<lparr>ir_fresh = fresh, ir_recovered_session_ids = ids, ir_password_source = source\<rparr>, f3))))))"

text \<open>The file a list of effects leaves behind, and a sequence of boots of which each may die after
  some of its effects.\<close>

fun file_after :: "database_file \<Rightarrow> boot_effect list \<Rightarrow> database_file" where
  "file_after f [] = f"
| "file_after f (WriteFile g # es) = file_after g es"
| "file_after f (PrintBanner u p # es) = file_after f es"
| "file_after f (RegisterSecret p # es) = file_after f es"

record boot_attempt =
  ba_env :: boot_env
  ba_settings :: app_settings
  ba_survives :: "nat option"

definition attempt_boot :: "database_file \<Rightarrow> boot_attempt \<Rightarrow> database_file" where
  "attempt_boot f a =
     (let es = fst (initialize_schema (ba_env a) (ba_settings a) f)
      in file_after f (case ba_survives a of None \<Rightarrow> es | Some k \<Rightarrow> take k es))"

section \<open>A boot closes the runs a crash left open\<close>

lemma audit_system_total:
  "audit_system event data t d =
    Inr (d\<lparr>db_audit_log := db_audit_log d @
          [\<lparr>al_id = db_next_audit_id d, al_at = stored_time t, al_event_type = event, al_actor = Some ''system'',
            al_target_id = None, al_data = data\<rparr>],
        db_next_audit_id := db_next_audit_id d + 1\<rparr>)"
  by (simp add: audit_system_def append_audit_def Let_def)

definition closed_by_crash :: "run_row \<Rightarrow> run_row" where
  "closed_by_crash r =
     r\<lparr>rh_ended_at := Some (stored_time (rh_started_at r)), rh_end_reason := Some ''control_plane_crash''\<rparr>"

definition but_history :: "database \<Rightarrow> database" where
  "but_history d = d\<lparr>db_history := [], db_audit_log := [], db_next_audit_id := 0\<rparr>"

lemma but_history_fields:
  assumes "but_history d = but_history e"
  shows "db_users d = db_users e" "db_sessions d = db_sessions e" "db_api_tokens d = db_api_tokens e"
    "db_credentials d = db_credentials e" "db_settings d = db_settings e" "db_targets d = db_targets e"
  using assms by (cases d; cases e; simp add: but_history_def)+

lemma recover_rows_result:
  assumes "\<forall>r\<in>set rs. \<forall>x\<in>set (db_history d). rh_id x = rh_id r \<longrightarrow> rh_started_at x = rh_started_at r"
  shows "\<exists>d' log. recover_rows env rs d = Inr d' \<and> but_history d' = but_history d \<and>
    db_history d' = map (\<lambda>x. if rh_id x \<in> rh_id ` set rs then closed_by_crash x else x) (db_history d) \<and>
    db_audit_log d' = db_audit_log d @ log \<and> map al_data log = map (recovery_data env) rs \<and>
    (\<forall>a\<in>set log. al_event_type a = ''interrupted_session_recovered'')"
  using assms
proof (induction rs arbitrary: d)
  case (Cons r rs)
  let ?a = "\<lparr>al_id = db_next_audit_id d, al_at = stored_time (be_recover_now env),
    al_event_type = ''interrupted_session_recovered'', al_actor = Some ''system'', al_target_id = None,
    al_data = recovery_data env r\<rparr>"
  define hist where "hist = map (\<lambda>x. if rh_id x = rh_id r then closed_by_crash x else x) (db_history d)"
  define d1 where "d1 = d\<lparr>db_audit_log := db_audit_log d @ [?a], db_next_audit_id := db_next_audit_id d + 1,
    db_history := hist\<rparr>"
  have "update_where (\<lambda>x. rh_id x = rh_id r)
      (\<lambda>x. x\<lparr>rh_ended_at := Some (stored_time (rh_started_at r)), rh_end_reason := Some ''control_plane_crash''\<rparr>)
      (db_history d) = hist"
    unfolding hist_def update_where_def using Cons.prems by (intro map_cong) (auto simp: closed_by_crash_def)
  then have d1: "recover_row env r d = Inr d1"
    by (simp add: recover_row_def audit_system_total d1_def)
  have h1: "db_history d1 = hist" and b1: "but_history d1 = but_history d"
    and l1: "db_audit_log d1 = db_audit_log d @ [?a]"
    by (simp_all add: d1_def but_history_def)
  have ids: "rh_id (closed_by_crash x) = rh_id x" "rh_started_at (closed_by_crash x) = rh_started_at x"
    "closed_by_crash (closed_by_crash x) = closed_by_crash x" for x
    by (simp_all add: closed_by_crash_def)
  have "\<forall>q\<in>set rs. \<forall>x\<in>set (db_history d1). rh_id x = rh_id q \<longrightarrow> rh_started_at x = rh_started_at q"
    using Cons.prems by (auto simp: h1 hist_def ids split: if_splits)
  from Cons.IH [OF this] obtain d' log where d': "recover_rows env rs d1 = Inr d'"
    "but_history d' = but_history d1"
    "db_history d' = map (\<lambda>x. if rh_id x \<in> rh_id ` set rs then closed_by_crash x else x) (db_history d1)"
    "db_audit_log d' = db_audit_log d1 @ log" "map al_data log = map (recovery_data env) rs"
    "\<forall>a\<in>set log. al_event_type a = ''interrupted_session_recovered''"
    by blast
  have "db_history d' = map (\<lambda>x. if rh_id x \<in> rh_id ` set (r # rs) then closed_by_crash x else x) (db_history d)"
    unfolding d'(3) h1 hist_def by (auto simp: ids)
  then show ?case
    using d1 d' b1 l1 by (intro exI [of _ d'] exI [of _ "?a # log"]) simp
qed (simp add: exI [of _ "[]"])

lemma recover_interrupted_result:
  assumes "distinct (map rh_id (db_history d))"
  defines "open_runs \<equiv> filter (\<lambda>r. rh_ended_at r = None) (db_history d)"
  shows "\<exists>d' log. recover_interrupted_sessions env d = Inr (map rh_id open_runs, d') \<and> but_history d' = but_history d \<and>
    db_history d' = map (\<lambda>x. if rh_ended_at x = None then closed_by_crash x else x) (db_history d) \<and>
    db_audit_log d' = db_audit_log d @ log \<and> map al_data log = map (recovery_data env) open_runs \<and>
    (\<forall>a\<in>set log. al_event_type a = ''interrupted_session_recovered'')"
proof -
  have same: "x = r" if "x \<in> set (db_history d)" "r \<in> set (db_history d)" "rh_id x = rh_id r" for x r
    using assms(1) that by (simp add: distinct_map inj_on_def)
  have "\<forall>r\<in>set open_runs. \<forall>x\<in>set (db_history d). rh_id x = rh_id r \<longrightarrow> rh_started_at x = rh_started_at r"
    unfolding open_runs_def using same by auto
  from recover_rows_result [OF this] obtain d' log where
    r: "recover_rows env open_runs d = Inr d'" "but_history d' = but_history d"
      "db_history d' = map (\<lambda>x. if rh_id x \<in> rh_id ` set open_runs then closed_by_crash x else x) (db_history d)"
      "db_audit_log d' = db_audit_log d @ log" "map al_data log = map (recovery_data env) open_runs"
      "\<forall>a\<in>set log. al_event_type a = ''interrupted_session_recovered''"
    by blast
  have "rh_id x \<in> rh_id ` set open_runs \<longleftrightarrow> rh_ended_at x = None" if "x \<in> set (db_history d)" for x
    unfolding open_runs_def using same that by (auto intro: rev_image_eqI)
  then have "db_history d' = map (\<lambda>x. if rh_ended_at x = None then closed_by_crash x else x) (db_history d)"
    unfolding r(3) by (intro map_cong) auto
  then show ?thesis
    using r by (intro exI [of _ d'] exI [of _ log]) (simp add: recover_interrupted_sessions_def open_runs_def)
qed

lemma hash_password_total: "p \<noteq> [] \<Longrightarrow> hash_password L salt p = Inr (phc_hash L p salt)"
  by (simp add: hash_password_def)

lemma file_after_append [simp]: "file_after f (xs @ ys) = file_after (file_after f xs) ys"
  by (induction f xs rule: file_after.induct) simp_all

lemma password_nonempty: "validate_settings s = Inr t \<Longrightarrow> as_admin_password s = Some p \<Longrightarrow> p \<noteq> []"
  using validate_settings_Inr(2) by force

text \<open>On an existing file the administrator's part cannot fail; it is the reset, or nothing.\<close>

lemma boot_admin_existing:
  assumes "validate_settings s = Inr t"
  shows "\<exists>es d1. boot_admin env s False f =
      (es, Inr (if as_reset_admin_password s then Some FromReset else None, f\<lparr>df_db := d1\<rparr>)) \<and>
    file_after f es = f\<lparr>df_db := d1\<rparr> \<and>
    (as_reset_admin_password s \<longrightarrow>
      (\<exists>p. as_admin_password s = Some p \<and> p \<noteq> [] \<and>
        reset_admin_password env (phc_hash (be_crypto env) p (be_random_salt env)) (tail_slice 4 p) (df_db f) = Inr d1)) \<and>
    (\<not> as_reset_admin_password s \<longrightarrow> es = [] \<and> d1 = df_db f)"
proof (cases "as_reset_admin_password s")
  case True
  then obtain p where p: "as_admin_password s = Some p" using validate_settings_Inr(5) [OF assms] by auto
  then have "p \<noteq> []" by (rule password_nonempty [OF assms])
  then show ?thesis using True p
    by (auto simp: boot_admin_def hash_password_total reset_admin_password_def audit_system_total Let_def)
next
  case False
  then show ?thesis by (cases "as_admin_password s") (simp_all add: boot_admin_def)
qed

lemma reset_frame:
  "reset_admin_password env phc last4 d = Inr d1 \<Longrightarrow>
    db_history d1 = db_history d \<and> db_sessions d1 = db_sessions d \<and> db_api_tokens d1 = db_api_tokens d \<and>
    db_users d1 = update_where (\<lambda>r. us_username r = ADMIN_USERNAME) (\<lambda>r. r\<lparr>us_password_hash := phc\<rparr>) (db_users d) \<and>
    (db_settings d1 = None \<longleftrightarrow> db_settings d = None) \<and> db_credentials d1 = db_credentials d \<and>
    map_option se_ingest_key_current (db_settings d1) = map_option se_ingest_key_current (db_settings d)"
  by (auto simp: reset_admin_password_def audit_system_total option.map_comp comp_def)

lemma initialize_existing:
  assumes "apply_pragmas (be_journal_mode env) = None" "df_user_version f = SCHEMA_VERSION" "validate_settings s = Inr t"
    "distinct (map rh_id (db_history (df_db f)))"
  shows "\<exists>es res d1 d2. initialize_schema env s f = (es, Inr (res, f\<lparr>df_db := d2\<rparr>)) \<and>
    file_after f es = f\<lparr>df_db := d2\<rparr> \<and> \<not> ir_fresh res \<and>
    ir_password_source res = (if as_reset_admin_password s then Some FromReset else None) \<and>
    recover_interrupted_sessions env d1 = Inr (ir_recovered_session_ids res, d2) \<and>
    db_history d1 = db_history (df_db f) \<and>
    (as_reset_admin_password s \<longrightarrow>
      (\<exists>p. as_admin_password s = Some p \<and> p \<noteq> [] \<and>
        reset_admin_password env (phc_hash (be_crypto env) p (be_random_salt env)) (tail_slice 4 p) (df_db f) = Inr d1)) \<and>
    (\<not> as_reset_admin_password s \<longrightarrow> d1 = df_db f)"
proof -
  obtain es d1 where admin: "boot_admin env s False f =
      (es, Inr (if as_reset_admin_password s then Some FromReset else None, f\<lparr>df_db := d1\<rparr>))"
    "file_after f es = f\<lparr>df_db := d1\<rparr>"
    "as_reset_admin_password s \<longrightarrow> (\<exists>p. as_admin_password s = Some p \<and> p \<noteq> [] \<and>
        reset_admin_password env (phc_hash (be_crypto env) p (be_random_salt env)) (tail_slice 4 p) (df_db f) = Inr d1)"
    "\<not> as_reset_admin_password s \<longrightarrow> es = [] \<and> d1 = df_db f"
    using boot_admin_existing [OF assms(3)] by blast
  have hist: "db_history d1 = db_history (df_db f)" using admin(3,4) reset_frame by (cases "as_reset_admin_password s") blast+
  obtain ids d2 where rec: "recover_interrupted_sessions env d1 = Inr (ids, d2)"
    using recover_interrupted_result [of d1 env] assms(4) hist by auto
  have boot: "sync_bootstrap_schema env f = ([], Inr (False, f))"
    using assms(1,2) by (simp add: sync_bootstrap_schema_def SCHEMA_VERSION_def)
  let ?r = "\<lparr>ir_fresh = False, ir_recovered_session_ids = ids,
    ir_password_source = (if as_reset_admin_password s then Some FromReset else None)\<rparr>"
  have "initialize_schema env s f = (es @ [WriteFile (f\<lparr>df_db := d2\<rparr>)], Inr (?r, f\<lparr>df_db := d2\<rparr>))"
    using admin(1) rec by (simp add: initialize_schema_def boot Let_def)
  then show ?thesis using admin(2-4) hist rec
    by (intro exI [of _ "es @ [WriteFile (f\<lparr>df_db := d2\<rparr>)]"] exI [of _ ?r] exI [of _ d1] exI [of _ d2]) simp
qed

text \<open>C9: Over a file of the current version every boot with valid settings returns. It closes
  exactly the runs a crash left open, each at its own start and with one audit entry naming it, reports their ids, and
  leaves every other run as it was; the boot after it finds nothing to recover.\<close>

theorem boot_recovers_runs:
  assumes "apply_pragmas (be_journal_mode env) = None" "df_user_version f = SCHEMA_VERSION" "validate_settings s = Inr t"
    "distinct (map rh_id (db_history (df_db f)))"
  shows "\<exists>es res f'. initialize_schema env s f = (es, Inr (res, f')) \<and> file_after f es = f' \<and>
    ir_recovered_session_ids res = map rh_id (filter (\<lambda>r. rh_ended_at r = None) (db_history (df_db f))) \<and>
    db_history (df_db f') = map (\<lambda>r. if rh_ended_at r = None then closed_by_crash r else r) (db_history (df_db f)) \<and>
    map al_data (filter (\<lambda>a. al_event_type a = ''interrupted_session_recovered'')
        (drop (length (db_audit_log (df_db f))) (db_audit_log (df_db f')))) =
      map (recovery_data env) (filter (\<lambda>r. rh_ended_at r = None) (db_history (df_db f))) \<and>
    history_active (df_db f') = None \<and>
    recover_interrupted_sessions env2 (df_db f') = Inr ([], df_db f')"
proof -
  obtain es res d1 d2 where boot: "initialize_schema env s f = (es, Inr (res, f\<lparr>df_db := d2\<rparr>))"
    "file_after f es = f\<lparr>df_db := d2\<rparr>" "recover_interrupted_sessions env d1 = Inr (ir_recovered_session_ids res, d2)"
    "db_history d1 = db_history (df_db f)"
    and prev: "as_reset_admin_password s \<longrightarrow> (\<exists>phc l4. reset_admin_password env phc l4 (df_db f) = Inr d1)"
      "\<not> as_reset_admin_password s \<longrightarrow> d1 = df_db f"
    using initialize_existing [OF assms] by blast
  have log1: "\<exists>l. db_audit_log d1 = db_audit_log (df_db f) @ l \<and>
      filter (\<lambda>a. al_event_type a = ''interrupted_session_recovered'') l = []"
    using prev by (cases "as_reset_admin_password s") (auto simp: reset_admin_password_def audit_system_total)
  from recover_interrupted_result [of d1 env] assms(4) boot(3,4) obtain log where
    r: "ir_recovered_session_ids res = map rh_id (filter (\<lambda>r. rh_ended_at r = None) (db_history (df_db f)))"
      "db_history d2 = map (\<lambda>x. if rh_ended_at x = None then closed_by_crash x else x) (db_history (df_db f))"
      "db_audit_log d2 = db_audit_log d1 @ log"
      "map al_data log = map (recovery_data env) (filter (\<lambda>r. rh_ended_at r = None) (db_history (df_db f)))"
      "\<forall>a\<in>set log. al_event_type a = ''interrupted_session_recovered''"
    by auto
  have none: "filter (\<lambda>r. rh_ended_at r = None) (db_history d2) = []"
    unfolding r(2) by (auto simp: filter_empty_conv closed_by_crash_def)
  have "recover_interrupted_sessions env2 d2 = Inr ([], d2)" "history_active d2 = None"
    using none by (simp_all add: recover_interrupted_sessions_def history_active_def)
  moreover have "filter (\<lambda>a. al_event_type a = ''interrupted_session_recovered'') log = log"
    using r(5) by (simp add: filter_id_conv)
  ultimately show ?thesis
    using boot(1,2) r log1 by (intro exI [of _ es] exI [of _ res] exI [of _ "f\<lparr>df_db := d2\<rparr>"]) auto
qed

definition sample_boot_env :: boot_env where
  "sample_boot_env =
     \<lparr>be_crypto = toy_lib, be_journal_mode = Some ''wal'', be_random_password = replicate 20 CHR ''p'',
      be_random_ingest_key = ''key'', be_random_user_id = ''u1'', be_random_salt = ''salt'', be_seed_now = 1000000,
      be_recover_now = 2000000, be_isoformat_of = (\<lambda>t. show_int t)\<rparr>"

definition sample_settings :: app_settings where
  "sample_settings = default_settings\<lparr>as_master_passphrase := Some ''correct horse''\<rparr>"

lemma sample_settings_valid: "validate_settings sample_settings = Inr sample_settings"
  by (simp add: validate_settings_def sample_settings_def default_settings_def validate_passphrase_source_def
      validate_admin_password_length_def validate_reset_flag_pairing_def MIN_PASSPHRASE_LENGTH_def)

lemma sample_wal: "apply_pragmas (be_journal_mode sample_boot_env) = None"
  by code_simp

definition sample_crashed :: database_file where
  "sample_crashed =
     \<lparr>df_user_version = 2, df_objects = SCHEMA_OBJECTS,
      df_db = empty_database\<lparr>db_history :=
        [\<lparr>rh_id = ''r1'', rh_started_at = 5000000, rh_ended_at = Some 9000000, rh_end_reason = Some ''user_stop'', rh_notes = []\<rparr>,
         \<lparr>rh_id = ''r2'', rh_started_at = 7000000, rh_ended_at = None, rh_end_reason = None, rh_notes = []\<rparr>]\<rparr>\<rparr>"

theorem boot_recovers_runs_witness:
  "\<exists>es res f'. initialize_schema sample_boot_env sample_settings sample_crashed = (es, Inr (res, f')) \<and>
    ir_recovered_session_ids res = [''r2'']"
proof -
  have "df_user_version sample_crashed = SCHEMA_VERSION" "distinct (map rh_id (db_history (df_db sample_crashed)))"
    by (simp_all add: sample_crashed_def SCHEMA_VERSION_def)
  from boot_recovers_runs [OF sample_wal this(1) sample_settings_valid this(2), where ?env2.0 = sample_boot_env]
  show ?thesis by (auto simp: sample_crashed_def)
qed

section \<open>The first boot\<close>

lemma executescript_fresh:
  assumes "distinct xs" "set xs \<inter> set (df_objects f) = {}"
  shows "executescript xs f =
    (map (\<lambda>i. WriteFile (f\<lparr>df_objects := df_objects f @ take (Suc i) xs\<rparr>)) [0..<length xs],
     Inr (f\<lparr>df_objects := df_objects f @ xs\<rparr>))"
  using assms
proof (induction xs arbitrary: f)
  case (Cons x xs)
  have "set xs \<inter> set (df_objects (f\<lparr>df_objects := df_objects f @ [x]\<rparr>)) = {}" "distinct xs" using Cons.prems by auto
  from Cons.IH [OF this(2,1)] Cons.prems show ?case
    by (simp add: map_upt_Suc del: upt_Suc)
qed simp

lemma schema_objects_distinct: "distinct SCHEMA_OBJECTS" "length SCHEMA_OBJECTS = 20"
  by code_simp+

definition schema_effects :: "boot_effect list" where
  "schema_effects =
     map (\<lambda>i. WriteFile (new_database_file\<lparr>df_objects := take (Suc i) SCHEMA_OBJECTS\<rparr>)) [0..<20]"

definition unseeded_file :: database_file where
  "unseeded_file = \<lparr>df_user_version = SCHEMA_VERSION, df_objects = SCHEMA_OBJECTS, df_db = empty_database\<rparr>"

lemma sync_bootstrap_new:
  assumes "apply_pragmas (be_journal_mode env) = None"
  shows "sync_bootstrap_schema env new_database_file =
    (schema_effects @ [WriteFile unseeded_file], Inr (True, unseeded_file))"
  using assms executescript_fresh [of SCHEMA_OBJECTS new_database_file] schema_objects_distinct
  by (simp add: sync_bootstrap_schema_def schema_effects_def new_database_file_def unseeded_file_def Let_def)

lemma registry_register_long: "12 \<le> length p \<Longrightarrow> \<exists>r. registry_register p [] = Inr r"
  by (simp add: registry_register_def MIN_REDACTABLE_SECRET_LENGTH_def)

lemma seed_initial_rows_empty:
  "\<exists>d u r. seed_initial_rows env phc source last4 empty_database = Inr d \<and> db_users d = [u] \<and>
    us_username u = ADMIN_USERNAME \<and> us_password_hash u = phc \<and> db_settings d = Some r \<and>
    se_ingest_key_current r = be_random_ingest_key env \<and> se_ingest_key_previous r = None \<and> db_history d = [] \<and>
    db_sessions d = [] \<and> db_api_tokens d = []"
  by (simp add: seed_initial_rows_def empty_database_def create_user_def user_by_username_def user_by_id_def
      one_or_none_def audit_system_total Let_def)

lemma recover_nothing:
  "db_history d = [] \<Longrightarrow> recover_interrupted_sessions env d = Inr ([], d)"
  by (simp add: recover_interrupted_sessions_def)

text \<open>The first boot over a new file with valid settings returns and leaves the current schema, one
  settings row and exactly one user, the administrator, whose password is the configured one; without one it is a
  random one, which is shown on the console. Every later boot that does not ask for a reset changes nothing, whatever
  password its settings name.\<close>

theorem fresh_boot_admin:
  assumes "apply_pragmas (be_journal_mode env) = None" "validate_settings s = Inr t"
    "length (be_random_password env) = AUTOGEN_PASSWORD_LENGTH"
    "\<forall>p salt. phc_verify (be_crypto env) (phc_hash (be_crypto env) p salt) p"
  shows "\<exists>es res f' p u r. initialize_schema env s new_database_file = (es, Inr (res, f')) \<and>
    file_after new_database_file es = f' \<and> ir_fresh res \<and> ir_recovered_session_ids res = [] \<and>
    df_user_version f' = SCHEMA_VERSION \<and> df_objects f' = SCHEMA_OBJECTS \<and>
    db_users (df_db f') = [u] \<and> us_username u = ADMIN_USERNAME \<and>
    us_password_hash u = phc_hash (be_crypto env) p (be_random_salt env) \<and> db_sessions (df_db f') = [] \<and> db_api_tokens (df_db f') = [] \<and>
    pv_ok (verify_password (be_crypto env) (us_password_hash u) p) \<and>
    (case as_admin_password s of
       Some q \<Rightarrow> p = q \<and> (\<forall>name shown. PrintBanner name shown \<notin> set es)
     | None \<Rightarrow> p = be_random_password env \<and> PrintBanner ADMIN_USERNAME p \<in> set es) \<and>
    db_settings (df_db f') = Some r \<and> se_ingest_key_current r = be_random_ingest_key env \<and>
    (\<forall>env2 s2. apply_pragmas (be_journal_mode env2) = None \<and> validate_settings s2 = Inr s2 \<and> \<not> as_reset_admin_password s2 \<longrightarrow>
       snd (initialize_schema env2 s2 f') =
         Inr (\<lparr>ir_fresh = False, ir_recovered_session_ids = [], ir_password_source = None\<rparr>, f'))"
proof -
  define p where "p = (case as_admin_password s of None \<Rightarrow> be_random_password env | Some q \<Rightarrow> q)"
  obtain es2 src where res: "resolve_bootstrap_password env s = (es2, Inr (p, src))" "file_after unseeded_file es2 = unseeded_file"
    "case as_admin_password s of Some q \<Rightarrow> es2 = [] | None \<Rightarrow> PrintBanner ADMIN_USERNAME p \<in> set es2"
    using registry_register_long [of "be_random_password env"] assms(3)
    by (cases "as_admin_password s")
      (auto simp: resolve_bootstrap_password_def p_def Let_def AUTOGEN_PASSWORD_LENGTH_def)
  have p: "p \<noteq> []"
    using password_nonempty [OF assms(2)] assms(3) by (auto simp: p_def AUTOGEN_PASSWORD_LENGTH_def split: option.splits)
  define phc where "phc = phc_hash (be_crypto env) p (be_random_salt env)"
  obtain d u r where seed: "seed_initial_rows env phc src (tail_slice 4 p) empty_database = Inr d" "db_users d = [u]"
    "us_username u = ADMIN_USERNAME" "us_password_hash u = phc" "db_settings d = Some r"
    "se_ingest_key_current r = be_random_ingest_key env" "db_history d = []" "db_sessions d = []"
    "db_api_tokens d = []"
    using seed_initial_rows_empty [of env phc src "tail_slice 4 p"] by blast
  let ?f = "unseeded_file\<lparr>df_db := d\<rparr>"
  let ?res = "\<lparr>ir_fresh = True, ir_recovered_session_ids = [], ir_password_source = Some src\<rparr>"
  let ?es = "(schema_effects @ [WriteFile unseeded_file]) @ (es2 @ [WriteFile ?f]) @ [WriteFile ?f]"
  have "df_db unseeded_file = empty_database" by (simp add: unseeded_file_def)
  then have "boot_admin env s True unseeded_file = (es2 @ [WriteFile ?f], Inr (Some src, ?f))"
    using res(1) seed(1) p by (simp add: boot_admin_def hash_password_total phc_def Let_def)
  then have boot: "initialize_schema env s new_database_file = (?es, Inr (?res, ?f))"
    using recover_nothing [OF seed(7), of env] by (simp add: initialize_schema_def sync_bootstrap_new [OF assms(1)] Let_def)
  have "pv_ok (verify_password (be_crypto env) phc p)"
    using assms(4) p by (simp add: verify_password_def phc_def)
  moreover have "PrintBanner n q \<notin> set schema_effects" for n q by (auto simp: schema_effects_def)
  moreover have "snd (initialize_schema env2 s2 ?f) =
      Inr (\<lparr>ir_fresh = False, ir_recovered_session_ids = [], ir_password_source = None\<rparr>, ?f)"
    if later: "apply_pragmas (be_journal_mode env2) = None" "validate_settings s2 = Inr s2" "\<not> as_reset_admin_password s2" for env2 s2
  proof -
    have fi: "df_user_version ?f = SCHEMA_VERSION" "distinct (map rh_id (db_history (df_db ?f)))" "df_db ?f = d"
      using seed(7) by (simp_all add: unseeded_file_def)
    obtain es3 res3 d1 d3 where "initialize_schema env2 s2 ?f = (es3, Inr (res3, ?f\<lparr>df_db := d3\<rparr>))" "\<not> ir_fresh res3"
      "ir_password_source res3 = (if as_reset_admin_password s2 then Some FromReset else None)"
      "recover_interrupted_sessions env2 d1 = Inr (ir_recovered_session_ids res3, d3)"
      "\<not> as_reset_admin_password s2 \<longrightarrow> d1 = df_db ?f"
      using initialize_existing [OF later(1) fi(1) later(2) fi(2)] by blast
    then have "initialize_schema env2 s2 ?f = (es3, Inr (res3, ?f\<lparr>df_db := d3\<rparr>))" "\<not> ir_fresh res3"
      "ir_password_source res3 = None" "recover_interrupted_sessions env2 d = Inr (ir_recovered_session_ids res3, d3)"
      using later(3) fi(3) by simp_all
    then show ?thesis using recover_nothing [OF seed(7), of env2] by (cases res3) simp
  qed
  ultimately show ?thesis
    using boot res seed p_def phc_def
    by (intro exI [of _ ?es] exI [of _ ?res] exI [of _ ?f] exI [of _ p] exI [of _ u] exI [of _ r])
      (auto simp: unseeded_file_def split: option.splits)
qed

theorem fresh_boot_admin_witness:
  "\<exists>es res f'. initialize_schema sample_boot_env sample_settings new_database_file = (es, Inr (res, f')) \<and>
    length (db_users (df_db f')) = 1 \<and> PrintBanner ADMIN_USERNAME (replicate 20 CHR ''p'') \<in> set es"
proof -
  have "length (be_random_password sample_boot_env) = AUTOGEN_PASSWORD_LENGTH"
    "\<forall>p salt. phc_verify (be_crypto sample_boot_env) (phc_hash (be_crypto sample_boot_env) p salt) p"
    by (simp_all add: sample_boot_env_def AUTOGEN_PASSWORD_LENGTH_def toy_lib_def)
  from fresh_boot_admin [OF sample_wal sample_settings_valid this] show ?thesis
    by (auto simp: sample_settings_def default_settings_def sample_boot_env_def)
qed

section \<open>A first boot that is cut short\<close>

definition unseeded :: "database_file \<Rightarrow> bool" where
  "unseeded f \<longleftrightarrow> ''users'' \<in> set (df_objects f) \<and> db_users (df_db f) = [] \<and> db_settings (df_db f) = None \<and>
     db_history (df_db f) = []"

lemma file_after_invariant:
  "P f \<Longrightarrow> (\<And>g. WriteFile g \<in> set es \<Longrightarrow> P g) \<Longrightarrow> P (file_after f es)"
  by (induction f es rule: file_after.induct) simp_all

lemma executescript_again:
  "''users'' \<in> set (df_objects f) \<Longrightarrow> executescript SCHEMA_OBJECTS f = ([], Inl (ObjectExists ''users''))"
  by (simp add: SCHEMA_OBJECTS_def)

lemma half_created_stays:
  assumes "''users'' \<in> set (df_objects f)" "df_user_version f = 0"
  shows "attempt_boot f a = f"
  using executescript_again [OF assms(1)] assms(2)
  by (auto simp: attempt_boot_def initialize_schema_def sync_bootstrap_schema_def split: option.splits)

lemma reset_unseeded:
  assumes "unseeded f" "reset_admin_password env phc last4 (df_db f) = Inr d"
  shows "unseeded (f\<lparr>df_db := d\<rparr>)"
  using assms reset_frame [OF assms(2)] by (simp add: unseeded_def update_where_def)

lemma initialize_unseeded:
  assumes "unseeded f" "WriteFile g \<in> set (fst (initialize_schema env s f))"
  shows "unseeded g \<and> df_user_version g = df_user_version f"
proof (cases "apply_pragmas (be_journal_mode env) = None \<and> df_user_version f = SCHEMA_VERSION")
  case False
  then have "fst (initialize_schema env s f) = []"
    using assms(1) executescript_again [of f]
    by (auto simp: initialize_schema_def sync_bootstrap_schema_def unseeded_def split: option.splits)
  then show ?thesis using assms(2) by simp
next
  case True
  then have sync: "sync_bootstrap_schema env f = ([], Inr (False, f))"
    by (simp add: sync_bootstrap_schema_def SCHEMA_VERSION_def)
  have admin: "(\<forall>h. WriteFile h \<in> set (fst (boot_admin env s False f)) \<longrightarrow> unseeded h \<and> df_user_version h = df_user_version f) \<and>
      (\<forall>src h. snd (boot_admin env s False f) = Inr (src, h) \<longrightarrow> unseeded h \<and> df_user_version h = df_user_version f)"
    using assms(1) reset_unseeded [OF assms(1)]
    by (auto simp: boot_admin_def Let_def split: option.splits sum.splits)
  obtain es2 r where b: "boot_admin env s False f = (es2, r)" by (cases "boot_admin env s False f")
  show ?thesis
  proof (cases r)
    case (Inr p)
    obtain src h where p: "p = (src, h)" by (cases p)
    have h: "unseeded h" "df_user_version h = df_user_version f" using admin b Inr p by auto
    then have rec: "recover_interrupted_sessions env (df_db h) = Inr ([], df_db h)"
      by (simp add: unseeded_def recover_nothing)
    have "h\<lparr>df_db := df_db h\<rparr> = h" by simp
    then have "fst (initialize_schema env s f) = es2 @ [WriteFile h]"
      using sync b Inr p rec by (simp add: initialize_schema_def Let_def)
    then show ?thesis using assms(2) admin b h by auto
  qed (use assms(2) admin b sync in \<open>simp add: initialize_schema_def\<close>)
qed

lemma attempt_unseeded:
  assumes "unseeded f" shows "unseeded (attempt_boot f a) \<and> df_user_version (attempt_boot f a) = df_user_version f"
proof -
  let ?es = "fst (initialize_schema (ba_env a) (ba_settings a) f)"
  have "unseeded (file_after f es) \<and> df_user_version (file_after f es) = df_user_version f" if "set es \<subseteq> set ?es" for es
    by (rule file_after_invariant [where P = "\<lambda>g. unseeded g \<and> df_user_version g = df_user_version f"])
      (use assms initialize_unseeded that in blast)+
  then show ?thesis by (auto simp: attempt_boot_def Let_def split: option.splits dest: in_set_takeD)
qed

lemma attempts_unseeded:
  "unseeded f \<Longrightarrow> unseeded (foldl attempt_boot f as) \<and> df_user_version (foldl attempt_boot f as) = df_user_version f"
  by (induction as arbitrary: f) (use attempt_unseeded in auto)

text \<open>The effects of a first boot: the schema, the version, the banner and its secret, and only then the seed.\<close>

lemma first_boot_effects:
  assumes "apply_pragmas (be_journal_mode env) = None"
  shows "\<exists>rest. fst (initialize_schema env s new_database_file) =
    schema_effects @ WriteFile unseeded_file # fst (resolve_bootstrap_password env s) @ rest"
  by (auto simp: initialize_schema_def sync_bootstrap_new [OF assms] boot_admin_def Let_def
      split: prod.splits sum.splits)

lemma banner_writes_nothing:
  assumes "e \<in> set (fst (resolve_bootstrap_password env s))" shows "\<not> (\<exists>g. e = WriteFile g)"
  using assms by (auto simp: resolve_bootstrap_password_def Let_def split: option.splits if_splits sum.splits)

lemma file_after_no_write: "\<forall>e\<in>set es. \<not> (\<exists>g. e = WriteFile g) \<Longrightarrow> file_after f es = f"
  by (induction f es rule: file_after.induct) auto

lemma cut_first_boot:
  assumes "apply_pragmas (be_journal_mode env) = None" "k \<le> 21 + length (fst (resolve_bootstrap_password env s))"
  shows "file_after new_database_file (take k (fst (initialize_schema env s new_database_file))) =
    (if 21 \<le> k then unseeded_file else new_database_file\<lparr>df_objects := take k SCHEMA_OBJECTS\<rparr>)"
proof -
  let ?banner = "fst (resolve_bootstrap_password env s)"
  have len: "length schema_effects = 20" by (simp add: schema_effects_def)
  obtain rest where es: "fst (initialize_schema env s new_database_file) = schema_effects @ WriteFile unseeded_file # ?banner @ rest"
    using first_boot_effects [OF assms(1)] by blast
  show ?thesis
  proof (cases "21 \<le> k")
    case True
    then have "take k (fst (initialize_schema env s new_database_file)) =
        (schema_effects @ [WriteFile unseeded_file]) @ take (k - 21) ?banner"
      using assms(2) len by (simp add: es take_Cons')
    moreover have "file_after unseeded_file (take (k - 21) ?banner) = unseeded_file"
      using banner_writes_nothing by (intro file_after_no_write) (metis in_set_takeD)
    ultimately show ?thesis using True by simp
  next
    case False
    show ?thesis
    proof (cases k)
      case 0
      then show ?thesis by (simp add: new_database_file_def)
    next
      case (Suc j)
      then have j: "k = Suc j" "j < 20" using False by simp_all
      then have "take k (fst (initialize_schema env s new_database_file)) =
        take j schema_effects @ [WriteFile (new_database_file\<lparr>df_objects := take k SCHEMA_OBJECTS\<rparr>)]"
        using len by (simp add: es take_Suc_conv_app_nth) (simp add: schema_effects_def del: upt_Suc)
      then show ?thesis using False by simp
    qed
  qed
qed

text \<open>C39: A first boot that dies after its first statement and before it committed the first user, so inside the schema,
  after the version was set, or after the password was shown on the console, is never made up for. Whatever boots
  follow, with whatever settings, resets included, there is never an administrator to log in as. Cut inside the schema, every
  later boot fails and leaves the file alone; cut after the version was set, later boots succeed. One that dies before its
  first statement leaves the file as new as it was.\<close>

theorem interrupted_first_boot_stuck:
  fixes s :: app_settings
  assumes "apply_pragmas (be_journal_mode env) = None" "k \<le> 21 + length (fst (resolve_bootstrap_password env s))"
  defines "torn \<equiv> file_after new_database_file (take k (fst (initialize_schema env s new_database_file)))"
  shows "if k = 0 then torn = new_database_file
    else user_by_username (df_db (foldl attempt_boot torn as)) ADMIN_USERNAME = None \<and>
    settings_get (df_db (foldl attempt_boot torn as)) = Inl SettingsMissing \<and>
    (k \<le> 20 \<longrightarrow> foldl attempt_boot torn as = torn \<and>
      (\<forall>env2 s2. apply_pragmas (be_journal_mode env2) = None \<longrightarrow>
        initialize_schema env2 s2 torn = ([], Inl (ObjectExists ''users'')))) \<and>
    (21 \<le> k \<longrightarrow> (\<forall>env2 s2. apply_pragmas (be_journal_mode env2) = None \<and> validate_settings s2 = Inr s2 \<longrightarrow>
        (\<exists>res f. snd (initialize_schema env2 s2 (foldl attempt_boot torn as)) = Inr (res, f))))"
proof (cases "k = 0")
  case True
  then show ?thesis by (simp add: torn_def)
next
  case False
  have torn: "torn = (if 21 \<le> k then unseeded_file else new_database_file\<lparr>df_objects := take k SCHEMA_OBJECTS\<rparr>)"
    unfolding torn_def by (rule cut_first_boot [OF assms(1,2)])
  have users: "''users'' \<in> set (take k SCHEMA_OBJECTS)" using False by (cases k) (simp_all add: SCHEMA_OBJECTS_def)
  have torn_ok: "unseeded torn"
    using users by (auto simp: torn unseeded_def unseeded_file_def new_database_file_def empty_database_def SCHEMA_OBJECTS_def)
  let ?f = "foldl attempt_boot torn as"
  have f: "unseeded ?f" "df_user_version ?f = df_user_version torn" using attempts_unseeded [OF torn_ok] by blast+
  have none: "user_by_username (df_db ?f) ADMIN_USERNAME = None" "settings_get (df_db ?f) = Inl SettingsMissing"
    using f(1) by (simp_all add: unseeded_def user_by_username_def one_or_none_def settings_get_def)
  have half: "?f = torn \<and> (\<forall>env2 s2. apply_pragmas (be_journal_mode env2) = None \<longrightarrow>
        initialize_schema env2 s2 torn = ([], Inl (ObjectExists ''users'')))" if "k \<le> 20"
  proof -
    have torn0: "''users'' \<in> set (df_objects torn)" "df_user_version torn = 0"
      using torn_ok that by (simp_all add: unseeded_def torn new_database_file_def)
    then have "foldl attempt_boot torn as = torn" by (induction as) (simp_all add: half_created_stays)
    then show ?thesis using torn0 executescript_again [OF torn0(1)]
      by (simp add: initialize_schema_def sync_bootstrap_schema_def)
  qed
  have "\<exists>res f. snd (initialize_schema env2 s2 ?f) = Inr (res, f)"
    if "21 \<le> k" "apply_pragmas (be_journal_mode env2) = None" "validate_settings s2 = Inr s2" for env2 s2
  proof -
    have "df_user_version ?f = SCHEMA_VERSION" "distinct (map rh_id (db_history (df_db ?f)))"
      using f that(1) by (simp_all add: torn unseeded_file_def unseeded_def)
    from initialize_existing [OF that(2) this(1) that(3) this(2)] show ?thesis by auto
  qed
  then show ?thesis using False none half by simp
qed

text \<open>Cut after the banner: two effects of the password are past, the seed is not.\<close>

theorem interrupted_first_boot_stuck_witness:
  "user_by_username (df_db (foldl attempt_boot
      (file_after new_database_file (take 23 (fst (initialize_schema sample_boot_env sample_settings new_database_file))))
      [\<lparr>ba_env = sample_boot_env, ba_settings = sample_settings, ba_survives = None\<rparr>])) ADMIN_USERNAME = None"
proof -
  have "length (fst (resolve_bootstrap_password sample_boot_env sample_settings)) = 2" by code_simp
  then show ?thesis
    using interrupted_first_boot_stuck [OF sample_wal, of 23 sample_settings
        "[\<lparr>ba_env = sample_boot_env, ba_settings = sample_settings, ba_survives = None\<rparr>]"] by simp
qed

section \<open>Resetting the password\<close>

lemma one_or_none_update_same:
  assumes "\<And>r. p (g r) \<longleftrightarrow> p r"
  shows "one_or_none p (update_where p g rows) = map_option g (one_or_none p rows)"
  unfolding one_or_none_def update_where_def by (induction rows) (simp_all add: assms)

lemma filter_update_other:
  "(\<And>r. p r \<Longrightarrow> \<not> q r \<and> \<not> q (g r)) \<Longrightarrow> filter q (update_where p g rows) = filter q rows"
  unfolding update_where_def by (induction rows) auto

text \<open>A boot with the reset flag returns, the administrator is the same user and the new
  password verifies, no other user changes, and every HTTP session and API token stays as it was: nobody
  is logged out.\<close>

theorem password_reset_effect:
  assumes "apply_pragmas (be_journal_mode env) = None" "df_user_version f = SCHEMA_VERSION" "validate_settings s = Inr t"
    "distinct (map rh_id (db_history (df_db f)))" "as_reset_admin_password s" "as_admin_password s = Some p"
    "user_by_username (df_db f) ADMIN_USERNAME = Some u"
    "\<forall>p salt. phc_verify (be_crypto env) (phc_hash (be_crypto env) p salt) p"
  shows "\<exists>es res f' phc. initialize_schema env s f = (es, Inr (res, f')) \<and> file_after f es = f' \<and>
    ir_password_source res = Some FromReset \<and>
    user_by_username (df_db f') ADMIN_USERNAME = Some (u\<lparr>us_password_hash := phc\<rparr>) \<and>
    pv_ok (verify_password (be_crypto env) phc p) \<and>
    filter (\<lambda>r. us_username r \<noteq> ADMIN_USERNAME) (db_users (df_db f')) =
      filter (\<lambda>r. us_username r \<noteq> ADMIN_USERNAME) (db_users (df_db f)) \<and>
    db_sessions (df_db f') = db_sessions (df_db f) \<and> db_api_tokens (df_db f') = db_api_tokens (df_db f)"
proof -
  let ?phc = "phc_hash (be_crypto env) p (be_random_salt env)"
  obtain es res d1 d2 where boot: "initialize_schema env s f = (es, Inr (res, f\<lparr>df_db := d2\<rparr>))"
    "file_after f es = f\<lparr>df_db := d2\<rparr>" "ir_password_source res = Some FromReset"
    "recover_interrupted_sessions env d1 = Inr (ir_recovered_session_ids res, d2)" "db_history d1 = db_history (df_db f)"
    "p \<noteq> []" "reset_admin_password env ?phc (tail_slice 4 p) (df_db f) = Inr d1"
    using initialize_existing [OF assms(1-4)] assms(5,6) by auto
  have "but_history d2 = but_history d1"
    using recover_interrupted_result [of d1 env] assms(4) boot(4,5) by auto
  then have d2: "db_users d2 = db_users d1" "db_sessions d2 = db_sessions d1" "db_api_tokens d2 = db_api_tokens d1"
    by (rule but_history_fields)+
  have d1: "db_users d1 = update_where (\<lambda>r. us_username r = ADMIN_USERNAME) (\<lambda>r. r\<lparr>us_password_hash := ?phc\<rparr>) (db_users (df_db f))"
    "db_sessions d1 = db_sessions (df_db f)" "db_api_tokens d1 = db_api_tokens (df_db f)"
    using reset_frame [OF boot(7)] by simp_all
  have "user_by_username d2 ADMIN_USERNAME = Some (u\<lparr>us_password_hash := ?phc\<rparr>)"
    using assms(7) by (simp add: user_by_username_def d2 d1 one_or_none_update_same)
  moreover have "pv_ok (verify_password (be_crypto env) ?phc p)"
    using assms(8) boot(6) by (simp add: verify_password_def)
  ultimately show ?thesis using boot(1-3)
    by (intro exI [of _ es] exI [of _ res] exI [of _ "f\<lparr>df_db := d2\<rparr>"] exI [of _ ?phc]) (simp add: d2 d1 filter_update_other)
qed

theorem password_reset_effect_witness:
  "\<exists>es res f'. initialize_schema sample_boot_env
      (sample_settings\<lparr>as_admin_password := Some ''correct staple'', as_reset_admin_password := True\<rparr>)
      (sample_crashed\<lparr>df_db := sample_db\<rparr>) = (es, Inr (res, f')) \<and> ir_password_source res = Some FromReset"
proof -
  let ?s = "sample_settings\<lparr>as_admin_password := Some ''correct staple'', as_reset_admin_password := True\<rparr>"
  let ?f = "sample_crashed\<lparr>df_db := sample_db\<rparr>"
  have "df_user_version ?f = SCHEMA_VERSION" "distinct (map rh_id (db_history (df_db ?f)))"
    "as_reset_admin_password ?s" "as_admin_password ?s = Some ''correct staple''"
    "\<forall>p salt. phc_verify (be_crypto sample_boot_env) (phc_hash (be_crypto sample_boot_env) p salt) p"
    by (simp_all add: sample_crashed_def SCHEMA_VERSION_def sample_db_def sample_boot_env_def toy_lib_def)
  moreover have "validate_settings ?s = Inr ?s"
    by (simp add: validate_settings_def sample_settings_def default_settings_def validate_passphrase_source_def
        validate_admin_password_length_def validate_reset_flag_pairing_def MIN_PASSPHRASE_LENGTH_def MIN_ADMIN_PASSWORD_LENGTH_def)
  moreover have "user_by_username (df_db ?f) ADMIN_USERNAME = Some (hd (db_users sample_db))"
    by (simp add: sample_db_def user_by_username_def one_or_none_def ADMIN_USERNAME_def)
  ultimately show ?thesis using password_reset_effect [OF sample_wal] by blast
qed

end
