(* ===== verification/Security_Api.thy ===== *)
theory Security_Api
  imports Targets_Api
begin

text \<open>
  The handlers of \<^verbatim>\<open>app/api/security_api.py\<close>: rotation of the master passphrase, the list of HTTP
  sessions and the revocation of one, and the about page. The salt files are a record of their
  contents; which file operation and which commit fails is part of the environment. The random salt
  and nonce drawn for a row are given by the row's id. The SHA-256 digest behind a session's public
  fingerprint is a parameter.
\<close>

section \<open>Rotating the passphrase\<close>

record rotate_request =
  ro_old_passphrase :: pystr
  ro_new_passphrase :: pystr

definition rotate_request_valid :: "rotate_request \<Rightarrow> bool" where
  "rotate_request_valid b \<longleftrightarrow> sized 1 4096 (ro_old_passphrase b) \<and> sized 12 4096 (ro_new_passphrase b)"

definition ROTATE_PASSPHRASE_TIMING_FLOOR_SECONDS :: rat where
  "ROTATE_PASSPHRASE_TIMING_FLOOR_SECONDS = 1"

text \<open>The files \<^verbatim>\<open>.kdf_salt\<close>, \<^verbatim>\<open>.kdf_salt.previous\<close> and \<^verbatim>\<open>.kdf_salt.new\<close>.\<close>

record salt_files =
  sf_salt :: "bytes option"
  sf_previous :: "bytes option"
  sf_new :: "bytes option"

record rotate_env =
  re_env :: sv_env
  re_mono :: rat
  re_new_salt :: bytes
  re_row_random :: "pystr \<Rightarrow> bytes \<times> bytes"
  re_previous_written :: bool
  re_new_written :: bool
  re_touched :: bool
  re_commits :: bool
  re_renamed :: bool
  re_audited :: bool
  re_elapsed :: rat

definition read_kdf_salt :: "salt_files \<Rightarrow> http_error + bytes" where
  "read_kdf_salt f =
     (case sf_salt f of
        None \<Rightarrow> Inl (Unhandled ''FileNotFoundError'')
      | Some blob \<Rightarrow> (if length blob \<noteq> KDF_SALT_LENGTH then Inl (Unhandled ''RuntimeError'') else Inr blob))"

text \<open>One row: opened under the old key, sealed again under the new one.\<close>

definition reseal_row ::
    "crypto_lib \<Rightarrow> bytes \<Rightarrow> bytes \<Rightarrow> bytes \<times> bytes \<Rightarrow> credential_row \<Rightarrow> http_error + bytes \<times> bytes \<times> bytes" where
  "reseal_row L old_kek new_kek rnd row =
     (case build_credential_aad (cr_salt row) of
        Inl e \<Rightarrow> Inl (Unhandled ''ValueError'')
      | Inr aad \<Rightarrow>
     (case aead_decrypt L old_kek (cr_nonce row) (cr_ciphertext row) aad of
        Inl e \<Rightarrow> Inl (if e = AEADDecryptionError then http_exception EC_NOT_FOUND 500 else Unhandled ''ValueError'')
      | Inr plaintext \<Rightarrow>
     (case build_credential_aad (fst rnd) of
        Inl e \<Rightarrow> Inl (Unhandled ''ValueError'')
      | Inr new_aad \<Rightarrow>
     (case aead_encrypt L (snd rnd) new_kek plaintext new_aad of
        Inl e \<Rightarrow> Inl (Unhandled ''ValueError'')
      | Inr (new_nonce, new_ct) \<Rightarrow> Inr (new_ct, new_nonce, fst rnd)))))"

fun rewrap_rows ::
    "crypto_lib \<Rightarrow> bytes \<Rightarrow> bytes \<Rightarrow> (pystr \<Rightarrow> bytes \<times> bytes) \<Rightarrow> credential_row list \<Rightarrow> database \<Rightarrow> http_error + database" where
  "rewrap_rows L old_kek new_kek rnd [] d = Inr d"
| "rewrap_rows L old_kek new_kek rnd (row # rows) d =
     (case reseal_row L old_kek new_kek (rnd (cr_id row)) row of
        Inl e \<Rightarrow> Inl e
      | Inr (ct, nonce, salt) \<Rightarrow>
          rewrap_rows L old_kek new_kek rnd rows (rewrap_credential (cr_id row) ct nonce salt d))"

record rotate_counts =
  rn_credentials :: int
  rn_sessions :: int
  rn_tokens :: int

text \<open>The one transaction; its effect is lost when a row or the commit fails.\<close>

definition rotate_transaction ::
    "rotate_env \<Rightarrow> bytes \<Rightarrow> bytes \<Rightarrow> database \<Rightarrow> http_error + rotate_counts \<times> database" where
  "rotate_transaction env old_kek new_kek d =
     (let rows = list_all_for_rewrap d
      in case rewrap_rows (ev_crypto (re_env env)) old_kek new_kek (re_row_random env) rows d of
           Inl e \<Rightarrow> Inl e
         | Inr d1 \<Rightarrow>
            (case delete_all_sessions d1 of
               (n, d2) \<Rightarrow>
                 (case delete_all_api_tokens d2 of
                    (m, d3) \<Rightarrow>
                      (if re_commits env
                       then Inr (\<lparr>rn_credentials = int (length rows), rn_sessions = n, rn_tokens = m\<rparr>, d3)
                       else Inl (Unhandled ''OperationalError'')))))"

text \<open>Inside the block whose handler removes the staging file: the commit of what the request wrote so
  far, which may fail, the transaction, the rename, the swap of the keys.\<close>

definition rotate_commit ::
    "rotate_env \<Rightarrow> derived_keys \<Rightarrow> derived_keys \<Rightarrow> database \<Rightarrow> app \<times> salt_files \<Rightarrow>
     (http_error + rotate_counts) \<times> app \<times> salt_files" where
  "rotate_commit env old_keys new_keys d st =
     (case st of (a, f) \<Rightarrow>
       (let a1 = set_db d a;
            cleaned = f\<lparr>sf_new := None\<rparr>
        in if \<not> re_touched env then (Inl (Unhandled ''OperationalError''), a, cleaned)
           else case rotate_transaction env (dk_stream_key_kek old_keys) (dk_stream_key_kek new_keys) d of
             Inl e \<Rightarrow> (Inl e, a1, cleaned)
           | Inr (counts, d1) \<Rightarrow>
              (let a2 = set_db d1 a1
               in if \<not> re_renamed env then (Inl (Unhandled ''OSError''), a2, cleaned)
                  else (let f1 = f\<lparr>sf_salt := sf_new f, sf_new := None\<rparr>
                        in case rotate_in_place (ap_keys a2) (re_new_salt env) new_keys of
                             Inl e \<Rightarrow> (Inl (Unhandled ''RuntimeError''), a2, f1)
                           | Inr km \<Rightarrow> (Inr counts, a2\<lparr>ap_sv := (ap_sv a2)\<lparr>sv_key_material := km\<rparr>\<rparr>, f1)))))"

text \<open>Under the lock, which the model takes and releases around it: nothing else runs in between.\<close>

definition rotate_locked ::
    "rotate_env \<Rightarrow> derived_keys \<Rightarrow> rotate_request \<Rightarrow> database \<Rightarrow> app \<times> salt_files \<Rightarrow>
     (http_error + rotate_counts) \<times> app \<times> salt_files" where
  "rotate_locked env old_keys body d st =
     (case st of (a, f) \<Rightarrow>
      (if sv_run_state (ap_sv a) \<noteq> OFFLINE then (Inl (http_exception EC_RUN_ACTIVE 409), a, f)
       else (case verify_passphrase (ev_crypto (re_env env)) (ap_keys a) (ro_old_passphrase body) of
          Inl e \<Rightarrow> (Inl (Unhandled ''ValueError''), a, f)
        | Inr False \<Rightarrow> (Inl (http_exception EC_INVALID_CREDENTIALS 401), a, f)
        | Inr True \<Rightarrow>
       (case derive_keys (ev_crypto (re_env env)) (re_new_salt env) (ro_new_passphrase body) of
          Inl e \<Rightarrow> (Inl (Unhandled ''ValueError''), a, f)
        | Inr new_keys \<Rightarrow>
       (case read_kdf_salt f of
          Inl e \<Rightarrow> (Inl e, a, f)
        | Inr old_salt \<Rightarrow>
           (if \<not> re_previous_written env then (Inl (Unhandled ''OSError''), a, f)
            else (let f1 = f\<lparr>sf_previous := Some old_salt\<rparr>
                  in if \<not> re_new_written env then (Inl (Unhandled ''OSError''), a, f1)
                     else rotate_commit env old_keys new_keys d (a, f1\<lparr>sf_new := Some (re_new_salt env)\<rparr>))))))))"

text \<open>The audit row is a transaction of its own: when it fails, the rotation is complete and the answer is 500.\<close>

definition rotate_passphrase ::
    "rotate_env \<Rightarrow> rotate_request \<Rightarrow> request \<Rightarrow> app \<times> salt_files \<Rightarrow>
     (http_error + cookie_kwargs) \<times> (app \<times> salt_files) \<times> rat" where
  "rotate_passphrase env body rq st =
     (case st of (a, f) \<Rightarrow>
      (case authenticate (re_env env) rq a of
         Inl e \<Rightarrow> (Inl e, (a, f), 0)
       | Inr (au, d) \<Rightarrow>
      (case require_unlocked_keys (ap_keys a) of
         Inl e \<Rightarrow> (Inl e, (a, f), 0)
       | Inr old_keys \<Rightarrow>
      (if \<not> rotate_request_valid body then (Inl validation_error, (a, f), 0)
       else
        (let pad = floor_pad ROTATE_PASSPHRASE_TIMING_FLOOR_SECONDS (re_elapsed env)
         in case require_reprompt_grant ROTATE_PASSPHRASE (re_mono env) rq (us_id (au_user au)) a of
              (Some e, a1) \<Rightarrow> (Inl e, (a1, f), pad)
            | (None, a1) \<Rightarrow>
               (if sv_run_state (ap_sv a1) \<noteq> OFFLINE then (Inl (http_exception EC_RUN_ACTIVE 409), (a1, f), pad)
                else if ro_old_passphrase body = ro_new_passphrase body
                then (Inl (http_exception EC_SAME_PASSPHRASE 422), (a1, f), pad)
                else if ap_rotation_locked a1 then (Inl (http_exception EC_RUN_ACTIVE 409), (a1, f), pad)
                else (case rotate_locked env old_keys body d (a1, f) of
                   (Inl e, a2, f2) \<Rightarrow> (Inl e, (a2, f2), pad)
                 | (Inr counts, a2, f2) \<Rightarrow>
                    if \<not> re_audited env then (Inl (Unhandled ''OperationalError''), (a2, f2), pad)
                    else (case then_respond
                       [audit_as (re_env env) au ''passphrase_rotated'' None
                          [(''credentials_rewrapped_count'', JInt (rn_credentials counts)),
                           (''sessions_revoked_count'', JInt (rn_sessions counts)),
                           (''api_tokens_revoked_count'', JInt (rn_tokens counts))]]
                       (\<lambda>a3. build_cookie_delete_kwargs (ap_cookie_secure a3)) a2 of
                       (r, a3) \<Rightarrow> (r, (a3, f2), pad)))))))))"

section \<open>HTTP sessions\<close>

definition SESSION_FINGERPRINT_HEX_CHARS :: nat where
  "SESSION_FINGERPRINT_HEX_CHARS = 16"

definition fingerprint :: "(bytes \<Rightarrow> pystr) \<Rightarrow> bytes \<Rightarrow> pystr" where
  "fingerprint sha256_hex th = take SESSION_FINGERPRINT_HEX_CHARS (sha256_hex th)"

record http_session_view =
  hv_id_fingerprint :: pystr
  hv_created_at :: datetime
  hv_last_seen_at :: datetime
  hv_ip :: "pystr option"
  hv_user_agent :: "pystr option"
  hv_is_current :: bool

definition session_view :: "(bytes \<Rightarrow> pystr) \<Rightarrow> authenticated \<Rightarrow> session_row \<Rightarrow> http_session_view" where
  "session_view sha au row =
     \<lparr>hv_id_fingerprint = fingerprint sha (hs_token_hash row), hv_created_at = hs_created_at row,
      hv_last_seen_at = hs_last_seen_at row, hv_ip = hs_ip row, hv_user_agent = hs_user_agent row,
      hv_is_current = (case au_session au of None \<Rightarrow> False | Some s \<Rightarrow> hs_token_hash row = hs_token_hash s)\<rparr>"

definition list_http_sessions ::
    "(bytes \<Rightarrow> pystr) \<Rightarrow> sv_env \<Rightarrow> request \<Rightarrow> app \<Rightarrow> (http_error + http_session_view list) \<times> app" where
  "list_http_sessions sha env rq a =
     with_session (\<lambda>d0. case authenticate env rq a of
         Inl e \<Rightarrow> Inl e
       | Inr (au, d) \<Rightarrow>
           Inr (map (session_view sha au) (list_active_for_user (us_id (au_user au)) (ev_now env) d), d)) a"

definition revoke_http_session ::
    "(bytes \<Rightarrow> pystr) \<Rightarrow> sv_env \<Rightarrow> pystr \<Rightarrow> request \<Rightarrow> app \<Rightarrow> (http_error + cookie_kwargs option) \<times> app" where
  "revoke_http_session sha env id_fingerprint rq a =
     (case authenticate env rq a of
        Inl e \<Rightarrow> (Inl e, a)
      | Inr (au, d) \<Rightarrow>
         (case find (\<lambda>row. fingerprint sha (hs_token_hash row) = id_fingerprint)
                (list_active_for_user (us_id (au_user au)) (ev_now env) d) of
            None \<Rightarrow> (Inl (http_exception EC_SESSION_NOT_FOUND 404), a)
          | Some match \<Rightarrow>
              then_respond
                [audit_as env au ''session_revoked'' None [(''fingerprint'', JString id_fingerprint)]]
                (\<lambda>a'. case au_session au of
                    None \<Rightarrow> None
                  | Some s \<Rightarrow> if hs_token_hash match = hs_token_hash s
                      then Some (build_cookie_delete_kwargs (ap_cookie_secure a')) else None)
                (set_db (delete_session (hs_token_hash match) d) a)))"

section \<open>About\<close>

definition LAST_REBOOTS_LIMIT :: int where
  "LAST_REBOOTS_LIMIT = 5"

record about_view =
  ab_version :: pystr
  ab_build_sha :: pystr
  ab_started_at :: datetime
  ab_uptime_seconds :: rat
  ab_last_reboots :: "datetime list"

definition get_about ::
    "pystr \<Rightarrow> pystr \<Rightarrow> datetime option \<Rightarrow> sv_env \<Rightarrow> request \<Rightarrow> app \<Rightarrow> (http_error + about_view) \<times> app" where
  "get_about version build_sha started env rq a =
     with_session (\<lambda>d0. case authenticate env rq a of
         Inl e \<Rightarrow> Inl e
       | Inr (au, d) \<Rightarrow>
          (case started of
             None \<Rightarrow> Inl (http_exception EC_AUTH_STATE_NOT_INITIALISED 500)
           | Some t \<Rightarrow>
              (case app_starts LAST_REBOOTS_LIMIT d of
                 Inl e \<Rightarrow> Inl (Unhandled ''ValueError'')
               | Inr reboots \<Rightarrow>
                   Inr (\<lparr>ab_version = version, ab_build_sha = (if build_sha = [] then ''dev'' else build_sha),
                      ab_started_at = t, ab_uptime_seconds = max 0 (of_int (ev_now env - t) / 10 ^ 6),
                      ab_last_reboots = reboots\<rparr>, d)))) a"

section \<open>Every credential survives a rotation\<close>

definition resealed ::
    "crypto_lib \<Rightarrow> bytes \<Rightarrow> bytes \<Rightarrow> (pystr \<Rightarrow> bytes \<times> bytes) \<Rightarrow> credential_row \<Rightarrow> credential_row" where
  "resealed L old_kek new_kek rnd r =
     (case reseal_row L old_kek new_kek (rnd (cr_id r)) r of
        Inl e \<Rightarrow> r
      | Inr (ct, nonce, salt) \<Rightarrow> r\<lparr>cr_ciphertext := ct, cr_nonce := nonce, cr_salt := salt\<rparr>)"

lemma resealed_ids [simp]:
  "cr_id (resealed L o_kek n_kek rnd r) = cr_id r" "cr_target_id (resealed L o_kek n_kek rnd r) = cr_target_id r"
  by (simp_all add: resealed_def split: sum.split prod.split)

lemma rewrap_rows_result:
  assumes "distinct (map cr_id (db_credentials d))" "set rows \<subseteq> set (db_credentials d)" "distinct (map cr_id rows)"
    "rewrap_rows L o_kek n_kek rnd rows d = Inr d'"
  shows "d' = d\<lparr>db_credentials := map (\<lambda>r. if r \<in> set rows then resealed L o_kek n_kek rnd r else r) (db_credentials d)\<rparr> \<and>
    (\<forall>r\<in>set rows. is_ok (reseal_row L o_kek n_kek (rnd (cr_id r)) r))"
  using assms
proof (induction rows arbitrary: d)
  case (Cons r0 rows)
  let ?g = "resealed L o_kek n_kek rnd"
  obtain ct nonce salt where r: "reseal_row L o_kek n_kek (rnd (cr_id r0)) r0 = Inr (ct, nonce, salt)"
    "rewrap_rows L o_kek n_kek rnd rows (rewrap_credential (cr_id r0) ct nonce salt d) = Inr d'"
    using Cons.prems(4) by (auto split: sum.splits)
  let ?d1 = "rewrap_credential (cr_id r0) ct nonce salt d"
  have r0: "r0 \<in> set (db_credentials d)" "?g r0 = r0\<lparr>cr_ciphertext := ct, cr_nonce := nonce, cr_salt := salt\<rparr>"
    using Cons.prems(2) r(1) by (simp_all add: resealed_def)
  have same: "r = r0" if "r \<in> set (db_credentials d)" "cr_id r = cr_id r0" for r
    using that r0(1) Cons.prems(1) by (auto simp: distinct_map inj_on_def)
  have creds: "db_credentials ?d1 = map (\<lambda>r. if r = r0 then ?g r0 else r) (db_credentials d)"
    using same by (auto simp: rewrap_credential_def update_where_def r0(2) intro!: map_cong)
  have fresh: "cr_id r \<noteq> cr_id r0" "r \<noteq> r0" if "r \<in> set rows" for r
    using imageI [OF that, of cr_id] that Cons.prems(3) by (metis distinct.simps(2) list.set_map list.simps(9))+
  have ids: "map cr_id (db_credentials ?d1) = map cr_id (db_credentials d)" by (rule rewrap_frame)
  have sub: "set rows \<subseteq> set (db_credentials ?d1)"
    using Cons.prems(2) fresh unfolding creds by (auto simp: image_iff)
  have "distinct (map cr_id rows)" using Cons.prems(3) by simp
  from Cons.IH [OF _ sub this r(2)] ids Cons.prems(1)
  have ih: "d' = ?d1\<lparr>db_credentials := map (\<lambda>r. if r \<in> set rows then ?g r else r) (db_credentials ?d1)\<rparr>"
    "\<forall>r\<in>set rows. is_ok (reseal_row L o_kek n_kek (rnd (cr_id r)) r)" by simp_all
  have "?g r0 \<notin> set rows" using fresh by (metis resealed_ids(1))
  then have "map (\<lambda>r. if r \<in> set rows then ?g r else r) (db_credentials ?d1) =
      map (\<lambda>r. if r \<in> set (r0 # rows) then ?g r else r) (db_credentials d)"
    unfolding creds using fresh by auto
  then show ?case using ih r(1) by (simp add: rewrap_credential_def)
qed simp

lemma resealed_opens:
  assumes "aead_correct L" "is_ok (reseal_row L o_kek n_kek (rnd (cr_id c)) c)"
    "length (snd (rnd (cr_id c))) = AEAD_NONCE_LENGTH" "open_credential L o_kek c = Opened key"
  shows "open_credential L n_kek (resealed L o_kek n_kek rnd c) = Opened key"
proof -
  obtain aad pt where o: "build_credential_aad (cr_salt c) = Inr aad"
    "aead_decrypt L o_kek (cr_nonce c) (cr_ciphertext c) aad = Inr pt" "utf8_decode pt = Some key"
    using assms(4) by (auto simp: open_credential_def split: sum.splits option.splits)
  obtain new_aad where n: "build_credential_aad (fst (rnd (cr_id c))) = Inr new_aad" "length n_kek = DERIVED_KEY_LENGTH"
    using assms(2) o by (auto simp: reseal_row_def aead_encrypt_def split: sum.splits if_splits)
  then have r: "resealed L o_kek n_kek rnd c = c\<lparr>cr_ciphertext := aesgcm_encrypt L n_kek (snd (rnd (cr_id c))) pt new_aad,
      cr_nonce := snd (rnd (cr_id c)), cr_salt := fst (rnd (cr_id c))\<rparr>"
    using o by (simp add: resealed_def reseal_row_def aead_encrypt_def)
  show ?thesis
    using assms(1,3) n o(3) unfolding r
    by (simp add: open_credential_def aead_decrypt_def aead_correct_def GCM_TAG_LENGTH_def)
qed

lemma one_or_none_map: "(\<And>r. p (f r) = p r) \<Longrightarrow> one_or_none p (map f rows) = map_option f (one_or_none p rows)"
  unfolding one_or_none_def by (induction rows) auto

lemma rotate_transaction_Inr:
  assumes "rotate_transaction env o_kek n_kek d = Inr (counts, d1)" "distinct (map cr_id (db_credentials d))"
  shows "db_sessions d1 = [] \<and> db_api_tokens d1 = [] \<and> db_audit_log d1 = db_audit_log d \<and>
    rn_credentials counts = int (length (db_credentials d)) \<and>
    db_credentials d1 = map (resealed (ev_crypto (re_env env)) o_kek n_kek (re_row_random env)) (db_credentials d) \<and>
    (\<forall>r\<in>set (db_credentials d). is_ok (reseal_row (ev_crypto (re_env env)) o_kek n_kek (re_row_random env (cr_id r)) r))"
proof -
  let ?rows = "list_all_for_rewrap d"
  obtain d0 where r: "rewrap_rows (ev_crypto (re_env env)) o_kek n_kek (re_row_random env) ?rows d = Inr d0"
    and c: "counts = \<lparr>rn_credentials = int (length ?rows), rn_sessions = fst (delete_all_sessions d0),
        rn_tokens = fst (delete_all_api_tokens (snd (delete_all_sessions d0)))\<rparr>"
    and d1: "d1 = snd (delete_all_api_tokens (snd (delete_all_sessions d0)))"
    using assms(1) by (auto simp: rotate_transaction_def Let_def split: sum.splits prod.splits if_splits)
  have rows: "set ?rows = set (db_credentials d)" "distinct (map cr_id ?rows)" "length ?rows = length (db_credentials d)"
    using assms(2) by (simp_all add: list_all_for_rewrap_def distinct_map)
  have "set ?rows \<subseteq> set (db_credentials d)" using rows(1) by simp
  from rewrap_rows_result [OF assms(2) this rows(2) r] rows c show ?thesis
    by (auto simp: d1 delete_all_sessions_def delete_all_api_tokens_def)
qed

text \<open>What a run of the handler under the lock did, by its result.\<close>

lemma rotate_locked_cases:
  assumes "rotate_locked env old_keys body d (a, f) = (r, a', f')"
  obtains (early) e where "r = Inl e" "a' = a" "sf_salt f' = sf_salt f"
  | (rest) old_salt new_keys where
      "verify_passphrase (ev_crypto (re_env env)) (ap_keys a) (ro_old_passphrase body) = Inr True"
      "derive_keys (ev_crypto (re_env env)) (re_new_salt env) (ro_new_passphrase body) = Inr new_keys"
      "sf_salt f = Some old_salt" "sv_run_state (ap_sv a) = OFFLINE"
      "rotate_commit env old_keys new_keys d (a, f\<lparr>sf_previous := Some old_salt, sf_new := Some (re_new_salt env)\<rparr>) = (r, a', f')"
  using assms
  by (auto simp: rotate_locked_def read_kdf_salt_def Let_def split: if_splits sum.splits bool.splits option.splits)

lemma rotate_passphrase_parts:
  assumes "rotate_passphrase env body rq (a, f) = (Inr ck, (a', f'), pad)"
  obtains au d old_keys a1 a2 counts where "authenticate (re_env env) rq a = Inr (au, d)"
    "require_unlocked_keys (ap_keys a) = Inr old_keys" "ap_sv a1 = ap_sv a"
    "rotate_locked env old_keys body d (a1, f) = (Inr counts, a2, f')"
    "a' = snd (audit_as (re_env env) au ''passphrase_rotated'' None
        [(''credentials_rewrapped_count'', JInt (rn_credentials counts)),
         (''sessions_revoked_count'', JInt (rn_sessions counts)),
         (''api_tokens_revoked_count'', JInt (rn_tokens counts))] a2)"
proof -
  obtain au d old_keys where au: "authenticate (re_env env) rq a = Inr (au, d)"
    "require_unlocked_keys (ap_keys a) = Inr old_keys"
    using assms by (auto simp: rotate_passphrase_def split: sum.splits)
  obtain a1 where g: "require_reprompt_grant ROTATE_PASSPHRASE (re_mono env) rq (us_id (au_user au)) a = (None, a1)"
    using assms au
    by (auto simp: rotate_passphrase_def Let_def split: if_splits prod.splits option.splits)
  show thesis
    using assms au g that require_reprompt_grant_frame [OF g]
    by (auto simp: rotate_passphrase_def Let_def split: if_splits prod.splits sum.splits option.splits)
qed

lemma rotation_result:
  assumes "rotate_passphrase env body rq (a, f) = (Inr ck, (a', f'), pad)"
    "aead_correct (ev_crypto (re_env env))" "distinct (map cr_id (db_credentials (ap_db a)))"
    "\<forall>i. length (snd (re_row_random env i)) = AEAD_NONCE_LENGTH"
  shows "\<exists>old_keys new_keys. km_keys (ap_keys a) = Some old_keys \<and> km_keys (ap_keys a') = Some new_keys \<and>
    (\<forall>tid c key. credential_for_target (ap_db a) tid = Some c \<longrightarrow>
       open_credential (ev_crypto (re_env env)) (dk_stream_key_kek old_keys) c = Opened key \<longrightarrow>
       (\<exists>c'. credential_for_target (ap_db a') tid = Some c' \<and>
          open_credential (ev_crypto (re_env env)) (dk_stream_key_kek new_keys) c' = Opened key)) \<and>
    sf_salt f' = Some (km_kdf_salt (ap_keys a')) \<and>
    derive_keys (ev_crypto (re_env env)) (km_kdf_salt (ap_keys a')) (ro_new_passphrase body) = Inr new_keys \<and>
    db_sessions (ap_db a') = [] \<and> db_api_tokens (ap_db a') = [] \<and> sf_previous f' = sf_salt f \<and> sf_new f' = None"
proof -
  let ?L = "ev_crypto (re_env env)"
  obtain au d old_keys a1 a2 counts where p: "authenticate (re_env env) rq a = Inr (au, d)"
    "require_unlocked_keys (ap_keys a) = Inr old_keys" "ap_sv a1 = ap_sv a"
    "rotate_locked env old_keys body d (a1, f) = (Inr counts, a2, f')"
    and a': "a' = snd (audit_as (re_env env) au ''passphrase_rotated'' None
        [(''credentials_rewrapped_count'', JInt (rn_credentials counts)),
         (''sessions_revoked_count'', JInt (rn_sessions counts)),
         (''api_tokens_revoked_count'', JInt (rn_tokens counts))] a2)"
    using assms(1) by (rule rotate_passphrase_parts)
  have old: "km_keys (ap_keys a) = Some old_keys"
    using p(2) by (auto simp: require_unlocked_keys_def require_ready_def split: if_splits option.splits)
  obtain old_salt new_keys where l: "derive_keys ?L (re_new_salt env) (ro_new_passphrase body) = Inr new_keys"
    "sf_salt f = Some old_salt"
    "rotate_commit env old_keys new_keys d (a1, f\<lparr>sf_previous := Some old_salt, sf_new := Some (re_new_salt env)\<rparr>) = (Inr counts, a2, f')"
    using p(4) by (rule rotate_locked_cases) auto
  then obtain d1 km where t: "rotate_transaction env (dk_stream_key_kek old_keys) (dk_stream_key_kek new_keys) d = Inr (counts, d1)"
    and km: "rotate_in_place (ap_keys a1) (re_new_salt env) new_keys = Inr km"
    and a2: "ap_db a2 = d1" "ap_keys a2 = km"
    and f': "f' = f\<lparr>sf_previous := Some old_salt, sf_salt := Some (re_new_salt env), sf_new := None\<rparr>"
    by (auto simp: rotate_commit_def Let_def set_db_def split: sum.splits prod.splits if_splits)
  have creds: "db_credentials d = db_credentials (ap_db a)"
    using require_authenticated_frame(3) [OF p(1) [unfolded authenticate_def]] .
  have dist: "distinct (map cr_id (db_credentials d))" using assms(3) by (simp add: creds)
  note tr = rotate_transaction_Inr [OF t dist]
  obtain d3 where d3: "a' = set_db d3 a2" "db_sessions d3 = db_sessions (ap_db a2)"
    "db_credentials d3 = db_credentials (ap_db a2)" "db_api_tokens d3 = db_api_tokens (ap_db a2)"
    using audit_frame a' unfolding audit_as_def by metis
  have "\<exists>c'. credential_for_target (ap_db a') tid = Some c' \<and> open_credential ?L (dk_stream_key_kek new_keys) c' = Opened key"
    if "credential_for_target (ap_db a) tid = Some c" "open_credential ?L (dk_stream_key_kek old_keys) c = Opened key" for tid c key
  proof -
    let ?g = "resealed ?L (dk_stream_key_kek old_keys) (dk_stream_key_kek new_keys) (re_row_random env)"
    have "c \<in> set (db_credentials d)"
      using one_or_none_SomeD [OF that(1) [unfolded credential_for_target_def]] by (simp add: creds)
    then have "open_credential ?L (dk_stream_key_kek new_keys) (?g c) = Opened key"
      using tr assms(2,4) that(2) by (intro resealed_opens) auto
    moreover have "credential_for_target (ap_db a') tid = Some (?g c)"
      using that(1) d3 a2 tr creds by (simp add: credential_for_target_def one_or_none_map)
    ultimately show ?thesis by blast
  qed
  moreover have "km_keys km = Some new_keys" "km_kdf_salt km = re_new_salt env"
    using km by (auto simp: rotate_in_place_def split: if_splits)
  ultimately show ?thesis using old l(1,2) d3 a2 f' tr by auto
qed

text \<open>C1: After a successful rotation every stream key that could be opened before
  opens under the keys in memory to the same text; these keys are the ones the new passphrase
  derives from the salt now on disk; every session and token is gone, the old salt is kept as the
  previous one and the staging file is gone.\<close>

theorem rotation_keeps_credentials:
  assumes "rotate_passphrase env body rq (a, f) = (Inr ck, (a', f'), pad)"
    "aead_correct (ev_crypto (re_env env))" "distinct (map cr_id (db_credentials (ap_db a)))"
    "\<forall>i. length (snd (re_row_random env i)) = AEAD_NONCE_LENGTH"
  shows "\<exists>old_keys new_keys. km_keys (ap_keys a) = Some old_keys \<and> km_keys (ap_keys a') = Some new_keys \<and>
    (\<forall>tid c key. credential_for_target (ap_db a) tid = Some c \<longrightarrow>
       open_credential (ev_crypto (re_env env)) (dk_stream_key_kek old_keys) c = Opened key \<longrightarrow>
       (\<exists>c'. credential_for_target (ap_db a') tid = Some c' \<and>
          open_credential (ev_crypto (re_env env)) (dk_stream_key_kek new_keys) c' = Opened key)) \<and>
    sf_salt f' = Some (km_kdf_salt (ap_keys a')) \<and>
    derive_keys (ev_crypto (re_env env)) (km_kdf_salt (ap_keys a')) (ro_new_passphrase body) = Inr new_keys \<and>
    db_sessions (ap_db a') = [] \<and> db_api_tokens (ap_db a') = [] \<and> sf_previous f' = sf_salt f \<and> sf_new f' = None"
  by (rule rotation_result [OF assms])

text \<open>A run with a stored credential and a grant; the flag says whether the rename succeeds.\<close>

definition sample_rotate_env :: "bool \<Rightarrow> rotate_env" where
  "sample_rotate_env renamed = \<lparr>re_env = sample_env_api, re_mono = 10, re_new_salt = replicate 16 CHR ''t'',
     re_row_random = (\<lambda>i. (replicate 16 CHR ''r'', replicate 12 CHR ''m'')), re_previous_written = True,
     re_new_written = True, re_touched = True, re_commits = True, re_renamed = renamed, re_audited = True, re_elapsed = 1 / 2\<rparr>"

definition sample_rotate :: rotate_request where
  "sample_rotate = \<lparr>ro_old_passphrase = ''old'', ro_new_passphrase = ''new passphrase''\<rparr>"

definition sample_unlocked_app :: app where
  "sample_unlocked_app =
     (let km = fst (unlock toy_lib \<lparr>km_kdf_salt = replicate 16 CHR ''s'', km_state = LOCKED, km_keys = None\<rparr> ''old'');
          ks = the (km_keys km);
          d = sample_session_db\<lparr>db_sessions := map (hs_token_hash_update
                (\<lambda>h. hmac_sha256 toy_lib (dk_session_token_mac_key ks) ''tok'')) (db_sessions sample_session_db)\<rparr>;
          a = (sample_grant_app ROTATE_PASSPHRASE)\<lparr>ap_sv := (ap_sv (sample_grant_app ROTATE_PASSPHRASE))
                \<lparr>sv_db := d, sv_key_material := km\<rparr>\<rparr>
      in snd (api_set_credential sample_env_api ''c1'' (replicate 16 CHR ''s'') (replicate 12 CHR ''n'') ''t1''
           ''live_key_7F2A'' sample_grant_request a))"

definition sample_files :: salt_files where
  "sample_files = \<lparr>sf_salt = Some (replicate 16 CHR ''s''), sf_previous = None, sf_new = None\<rparr>"

definition sample_rotated :: "bool \<Rightarrow> (http_error + cookie_kwargs) \<times> (app \<times> salt_files) \<times> rat" where
  "sample_rotated renamed = rotate_passphrase (sample_rotate_env renamed) sample_rotate sample_grant_request
     (sample_unlocked_app, sample_files)"

lemma sample_rotated_ok:
  "is_ok (fst (sample_rotated True))" "fst (sample_rotated False) = Inl (Unhandled ''OSError'')"
  "distinct (map cr_id (db_credentials (ap_db sample_unlocked_app)))"
  "map_option cr_last4 (credential_for_target (ap_db sample_unlocked_app) ''t1'') = Some ''7F2A''"
  by code_simp+

lemma toy_env: "aead_correct (ev_crypto (re_env (sample_rotate_env b)))"
  "\<forall>i. length (snd (re_row_random (sample_rotate_env b) i)) = AEAD_NONCE_LENGTH"
  using toy_lib_correct(1) by (simp_all add: sample_rotate_env_def sample_env_api_def AEAD_NONCE_LENGTH_def)

lemma sample_rotated_eq:
  "rotate_passphrase (sample_rotate_env b) sample_rotate sample_grant_request (sample_unlocked_app, sample_files) =
    (fst (sample_rotated b), (fst (fst (snd (sample_rotated b))), snd (fst (snd (sample_rotated b)))), snd (snd (sample_rotated b)))"
  by (simp add: sample_rotated_def)

theorem rotation_keeps_credentials_witness:
  "\<exists>ck. fst (sample_rotated True) = Inr ck \<and> sf_salt (snd (fst (snd (sample_rotated True)))) \<noteq> sf_salt sample_files \<and>
    sf_previous (snd (fst (snd (sample_rotated True)))) = sf_salt sample_files"
proof -
  obtain ck where ck: "fst (sample_rotated True) = Inr ck" using sample_rotated_ok(1) by (cases "fst (sample_rotated True)") auto
  note run = sample_rotated_eq [of True, unfolded ck]
  have "sf_salt (snd (fst (snd (sample_rotated True)))) \<noteq> sf_salt sample_files" by code_simp
  then show ?thesis
    using rotation_keeps_credentials [OF run toy_env(1) sample_rotated_ok(3) toy_env(2)] ck by blast
qed

section \<open>What a failed rotation leaves\<close>

lemma rotate_commit_error:
  assumes "rotate_commit env old_keys new_keys d (a, f) = (Inl e, a', f')" "re_renamed env"
    "km_state (ap_keys a) = READY" "length (re_new_salt env) = KDF_SALT_LENGTH"
  shows "(a' = a \<or> a' = set_db d a) \<and> sf_salt f' = sf_salt f \<and> sf_new f' = None"
  using assms
  by (auto simp: rotate_commit_def Let_def rotate_in_place_def set_db_def split: sum.splits prod.splits if_splits)

lemma rotate_passphrase_error:
  assumes "rotate_passphrase env body rq (a, f) = (Inl e, (a', f'), pad)"
  obtains (outside) "ap_sv a' = ap_sv a" "f' = f"
  | (inside) au d old_keys a1 where "authenticate (re_env env) rq a = Inr (au, d)"
    "require_unlocked_keys (ap_keys a) = Inr old_keys" "ap_sv a1 = ap_sv a"
    "rotate_locked env old_keys body d (a1, f) = (Inl e, a', f')"
  | (unaudited) au d old_keys a1 counts where "authenticate (re_env env) rq a = Inr (au, d)"
    "require_unlocked_keys (ap_keys a) = Inr old_keys" "\<not> re_audited env" "ap_sv a1 = ap_sv a"
    "rotate_locked env old_keys body d (a1, f) = (Inr counts, a', f')"
proof (cases "authenticate (re_env env) rq a")
  case (Inl e1)
  then show thesis using assms outside by (simp add: rotate_passphrase_def)
next
  case (Inr p)
  obtain au d where au: "authenticate (re_env env) rq a = Inr (au, d)" using Inr by (cases p) auto
  show thesis
  proof (cases "require_unlocked_keys (ap_keys a)")
    case (Inl e1)
    then show thesis using assms au outside by (simp add: rotate_passphrase_def)
  next
    case (Inr old_keys)
    obtain g a1 where g: "require_reprompt_grant ROTATE_PASSPHRASE (re_mono env) rq (us_id (au_user au)) a = (g, a1)"
      by (cases "require_reprompt_grant ROTATE_PASSPHRASE (re_mono env) rq (us_id (au_user au)) a")
    note sv = require_reprompt_grant_frame [OF g]
    show thesis
    proof (cases "rotate_locked env old_keys body d (a1, f)")
      case (fields r a2 f2)
      show thesis
        using assms au Inr g sv outside inside unaudited fields
        by (auto simp: rotate_passphrase_def Let_def audit_as_def split: if_splits prod.splits sum.splits option.splits)
          (metis audit_no_target fst_conv option.distinct(1))+
    qed
  qed
qed

lemma rotate_locked_done:
  assumes "rotate_locked env old_keys body d (a, f) = (Inr counts, a', f')"
  shows "\<exists>new_keys. derive_keys (ev_crypto (re_env env)) (re_new_salt env) (ro_new_passphrase body) = Inr new_keys \<and>
    rotate_transaction env (dk_stream_key_kek old_keys) (dk_stream_key_kek new_keys) d = Inr (counts, ap_db a') \<and>
    km_keys (ap_keys a') = Some new_keys \<and> km_kdf_salt (ap_keys a') = re_new_salt env \<and>
    sf_salt f' = Some (re_new_salt env) \<and> sf_previous f' = sf_salt f \<and> sf_new f' = None"
  using assms
proof (rule rotate_locked_cases)
  fix old_salt new_keys
  assume "derive_keys (ev_crypto (re_env env)) (re_new_salt env) (ro_new_passphrase body) = Inr new_keys"
    "sf_salt f = Some old_salt"
    "rotate_commit env old_keys new_keys d (a, f\<lparr>sf_previous := Some old_salt, sf_new := Some (re_new_salt env)\<rparr>) = (Inr counts, a', f')"
  then show ?thesis
    by (auto simp: rotate_commit_def Let_def set_db_def rotate_in_place_def split: sum.splits prod.splits if_splits)
qed simp

text \<open>C35: When the rename of the salt file does not fail, a rotation that answers with an error has left the
  credentials, the users, the keys in memory and the salt on disk as they were, wherever it failed before. The only other
  error is that of the last audit row: then the rotation is complete, the transaction committed, the new salt on disk
  and the keys of the new passphrase in memory.\<close>

theorem failed_rotation_harmless:
  assumes "rotate_passphrase env body rq (a, f) = (Inl e, (a', f'), pad)" "re_renamed env"
    "length (re_new_salt env) = KDF_SALT_LENGTH" "km_ok (ap_keys a)"
  shows "(db_credentials (ap_db a') = db_credentials (ap_db a) \<and> db_users (ap_db a') = db_users (ap_db a) \<and>
      ap_keys a' = ap_keys a \<and> sf_salt f' = sf_salt f) \<or>
    (\<not> re_audited env \<and> (\<exists>au d old_keys new_keys counts. authenticate (re_env env) rq a = Inr (au, d) \<and>
      km_keys (ap_keys a) = Some old_keys \<and>
      derive_keys (ev_crypto (re_env env)) (re_new_salt env) (ro_new_passphrase body) = Inr new_keys \<and>
      rotate_transaction env (dk_stream_key_kek old_keys) (dk_stream_key_kek new_keys) d = Inr (counts, ap_db a') \<and>
      km_keys (ap_keys a') = Some new_keys \<and> km_kdf_salt (ap_keys a') = re_new_salt env \<and>
      sf_salt f' = Some (re_new_salt env) \<and> sf_previous f' = sf_salt f \<and> sf_new f' = None))"
  using assms(1)
proof (rule rotate_passphrase_error)
  assume "ap_sv a' = ap_sv a" "f' = f"
  then show ?thesis by simp
next
  fix au d old_keys a1 counts
  assume p: "authenticate (re_env env) rq a = Inr (au, d)" "require_unlocked_keys (ap_keys a) = Inr old_keys"
    "\<not> re_audited env" "rotate_locked env old_keys body d (a1, f) = (Inr counts, a', f')"
  have "km_keys (ap_keys a) = Some old_keys"
    using p(2) by (auto simp: require_unlocked_keys_def require_ready_def split: if_splits option.splits)
  then show ?thesis using rotate_locked_done [OF p(4)] p(1,3) by blast
next
  fix au d old_keys a1
  assume p: "authenticate (re_env env) rq a = Inr (au, d)" "require_unlocked_keys (ap_keys a) = Inr old_keys"
    "ap_sv a1 = ap_sv a" "rotate_locked env old_keys body d (a1, f) = (Inl e, a', f')"
  note same = require_authenticated_frame(1,3) [OF p(1) [unfolded authenticate_def]]
  have ready: "km_state (ap_keys a1) = READY"
    using p(2,3) assms(4) by (auto simp: require_unlocked_keys_def require_ready_def km_ok_def split: if_splits option.splits)
  from p(4) show ?thesis
  proof (rule rotate_locked_cases)
    assume "a' = a1" "sf_salt f' = sf_salt f"
    then show ?thesis using p(3) by simp
  next
    fix old_salt new_keys
    assume "rotate_commit env old_keys new_keys d (a1, f\<lparr>sf_previous := Some old_salt, sf_new := Some (re_new_salt env)\<rparr>) =
      (Inl e, a', f')"
    from rotate_commit_error [OF this assms(2) ready assms(3)] show ?thesis
      using p(3) same by (auto simp: set_db_def)
  qed
qed

definition sample_lost_commit :: "(http_error + cookie_kwargs) \<times> (app \<times> salt_files) \<times> rat" where
  "sample_lost_commit = rotate_passphrase ((sample_rotate_env True)\<lparr>re_commits := False\<rparr>) sample_rotate sample_grant_request
     (sample_unlocked_app, sample_files)"

lemma sample_lost_commit_error: "fst sample_lost_commit = Inl (Unhandled ''OperationalError'')"
  by code_simp

lemma sample_keys_ok: "km_ok (ap_keys sample_unlocked_app)"
  "length (re_new_salt (sample_rotate_env b)) = KDF_SALT_LENGTH"
  unfolding km_ok_def by code_simp+

definition sample_unaudited :: "(http_error + cookie_kwargs) \<times> (app \<times> salt_files) \<times> rat" where
  "sample_unaudited = rotate_passphrase ((sample_rotate_env True)\<lparr>re_audited := False\<rparr>) sample_rotate sample_grant_request
     (sample_unlocked_app, sample_files)"

text \<open>A complete rotation answered with 500.\<close>

lemma unaudited_rotation_complete:
  "fst sample_unaudited = Inl (Unhandled ''OperationalError'')"
  "sf_salt (snd (fst (snd sample_unaudited))) = Some (replicate 16 CHR ''t'')"
  "km_kdf_salt (ap_keys (fst (fst (snd sample_unaudited)))) = replicate 16 CHR ''t''"
  "db_sessions (ap_db (fst (fst (snd sample_unaudited)))) = []"
  by code_simp+

theorem failed_rotation_harmless_witness:
  "db_credentials (ap_db (fst (fst (snd sample_lost_commit)))) = db_credentials (ap_db sample_unlocked_app) \<and>
    sf_salt (snd (fst (snd sample_lost_commit))) = sf_salt sample_files"
proof -
  have run: "rotate_passphrase ((sample_rotate_env True)\<lparr>re_commits := False\<rparr>) sample_rotate sample_grant_request
      (sample_unlocked_app, sample_files) =
    (Inl (Unhandled ''OperationalError''), (fst (fst (snd sample_lost_commit)), snd (fst (snd sample_lost_commit))),
      snd (snd sample_lost_commit))"
    using sample_lost_commit_error by (simp add: sample_lost_commit_def prod_eq_iff)
  show ?thesis
    using failed_rotation_harmless [OF run] sample_keys_ok by (simp add: sample_rotate_env_def)
qed

text \<open>When the rename is what fails, the credentials are already sealed under the
  keys of the new passphrase and the new salt, while the keys in memory and the salt on disk are
  the old ones; the clean-up has removed the staging file, so that no file holds the new salt.\<close>

theorem failed_rename_loses_salt:
  assumes "rotate_locked env old_keys body d (a, f) = (Inl (Unhandled ''OSError''), a', f')"
    "\<not> re_renamed env" "re_previous_written env" "re_new_written env"
    "aead_correct (ev_crypto (re_env env))" "distinct (map cr_id (db_credentials d))"
    "\<forall>i. length (snd (re_row_random env i)) = AEAD_NONCE_LENGTH"
  shows "\<exists>new_keys. derive_keys (ev_crypto (re_env env)) (re_new_salt env) (ro_new_passphrase body) = Inr new_keys \<and>
    (\<forall>tid c key. credential_for_target d tid = Some c \<longrightarrow>
       open_credential (ev_crypto (re_env env)) (dk_stream_key_kek old_keys) c = Opened key \<longrightarrow>
       (\<exists>c'. credential_for_target (ap_db a') tid = Some c' \<and>
          open_credential (ev_crypto (re_env env)) (dk_stream_key_kek new_keys) c' = Opened key)) \<and>
    ap_keys a' = ap_keys a \<and> sf_salt f' = sf_salt f \<and> sf_previous f' = sf_salt f \<and> sf_new f' = None"
proof -
  let ?L = "ev_crypto (re_env env)"
  obtain old_salt new_keys where l: "derive_keys ?L (re_new_salt env) (ro_new_passphrase body) = Inr new_keys"
    "sf_salt f = Some old_salt"
    "rotate_commit env old_keys new_keys d (a, f\<lparr>sf_previous := Some old_salt, sf_new := Some (re_new_salt env)\<rparr>) =
      (Inl (Unhandled ''OSError''), a', f')"
    using assms(1,3,4)
    by (auto simp: rotate_locked_def read_kdf_salt_def Let_def http_exception_def
        split: if_splits sum.splits bool.splits option.splits)
  have no: "rotate_transaction env o_kek n_kek d \<noteq> Inl (Unhandled ''OSError'')" for o_kek n_kek
  proof -
    have row: "reseal_row L o_kek n_kek p r \<noteq> Inl (Unhandled ''OSError'')" for L p r
      by (auto simp: reseal_row_def http_exception_def split: sum.splits prod.splits)
    have "rewrap_rows L o_kek n_kek rnd rows e \<noteq> Inl (Unhandled ''OSError'')" for L rnd rows e
    proof (induction rows arbitrary: e)
      case (Cons r rows)
      then show ?case using row [of L "rnd (cr_id r)" r] by (auto split: sum.splits prod.splits)
    qed simp
    then show ?thesis by (auto simp: rotate_transaction_def Let_def split: sum.splits prod.splits)
  qed
  obtain counts d1 where t: "rotate_transaction env (dk_stream_key_kek old_keys) (dk_stream_key_kek new_keys) d = Inr (counts, d1)"
    and a': "a' = set_db d1 (set_db d a)" "f' = f\<lparr>sf_previous := Some old_salt, sf_new := None\<rparr>"
    using l(3) assms(2) no by (auto simp: rotate_commit_def Let_def split: sum.splits prod.splits if_splits)
  note tr = rotate_transaction_Inr [OF t assms(6)]
  let ?g = "resealed ?L (dk_stream_key_kek old_keys) (dk_stream_key_kek new_keys) (re_row_random env)"
  have "\<exists>c'. credential_for_target (ap_db a') tid = Some c' \<and> open_credential ?L (dk_stream_key_kek new_keys) c' = Opened key"
    if "credential_for_target d tid = Some c" "open_credential ?L (dk_stream_key_kek old_keys) c = Opened key" for tid c key
  proof -
    have "c \<in> set (db_credentials d)"
      using one_or_none_SomeD [OF that(1) [unfolded credential_for_target_def]] by simp
    then have "open_credential ?L (dk_stream_key_kek new_keys) (?g c) = Opened key"
      using tr assms(5,7) that(2) by (intro resealed_opens) auto
    moreover have "credential_for_target (ap_db a') tid = Some (?g c)"
      using that(1) a' tr by (simp add: credential_for_target_def one_or_none_map)
    ultimately show ?thesis by blast
  qed
  then show ?thesis using l(1,2) a' by auto
qed

definition sample_old_keys :: derived_keys where
  "sample_old_keys = the (km_keys (ap_keys sample_unlocked_app))"

definition sample_unrenamed :: "(http_error + rotate_counts) \<times> app \<times> salt_files" where
  "sample_unrenamed = rotate_locked (sample_rotate_env False) sample_old_keys sample_rotate (ap_db sample_unlocked_app)
     (sample_unlocked_app, sample_files)"

lemma sample_unrenamed_error: "fst sample_unrenamed = Inl (Unhandled ''OSError'')"
  "re_previous_written (sample_rotate_env False) \<and> re_new_written (sample_rotate_env False) \<and> \<not> re_renamed (sample_rotate_env False)"
  by code_simp+

theorem failed_rename_loses_salt_witness:
  "sf_new (snd (snd sample_unrenamed)) = None \<and> sf_salt (snd (snd sample_unrenamed)) = sf_salt sample_files"
proof -
  have run: "rotate_locked (sample_rotate_env False) sample_old_keys sample_rotate (ap_db sample_unlocked_app)
      (sample_unlocked_app, sample_files) =
    (Inl (Unhandled ''OSError''), fst (snd sample_unrenamed), snd (snd sample_unrenamed))"
    using sample_unrenamed_error(1) by (simp add: sample_unrenamed_def prod_eq_iff)
  show ?thesis
    using failed_rename_loses_salt [OF run] sample_unrenamed_error(2) toy_env sample_rotated_ok(3) by blast
qed

end
