(* ===== verification/Lifespan.thy ===== *)
theory Lifespan
  imports Schema_Init Security_Api Reprompts Event_Bus
begin

text \<open>
  \<^verbatim>\<open>app/main.py\<close>: what the application factory and the lifespan do with the data directory before
  the first request and after the last one, the periodic removal of the previous salt, and the
  handler that serves the single-page frontend. Building the ASGI application, the routers and the
  background tasks is wiring; the tasks' steps are modelled in the theories of their components.
  What the file system answers is a parameter.
\<close>

section \<open>Start\<close>

record data_directory =
  dd_file :: database_file
  dd_salts :: salt_files

record lifespan_env =
  le_boot :: boot_env
  le_sv :: sv_env
  le_random_salt :: bytes
  le_version :: pystr
  le_build_sha :: pystr

datatype lifespan_error =
  SaltLengthError | LifespanKeyError key_error | LifespanBootError boot_error | LifespanValueError value_error
| LifespanDbError db_error | SupervisorStartError sv_error

definition create_app_keys :: "bytes \<Rightarrow> salt_files \<Rightarrow> salt_files \<times> (lifespan_error + key_material)" where
  "create_app_keys random f =
     (case load_or_create_kdf_salt (sf_salt f) random of
        None \<Rightarrow> (f, Inl SaltLengthError)
      | Some (salt, content) \<Rightarrow>
         (f\<lparr>sf_salt := Some content\<rparr>,
          (case new_key_material salt of Inl e \<Rightarrow> Inl (LifespanKeyError e) | Inr km \<Rightarrow> Inr km)))"

definition env_unlock :: "crypto_lib \<Rightarrow> app_settings \<Rightarrow> key_material \<Rightarrow> lifespan_error + key_material" where
  "env_unlock L s km =
     (case (as_passphrase_source s, as_master_passphrase s) of
        (EnvSource, Some p) \<Rightarrow>
          (case unlock L km p of (km', None) \<Rightarrow> Inr km' | (km', Some e) \<Rightarrow> Inl (LifespanKeyError e))
      | _ \<Rightarrow> Inr km)"

definition app_started_audit :: "lifespan_env \<Rightarrow> database \<Rightarrow> database" where
  "app_started_audit env d =
     (if ev_db (le_sv env) ''app_started'' \<noteq> Commits then d
      else catch (audit_system ''app_started''
             [(''version'', JString (le_version env)),
              (''build_sha'', JString (if le_build_sha env = [] then ''dev'' else le_build_sha env))]
             (ev_now (le_sv env)) d) d)"

text \<open>The redaction registry of the process holds the printed password, if one was printed.\<close>

definition boot_registry :: "boot_effect list \<Rightarrow> registry" where
  "boot_registry es = List.map_filter (\<lambda>e. case e of RegisterSecret p \<Rightarrow> Some p | _ \<Rightarrow> None) es"

definition ingest_loopback_url :: "pystr \<Rightarrow> pystr" where
  "ingest_loopback_url ingest_key = ''rtmp://127.0.0.1:1935/live/'' @ ingest_key"

text \<open>Limiters, grants and event bus; the constants are legal, so no constructor raises.\<close>

definition lifespan_stores :: "lifespan_error + rate_limiter \<times> rate_limiter \<times> reprompt_store \<times> bus_event event_bus" where
  "lifespan_stores =
     (case (new_rate_limiter DEFAULT_FAILURE_LIMIT DEFAULT_WINDOW_SECONDS, new_rate_limiter 3 (15 * 60),
            new_reprompt_store REPROMPT_GRANT_TTL_SECONDS, new_event_bus EVENT_BUS_CAPACITY) of
        (Inr l, Inr u, Inr r, Inr b) \<Rightarrow> Inr (l, u, r, b)
      | (Inl e, _, _, _) \<Rightarrow> Inl (LifespanValueError e)
      | (_, Inl e, _, _) \<Rightarrow> Inl (LifespanValueError e)
      | (_, _, Inl e, _) \<Rightarrow> Inl (LifespanValueError e)
      | (_, _, _, Inl e) \<Rightarrow> Inl (LifespanValueError e))"

definition read_ingest_key_now :: "database \<Rightarrow> lifespan_error + pystr" where
  "read_ingest_key_now d =
     (case settings_get d of Inl e \<Rightarrow> Inl (LifespanDbError e) | Inr r \<Rightarrow> Inr (se_ingest_key_current r))"

text \<open>The part of the lifespan after the schema: the application and the database it starts with.\<close>

definition start_services ::
    "lifespan_env \<Rightarrow> app_settings \<Rightarrow> key_material \<Rightarrow> registry \<Rightarrow> database \<Rightarrow> database \<times> (lifespan_error + app)" where
  "start_services env s km secrets d =
     (case env_unlock (ev_crypto (le_sv env)) s km of
        Inl e \<Rightarrow> (d, Inl e)
      | Inr km1 \<Rightarrow>
     (case lifespan_stores of
        Inl e \<Rightarrow> (d, Inl e)
      | Inr (logins, unlocks, grants, bus) \<Rightarrow>
     (let d1 = app_started_audit env d
      in case read_ingest_key_now d1 of
           Inl e \<Rightarrow> (d1, Inl e)
         | Inr ingest_key \<Rightarrow>
            (case run_begin (le_sv env) bus
                    (new_supervisor d1 km1 secrets (ingest_loopback_url ingest_key) (ev_mns (le_sv env))) of
               (sv, Some e) \<Rightarrow> (sv_db sv, Inl (SupervisorStartError e))
             | (sv, None) \<Rightarrow>
                (sv_db sv,
                 Inr \<lparr>ap_sv = sv, ap_limiter = logins, ap_unlock_limiter = unlocks, ap_reprompts = grants,
                      ap_trusted = as_trusted_proxies s, ap_rotation_locked = False,
                      ap_cookie_secure = as_cookie_secure s\<rparr>)))))"

definition lifespan_start ::
    "lifespan_env \<Rightarrow> app_settings \<Rightarrow> data_directory \<Rightarrow> data_directory \<times> (lifespan_error + app)" where
  "lifespan_start env s dir =
     (case create_app_keys (le_random_salt env) (dd_salts dir) of
        (salts, Inl e) \<Rightarrow> (dir\<lparr>dd_salts := salts\<rparr>, Inl e)
      | (salts, Inr km) \<Rightarrow>
     (case initialize_schema (le_boot env) s (dd_file dir) of
        (es, Inl e) \<Rightarrow> (\<lparr>dd_file = file_after (dd_file dir) es, dd_salts = salts\<rparr>, Inl (LifespanBootError e))
      | (es, Inr (res, f)) \<Rightarrow>
         (case start_services env s km (boot_registry es) (df_db f) of
            (d, r) \<Rightarrow> (\<lparr>dd_file = f\<lparr>df_db := d\<rparr>, dd_salts = salts\<rparr>, r))))"

text \<open>After the last request: the supervisor is stopped and its task group left.\<close>

definition lifespan_shutdown :: "sv_env \<Rightarrow> app \<Rightarrow> app" where
  "lifespan_shutdown env a = a\<lparr>ap_sv := run_end (sv_stop env (ap_sv a))\<rparr>"

section \<open>Periodic tasks\<close>

definition KDF_SALT_PREVIOUS_GRACE :: timedelta where
  "KDF_SALT_PREVIOUS_GRACE = minutes (24 * 60)"

definition reprompt_pruner_tick :: "rat \<Rightarrow> app \<Rightarrow> app" where
  "reprompt_pruner_tick now a = set_reprompts (snd (rp_prune_expired now (ap_reprompts a))) a"

text \<open>The previous salt's file with its modification time, and what the file system does in one tick.\<close>

datatype cleanup_io = Unlinks | Vanished | RaisesOSError

definition kdf_cleanup_tick ::
    "datetime \<times> cleanup_io \<times> bool \<Rightarrow> (datetime \<times> bytes) option \<times> database \<Rightarrow> (datetime \<times> bytes) option \<times> database" where
  "kdf_cleanup_tick tick st =
     (case (tick, st) of
        ((now, io, audits), (file, d)) \<Rightarrow>
          (case file of
             None \<Rightarrow> (file, d)
           | Some (mtime, content) \<Rightarrow>
              (if now - mtime < KDF_SALT_PREVIOUS_GRACE then (file, d)
               else (case io of
                       RaisesOSError \<Rightarrow> (file, d)
                     | Vanished \<Rightarrow> (None, d)
                     | Unlinks \<Rightarrow>
                        (None, if audits then catch (audit_system ''kdf_salt_previous_cleared'' [] now d) d else d)))))"

section \<open>The frontend\<close>

definition SPA_API_PREFIXES :: "pystr list" where
  "SPA_API_PREFIXES = [''api/'', ''internal/'', ''ws'', ''livez'', ''readyz'']"

definition SPA_MAX_PATH_LEN :: nat where
  "SPA_MAX_PATH_LEN = 1024"

text \<open>\<open>spa_resolve\<close> is the resolved path of the directory joined with the request path, \<open>None\<close> when
  resolving raises; \<open>spa_is_file\<close> is \<open>None\<close> when the call raises.\<close>

record spa_files =
  spa_root :: "pystr list"
  spa_resolve :: "pystr \<Rightarrow> pystr list option"
  spa_is_file :: "pystr list \<Rightarrow> bool option"

datatype spa_response = SpaFile "pystr list" | SpaIndex | SpaNotFound

definition spa_fallback :: "spa_files \<Rightarrow> pystr \<Rightarrow> spa_response" where
  "spa_fallback fs full_path =
     (if \<exists>p\<in>set SPA_API_PREFIXES. prefix p full_path then SpaNotFound
      else if length full_path > SPA_MAX_PATH_LEN then SpaIndex
      else (case spa_resolve fs full_path of
              None \<Rightarrow> SpaNotFound
            | Some candidate \<Rightarrow>
               (if \<not> prefix (spa_root fs) candidate then SpaNotFound
                else (case spa_is_file fs candidate of
                        Some True \<Rightarrow> SpaFile candidate
                      | _ \<Rightarrow> SpaIndex))))"

section \<open>A start over an existing directory\<close>

lemma lifespan_stores_eq:
  "lifespan_stores = Inr
    (\<lparr>rl_limit = 5, rl_window = 15 * 60, rl_by_ip = [], rl_by_username = []\<rparr>,
     \<lparr>rl_limit = 3, rl_window = 15 * 60, rl_by_ip = [], rl_by_username = []\<rparr>,
     \<lparr>rp_ttl = 60, rp_grants = []\<rparr>, \<lparr>bus_buf = [], bus_capacity = EVENT_BUS_CAPACITY, dropped_total = 0\<rparr>)"
  by (simp add: lifespan_stores_def new_rate_limiter_def new_reprompt_store_def new_event_bus_def
      DEFAULT_FAILURE_LIMIT_def DEFAULT_WINDOW_SECONDS_def REPROMPT_GRANT_TTL_SECONDS_def EVENT_BUS_CAPACITY_def)

lemma app_started_frame: "\<exists>log n. app_started_audit env d = d\<lparr>db_audit_log := log, db_next_audit_id := n\<rparr>"
proof -
  have "\<exists>log n. d = d\<lparr>db_audit_log := log, db_next_audit_id := n\<rparr>"
    by (rule exI [of _ "db_audit_log d"], rule exI [of _ "db_next_audit_id d"]) simp
  then show ?thesis by (cases "ev_db (le_sv env) ''app_started'' = Commits") (auto simp: app_started_audit_def audit_system_total)
qed

lemma run_begin_ready:
  assumes "ev_db env ''supervisor_started'' = Commits"
  shows "\<exists>log n s1. run_begin env b s = (s1, None) \<and> sv_ready_event s1 \<and>
    sv_db s1 = (sv_db s)\<lparr>db_audit_log := log, db_next_audit_id := n\<rparr> \<and>
    sv_key_material s1 = sv_key_material s \<and> sv_run_state s1 = sv_run_state s \<and> sv_workers s1 = sv_workers s \<and>
    sv_loopback_url s1 = sv_loopback_url s \<and> sv_registry s1 = sv_registry s"
  using assms by (auto simp: run_begin_def sv_audit_def append_audit_def update_heartbeat_def Let_def)

text \<open>What the settings make of the keys.\<close>

definition boot_keys :: "crypto_lib \<Rightarrow> app_settings \<Rightarrow> bytes \<Rightarrow> key_material \<Rightarrow> bool" where
  "boot_keys L s salt km \<longleftrightarrow> km_kdf_salt km = salt \<and>
     (case as_passphrase_source s of
        EnvSource \<Rightarrow> (\<exists>p ks. as_master_passphrase s = Some p \<and> derive_keys L salt p = Inr ks \<and>
          km_state km = READY \<and> km_keys km = Some ks)
      | PasteSource \<Rightarrow> km_state km = LOCKED \<and> km_keys km = None)"

lemma env_unlock_keys:
  assumes "validate_settings s = Inr t" "length salt = KDF_SALT_LENGTH" "kdf_lengths L"
  shows "\<exists>km. env_unlock L s \<lparr>km_kdf_salt = salt, km_state = LOCKED, km_keys = None\<rparr> = Inr km \<and> boot_keys L s salt km"
proof (cases "as_passphrase_source s")
  case EnvSource
  then obtain p where p: "as_master_passphrase s = Some p" "12 \<le> length p"
    using validate_settings_Inr(3) [OF assms(1)] by blast
  then have "p \<noteq> []" by auto
  moreover from this obtain ks where "derive_keys L salt p = Inr ks" using derive_keys_total [OF assms(3,2)] by blast
  ultimately show ?thesis using EnvSource p
    by (simp add: env_unlock_def boot_keys_def unlock_def unlock_begin_def unlock_finish_def)
qed (simp add: env_unlock_def boot_keys_def)

lemma start_services_ready:
  assumes "validate_settings s = Inr t" "length salt = KDF_SALT_LENGTH" "kdf_lengths (ev_crypto (le_sv env))"
    "db_settings d = Some r" "ev_db (le_sv env) ''supervisor_started'' = Commits"
  shows "\<exists>d' a log n. start_services env s \<lparr>km_kdf_salt = salt, km_state = LOCKED, km_keys = None\<rparr> secrets d = (d', Inr a) \<and>
    ap_db a = d' \<and> d' = d\<lparr>db_audit_log := log, db_next_audit_id := n\<rparr> \<and>
    boot_keys (ev_crypto (le_sv env)) s salt (ap_keys a) \<and>
    sv_ready_event (ap_sv a) \<and> sv_run_state (ap_sv a) = OFFLINE \<and> sv_workers (ap_sv a) = [] \<and>
    sv_loopback_url (ap_sv a) = ingest_loopback_url (se_ingest_key_current r) \<and> sv_registry (ap_sv a) = secrets \<and>
    rl_limit (ap_limiter a) = 5 \<and> rl_limit (ap_unlock_limiter a) = 3 \<and> rp_grants (ap_reprompts a) = [] \<and>
    ap_trusted a = as_trusted_proxies s \<and> \<not> ap_rotation_locked a \<and>
    ap_cookie_secure a = as_cookie_secure s \<and> rl_by_ip (ap_limiter a) = [] \<and> rl_by_username (ap_limiter a) = []"
proof -
  obtain km where km: "env_unlock (ev_crypto (le_sv env)) s \<lparr>km_kdf_salt = salt, km_state = LOCKED, km_keys = None\<rparr> = Inr km"
    "boot_keys (ev_crypto (le_sv env)) s salt km"
    using env_unlock_keys [OF assms(1-3)] by blast
  obtain log n where d1: "app_started_audit env d = d\<lparr>db_audit_log := log, db_next_audit_id := n\<rparr>"
    using app_started_frame by blast
  have key: "read_ingest_key_now (app_started_audit env d) = Inr (se_ingest_key_current r)"
    using assms(4) by (simp add: d1 read_ingest_key_now_def settings_get_def)
  let ?b = "\<lparr>bus_buf = [], bus_capacity = EVENT_BUS_CAPACITY, dropped_total = 0\<rparr>"
  let ?new = "new_supervisor (app_started_audit env d) km secrets (ingest_loopback_url (se_ingest_key_current r)) (ev_mns (le_sv env))"
  obtain log' n' s1 where s1: "run_begin (le_sv env) ?b ?new = (s1, None)" "sv_ready_event s1"
    "sv_db s1 = (sv_db ?new)\<lparr>db_audit_log := log', db_next_audit_id := n'\<rparr>"
    "sv_key_material s1 = sv_key_material ?new" "sv_run_state s1 = sv_run_state ?new" "sv_workers s1 = sv_workers ?new"
    "sv_loopback_url s1 = sv_loopback_url ?new" "sv_registry s1 = sv_registry ?new"
    using run_begin_ready [where s = ?new and b = ?b, OF assms(5)] by blast
  then have "sv_db s1 = d\<lparr>db_audit_log := log', db_next_audit_id := n'\<rparr>" by (simp add: new_supervisor_def d1)
  then show ?thesis
    using s1 km key
    by (intro exI [of _ "sv_db s1"] exI [of _ "\<lparr>ap_sv = s1,
        ap_limiter = \<lparr>rl_limit = 5, rl_window = 15 * 60, rl_by_ip = [], rl_by_username = []\<rparr>,
        ap_unlock_limiter = \<lparr>rl_limit = 3, rl_window = 15 * 60, rl_by_ip = [], rl_by_username = []\<rparr>,
        ap_reprompts = \<lparr>rp_ttl = 60, rp_grants = []\<rparr>, ap_trusted = as_trusted_proxies s,
        ap_rotation_locked = False, ap_cookie_secure = as_cookie_secure s\<rparr>"] exI [of _ log'] exI [of _ n'])
      (simp add: start_services_def lifespan_stores_eq new_supervisor_def)
qed

lemma lifespan_start_existing:
  assumes "apply_pragmas (be_journal_mode (le_boot env)) = None" "df_user_version (dd_file dir) = SCHEMA_VERSION"
    "validate_settings s = Inr t" "distinct (map rh_id (db_history (df_db (dd_file dir))))"
    "db_settings (df_db (dd_file dir)) = Some r" "sf_salt (dd_salts dir) = Some salt" "length salt = KDF_SALT_LENGTH"
    "kdf_lengths (ev_crypto (le_sv env))" "ev_db (le_sv env) ''supervisor_started'' = Commits"
  shows "\<exists>dir' a. lifespan_start env s dir = (dir', Inr a) \<and> dd_salts dir' = dd_salts dir \<and>
    df_db (dd_file dir') = ap_db a \<and> df_user_version (dd_file dir') = SCHEMA_VERSION \<and>
    db_credentials (ap_db a) = db_credentials (df_db (dd_file dir)) \<and>
    db_history (ap_db a) = map (\<lambda>r. if rh_ended_at r = None then closed_by_crash r else r) (db_history (df_db (dd_file dir))) \<and>
    boot_keys (ev_crypto (le_sv env)) s salt (ap_keys a) \<and>
    sv_ready_event (ap_sv a) \<and> sv_run_state (ap_sv a) = OFFLINE \<and> sv_workers (ap_sv a) = [] \<and>
    sv_loopback_url (ap_sv a) = ingest_loopback_url (se_ingest_key_current r) \<and>
    rl_limit (ap_limiter a) = 5 \<and> rl_limit (ap_unlock_limiter a) = 3 \<and> rp_grants (ap_reprompts a) = [] \<and>
    ap_trusted a = as_trusted_proxies s \<and> \<not> ap_rotation_locked a"
proof -
  let ?f = "dd_file dir"
  have salts: "create_app_keys (le_random_salt env) (dd_salts dir) =
      (dd_salts dir, Inr \<lparr>km_kdf_salt = salt, km_state = LOCKED, km_keys = None\<rparr>)"
    using assms(6,7) by (cases "dd_salts dir") (simp add: create_app_keys_def load_or_create_kdf_salt_def new_key_material_def)
  obtain es res d1 d2 where boot: "initialize_schema (le_boot env) s ?f = (es, Inr (res, ?f\<lparr>df_db := d2\<rparr>))"
    "recover_interrupted_sessions (le_boot env) d1 = Inr (ir_recovered_session_ids res, d2)"
    "db_history d1 = db_history (df_db ?f)"
    and reset: "as_reset_admin_password s \<longrightarrow> (\<exists>phc l4. reset_admin_password (le_boot env) phc l4 (df_db ?f) = Inr d1)"
      "\<not> as_reset_admin_password s \<longrightarrow> d1 = df_db ?f"
    using initialize_existing [OF assms(1-4)] by blast
  have "db_credentials d1 = db_credentials (df_db ?f) \<and>
      map_option se_ingest_key_current (db_settings d1) = map_option se_ingest_key_current (db_settings (df_db ?f))"
    using reset reset_frame by (cases "as_reset_admin_password s") blast+
  moreover have h2: "but_history d2 = but_history d1"
    "db_history d2 = map (\<lambda>r. if rh_ended_at r = None then closed_by_crash r else r) (db_history (df_db ?f))"
    using recover_interrupted_result [of d1 "le_boot env"] assms(4) boot(2,3) by auto
  ultimately have d2: "db_credentials d2 = db_credentials (df_db ?f)"
    "map_option se_ingest_key_current (db_settings d2) = Some (se_ingest_key_current r)"
    using but_history_fields [OF h2(1)] assms(5) by simp_all
  then obtain r2 where r2: "db_settings d2 = Some r2" "se_ingest_key_current r2 = se_ingest_key_current r" by auto
  from start_services_ready [OF assms(3,7,8) r2(1) assms(9), of "boot_registry es"]
  obtain d' a log n where st: "start_services env s \<lparr>km_kdf_salt = salt, km_state = LOCKED, km_keys = None\<rparr> (boot_registry es) d2 = (d', Inr a)"
    "ap_db a = d'" "d' = d2\<lparr>db_audit_log := log, db_next_audit_id := n\<rparr>"
    "boot_keys (ev_crypto (le_sv env)) s salt (ap_keys a)" "sv_ready_event (ap_sv a)" "sv_run_state (ap_sv a) = OFFLINE"
    "sv_workers (ap_sv a) = []" "sv_loopback_url (ap_sv a) = ingest_loopback_url (se_ingest_key_current r2)"
    "rl_limit (ap_limiter a) = 5" "rl_limit (ap_unlock_limiter a) = 3" "rp_grants (ap_reprompts a) = []"
    "ap_trusted a = as_trusted_proxies s" "\<not> ap_rotation_locked a"
    by blast
  have "lifespan_start env s dir = (\<lparr>dd_file = ?f\<lparr>df_db := d'\<rparr>, dd_salts = dd_salts dir\<rparr>, Inr a)"
    by (simp add: lifespan_start_def salts boot(1) st(1))
  moreover have "db_credentials (ap_db a) = db_credentials (df_db ?f)"
    "db_history (ap_db a) = map (\<lambda>r. if rh_ended_at r = None then closed_by_crash r else r) (db_history (df_db ?f))"
    using d2(1) h2(2) by (simp_all add: st(2,3))
  ultimately show ?thesis
    using st r2(2) assms(2)
    by (intro exI [of _ "\<lparr>dd_file = ?f\<lparr>df_db := d'\<rparr>, dd_salts = dd_salts dir\<rparr>"] exI [of _ a]) simp
qed

text \<open>C40: A restart with valid settings over a seeded data directory, one with a database file of the current schema version,
  the settings row and a salt of the right length, whose start is recorded in the audit log, ends ready: the run state
  is OFFLINE without workers or an open run, and the ingest address carries the stored key. With the passphrase
  in the environment the keys are derived from it and the stored salt; when it is still to be pasted there are none and
  the service is locked. (Without the settings row no start ever succeeds, \<open>unseeded_never_starts\<close>.)\<close>

theorem restart_ready:
  assumes "apply_pragmas (be_journal_mode (le_boot env)) = None" "df_user_version (dd_file dir) = SCHEMA_VERSION"
    "validate_settings s = Inr t" "distinct (map rh_id (db_history (df_db (dd_file dir))))"
    "db_settings (df_db (dd_file dir)) = Some r" "sf_salt (dd_salts dir) = Some salt" "length salt = KDF_SALT_LENGTH"
    "kdf_lengths (ev_crypto (le_sv env))" "ev_db (le_sv env) ''supervisor_started'' = Commits"
  shows "\<exists>dir' a. lifespan_start env s dir = (dir', Inr a) \<and> dd_salts dir' = dd_salts dir \<and>
    sv_ready_event (ap_sv a) \<and> sv_run_state (ap_sv a) = OFFLINE \<and> sv_workers (ap_sv a) = [] \<and>
    history_active (ap_db a) = None \<and>
    sv_loopback_url (ap_sv a) = ingest_loopback_url (se_ingest_key_current r) \<and>
    (as_passphrase_source s = EnvSource \<longrightarrow>
      (\<exists>p ks. as_master_passphrase s = Some p \<and> derive_keys (ev_crypto (le_sv env)) salt p = Inr ks \<and>
         require_unlocked_keys (ap_keys a) = Inr ks)) \<and>
    (as_passphrase_source s = PasteSource \<longrightarrow> km_state (ap_keys a) = LOCKED \<and> \<not> is_ok (require_unlocked_keys (ap_keys a)))"
proof -
  obtain dir' a where st: "lifespan_start env s dir = (dir', Inr a)" "dd_salts dir' = dd_salts dir"
    "db_history (ap_db a) = map (\<lambda>r. if rh_ended_at r = None then closed_by_crash r else r) (db_history (df_db (dd_file dir)))"
    "boot_keys (ev_crypto (le_sv env)) s salt (ap_keys a)" "sv_ready_event (ap_sv a)" "sv_run_state (ap_sv a) = OFFLINE"
    "sv_workers (ap_sv a) = []" "sv_loopback_url (ap_sv a) = ingest_loopback_url (se_ingest_key_current r)"
    using lifespan_start_existing [OF assms] by blast
  have "filter (\<lambda>r. rh_ended_at r = None) (db_history (ap_db a)) = []"
    unfolding st(3) by (auto simp: filter_empty_conv closed_by_crash_def)
  then have "history_active (ap_db a) = None" by (simp add: history_active_def)
  moreover have "as_passphrase_source s = EnvSource \<longrightarrow>
      (\<exists>p ks. as_master_passphrase s = Some p \<and> derive_keys (ev_crypto (le_sv env)) salt p = Inr ks \<and>
         require_unlocked_keys (ap_keys a) = Inr ks)"
    using st(4) by (auto simp: boot_keys_def require_unlocked_keys_def require_ready_def)
  moreover have "as_passphrase_source s = PasteSource \<longrightarrow> km_state (ap_keys a) = LOCKED \<and> \<not> is_ok (require_unlocked_keys (ap_keys a))"
    using st(4) by (auto simp: boot_keys_def require_unlocked_keys_def require_ready_def)
  ultimately show ?thesis using st(1,2,5-8) by blast
qed

definition sample_lifespan_env :: lifespan_env where
  "sample_lifespan_env =
     \<lparr>le_boot = sample_boot_env, le_sv = sample_env_api, le_random_salt = replicate 16 CHR ''x'',
      le_version = ''1.3.0'', le_build_sha = []\<rparr>"

definition sample_directory :: data_directory where
  "sample_directory =
     \<lparr>dd_file = sample_crashed\<lparr>df_db := sample_db\<lparr>db_history := db_history (df_db sample_crashed)\<rparr>\<rparr>,
      dd_salts = \<lparr>sf_salt = Some (replicate 16 CHR ''s''), sf_previous = None, sf_new = None\<rparr>\<rparr>"

lemma sample_lifespan:
  "apply_pragmas (be_journal_mode (le_boot sample_lifespan_env)) = None"
  "df_user_version (dd_file sample_directory) = SCHEMA_VERSION"
  "distinct (map rh_id (db_history (df_db (dd_file sample_directory))))"
  "sf_salt (dd_salts sample_directory) = Some (replicate 16 CHR ''s'')"
  "kdf_lengths (ev_crypto (le_sv sample_lifespan_env))"
  "ev_db (le_sv sample_lifespan_env) ''supervisor_started'' = Commits"
  using sample_wal toy_lib_correct(2)
  by (simp_all add: sample_lifespan_env_def sample_directory_def sample_crashed_def SCHEMA_VERSION_def sample_env_api_def sample_env_def)

theorem restart_ready_witness:
  "\<exists>dir' a. lifespan_start sample_lifespan_env sample_settings sample_directory = (dir', Inr a) \<and>
    history_active (ap_db a) = None \<and> sv_loopback_url (ap_sv a) = ''rtmp://127.0.0.1:1935/live/k''"
proof -
  have "db_settings (df_db (dd_file sample_directory)) = Some (the (db_settings sample_db))"
    by (simp add: sample_directory_def sample_db_def)
  from restart_ready [OF sample_lifespan(1,2) sample_settings_valid sample_lifespan(3) this sample_lifespan(4) _ sample_lifespan(5,6)]
  show ?thesis by (fastforce simp: KDF_SALT_LENGTH_def ingest_loopback_url_def sample_db_def)
qed

section \<open>Rotation, then a restart\<close>

text \<open>C10: After a successful rotation a restart that is configured with the new passphrase derives
  exactly the keys the rotated process held, and every stream key that could be opened before the rotation opens in the
  restarted process to the same text.\<close>

theorem rotation_survives_restart:
  assumes "rotate_passphrase env body rq (a, f) = (Inr ck, (a', f'), pad)"
    "aead_correct (ev_crypto (re_env env))" "distinct (map cr_id (db_credentials (ap_db a)))"
    "\<forall>i. length (snd (re_row_random env i)) = AEAD_NONCE_LENGTH"
    "kdf_lengths (ev_crypto (re_env env))" "ev_crypto (le_sv le) = ev_crypto (re_env env)"
    "apply_pragmas (be_journal_mode (le_boot le)) = None" "ev_db (le_sv le) ''supervisor_started'' = Commits"
    "df_user_version file = SCHEMA_VERSION" "df_db file = ap_db a'" "distinct (map rh_id (db_history (ap_db a')))"
    "db_settings (ap_db a') = Some r" "validate_settings s = Inr t" "as_passphrase_source s = EnvSource"
    "as_master_passphrase s = Some (ro_new_passphrase body)"
  shows "\<exists>dir' b. lifespan_start le s \<lparr>dd_file = file, dd_salts = f'\<rparr> = (dir', Inr b) \<and>
    km_keys (ap_keys b) = km_keys (ap_keys a') \<and>
    (\<forall>old_keys tid c key. km_keys (ap_keys a) = Some old_keys \<longrightarrow> credential_for_target (ap_db a) tid = Some c \<longrightarrow>
       open_credential (ev_crypto (re_env env)) (dk_stream_key_kek old_keys) c = Opened key \<longrightarrow>
       (\<exists>ks c'. require_unlocked_keys (ap_keys b) = Inr ks \<and> credential_for_target (ap_db b) tid = Some c' \<and>
          open_credential (ev_crypto (re_env env)) (dk_stream_key_kek ks) c' = Opened key))"
proof -
  let ?L = "ev_crypto (re_env env)"
  obtain old new where rot: "km_keys (ap_keys a) = Some old" "km_keys (ap_keys a') = Some new"
    "\<forall>tid c key. credential_for_target (ap_db a) tid = Some c \<longrightarrow>
       open_credential ?L (dk_stream_key_kek old) c = Opened key \<longrightarrow>
       (\<exists>c'. credential_for_target (ap_db a') tid = Some c' \<and> open_credential ?L (dk_stream_key_kek new) c' = Opened key)"
    "sf_salt f' = Some (km_kdf_salt (ap_keys a'))"
    "derive_keys ?L (km_kdf_salt (ap_keys a')) (ro_new_passphrase body) = Inr new"
    using rotation_result [OF assms(1-4)] by blast
  have salt: "length (km_kdf_salt (ap_keys a')) = KDF_SALT_LENGTH"
    using rot(5) by (auto simp: derive_keys_def derive_root_key_def split: if_splits)
  let ?dir = "\<lparr>dd_file = file, dd_salts = f'\<rparr>"
  have dir: "df_user_version (dd_file ?dir) = SCHEMA_VERSION" "distinct (map rh_id (db_history (df_db (dd_file ?dir))))"
    "db_settings (df_db (dd_file ?dir)) = Some r" "sf_salt (dd_salts ?dir) = Some (km_kdf_salt (ap_keys a'))"
    "kdf_lengths (ev_crypto (le_sv le))"
    using assms(5,6,9-12) rot(4) by simp_all
  obtain dir' b where b: "lifespan_start le s ?dir = (dir', Inr b)"
    "db_credentials (ap_db b) = db_credentials (df_db (dd_file ?dir))"
    "boot_keys (ev_crypto (le_sv le)) s (km_kdf_salt (ap_keys a')) (ap_keys b)"
    using lifespan_start_existing [OF assms(7) dir(1) assms(13) dir(2-4) salt dir(5) assms(8)] by blast
  have keys: "km_state (ap_keys b) = READY" "km_keys (ap_keys b) = Some new"
    using b(3) rot(5) assms(6,14,15) by (auto simp: boot_keys_def)
  moreover have "require_unlocked_keys (ap_keys b) = Inr new"
    using keys by (simp add: require_unlocked_keys_def require_ready_def)
  moreover have "credential_for_target (ap_db b) tid = credential_for_target (ap_db a') tid" for tid
    using b(2) assms(10) by (simp add: credential_for_target_def)
  ultimately show ?thesis using b(1) rot(1-3) by auto
qed

lemma sample_rotated_rows:
  "distinct (map rh_id (db_history (ap_db (fst (fst (snd (sample_rotated True)))))))"
  "db_settings (ap_db (fst (fst (snd (sample_rotated True))))) \<noteq> None"
  by code_simp+

theorem rotation_survives_restart_witness:
  "\<exists>dir' b. lifespan_start sample_lifespan_env
      (default_settings\<lparr>as_master_passphrase := Some (ro_new_passphrase sample_rotate)\<rparr>)
      \<lparr>dd_file = unseeded_file\<lparr>df_db := ap_db (fst (fst (snd (sample_rotated True))))\<rparr>,
       dd_salts = snd (fst (snd (sample_rotated True)))\<rparr> = (dir', Inr b) \<and>
    km_keys (ap_keys b) = km_keys (ap_keys (fst (fst (snd (sample_rotated True)))))"
proof -
  let ?s = "default_settings\<lparr>as_master_passphrase := Some (ro_new_passphrase sample_rotate)\<rparr>"
  obtain ck where ck: "fst (sample_rotated True) = Inr ck" using sample_rotated_ok(1) by (cases "fst (sample_rotated True)") auto
  note run = sample_rotated_eq [of True, unfolded ck]
  obtain r where r: "db_settings (ap_db (fst (fst (snd (sample_rotated True))))) = Some r"
    using sample_rotated_rows(2) by blast
  have "validate_settings ?s = Inr ?s"
    by (simp add: validate_settings_def default_settings_def validate_passphrase_source_def sample_rotate_def
        validate_admin_password_length_def validate_reset_flag_pairing_def MIN_PASSPHRASE_LENGTH_def)
  moreover have "as_passphrase_source ?s = EnvSource" by (simp add: default_settings_def)
  moreover have "kdf_lengths (ev_crypto (re_env (sample_rotate_env True)))"
    "ev_crypto (le_sv sample_lifespan_env) = ev_crypto (re_env (sample_rotate_env True))"
    using toy_lib_correct(2) by (simp_all add: sample_rotate_env_def sample_env_api_def sample_lifespan_env_def)
  ultimately show ?thesis
    using rotation_survives_restart [OF run toy_env(1) sample_rotated_ok(3) toy_env(2) _ _ sample_lifespan(1,6)
        _ _ sample_rotated_rows(1) r, of "unseeded_file\<lparr>df_db := ap_db (fst (fst (snd (sample_rotated True))))\<rparr>" ?s ?s]
    by (auto simp: unseeded_file_def)
qed

section \<open>A directory without an administrator\<close>

lemma initialize_writes_result:
  "initialize_schema env s f = (es, Inr (res, g)) \<Longrightarrow> WriteFile g \<in> set es"
  by (auto simp: initialize_schema_def Let_def split: prod.splits sum.splits)

text \<open>The settings row that a first boot cut short never wrote is missed when the ingest key is read: such a process
  never gets to serve a request.\<close>

lemma unseeded_never_starts:
  assumes "unseeded (dd_file dir)"
  shows "\<exists>e. snd (lifespan_start env s dir) = Inl e"
proof -
  have "\<exists>e. snd (start_services env s km secrets (df_db g)) = Inl e" if "unseeded g" for km secrets g
  proof -
    obtain log n where "app_started_audit env (df_db g) = (df_db g)\<lparr>db_audit_log := log, db_next_audit_id := n\<rparr>"
      using app_started_frame by blast
    then have "read_ingest_key_now (app_started_audit env (df_db g)) = Inl (LifespanDbError SettingsMissing)"
      using that by (simp add: read_ingest_key_now_def settings_get_def unseeded_def)
    then show ?thesis by (simp add: start_services_def lifespan_stores_eq split: sum.splits)
  qed
  note services = this
  have seedless: "unseeded g" if "initialize_schema (le_boot env) s (dd_file dir) = (es, Inr (res, g))" for es res g
    using initialize_unseeded [OF assms] initialize_writes_result [OF that] that by (metis fst_conv)
  obtain salts k where k: "create_app_keys (le_random_salt env) (dd_salts dir) = (salts, k)" by fastforce
  obtain es i where i: "initialize_schema (le_boot env) s (dd_file dir) = (es, i)" by fastforce
  show ?thesis
  proof (cases "\<exists>km res g. k = Inr km \<and> i = Inr (res, g)")
    case True
    then obtain km res g where r: "k = Inr km" "i = Inr (res, g)" by blast
    have "unseeded g" using seedless i r by blast
    from services [OF this, of km "boot_registry es"] show ?thesis
      using k i r by (auto simp: lifespan_start_def split: prod.split)
  next
    case False
    then show ?thesis using k i by (cases k; cases i) (auto simp: lifespan_start_def)
  qed
qed

section \<open>Shutdown\<close>

lemma shutdown_ends_run:
  assumes "sv_run_state (ap_sv a) = STARTING \<or> sv_run_state (ap_sv a) = ARMED \<or> sv_run_state (ap_sv a) = LIVE"
  shows "sv_run_state (ap_sv (lifespan_shutdown env a)) = OFFLINE \<and> sv_run_id (ap_sv (lifespan_shutdown env a)) = None \<and>
    sv_stop_event (ap_sv (lifespan_shutdown env a))"
proof -
  obtain s1 where s1: "stop_run env ''user_stop'' (ap_sv a) =
      (fst (stop_cleanup env ''user_stop'' (fst (tear_down_all_workers env s1))), snd (tear_down_all_workers env s1))"
    "sv_run_state s1 = STOPPING"
    using stop_run_parts [OF assms, of env "''user_stop''"] by blast
  have "sv_run_state (fst (tear_down_all_workers env s1)) = STOPPING" using s1(2) by simp
  from stop_cleanup_result [OF this, of env "''user_stop''"] show ?thesis
    using assms s1(1) by (auto simp: lifespan_shutdown_def run_end_def sv_stop_def suppress_def Let_def)
qed

section \<open>The previous salt\<close>

lemma cleanup_none: "foldl (\<lambda>st tick. kdf_cleanup_tick tick st) (None, d) ticks = (None, d)"
  by (induction ticks) (auto simp: kdf_cleanup_tick_def)

lemma cleanup_keeps:
  "\<forall>(now, io, audits)\<in>set ticks. now < mtime + KDF_SALT_PREVIOUS_GRACE \<Longrightarrow>
    foldl (\<lambda>st tick. kdf_cleanup_tick tick st) (Some (mtime, content), d) ticks = (Some (mtime, content), d)"
  by (induction ticks) (auto simp: kdf_cleanup_tick_def algebra_simps)

text \<open>Whatever the ticks of the cleanup loop meet, the salt replaced by a rotation is still there as long as
  no tick came a day after it; the first later tick that the file system does not fail removes it, with one audit entry,
  and the ticks after that do nothing.\<close>

theorem previous_salt_lives_a_day:
  assumes "\<forall>(now, io, audits)\<in>set early. now < mtime + KDF_SALT_PREVIOUS_GRACE"
    "\<forall>(now, io, audits)\<in>set failing. io = RaisesOSError" "mtime + KDF_SALT_PREVIOUS_GRACE \<le> t"
  defines "ticks \<equiv> foldl (\<lambda>st tick. kdf_cleanup_tick tick st)"
  shows "ticks (Some (mtime, content), d) (early @ failing) = (Some (mtime, content), d) \<and>
    (\<exists>row. ticks (Some (mtime, content), d) (early @ failing @ (t, Unlinks, True) # later) =
       (None, d\<lparr>db_audit_log := db_audit_log d @ [row], db_next_audit_id := db_next_audit_id d + 1\<rparr>) \<and>
       al_event_type row = ''kdf_salt_previous_cleared'')"
proof -
  have failing: "ticks (Some (mtime, content), d) failing = (Some (mtime, content), d)"
    unfolding ticks_def using assms(2) by (induction failing) (auto simp: kdf_cleanup_tick_def)
  then have kept: "ticks (Some (mtime, content), d) (early @ failing) = (Some (mtime, content), d)"
    unfolding ticks_def by (simp add: cleanup_keeps [OF assms(1)])
  let ?row = "\<lparr>al_id = db_next_audit_id d, al_at = stored_time t, al_event_type = ''kdf_salt_previous_cleared'',
    al_actor = Some ''system'', al_target_id = None, al_data = []\<rparr>"
  have "ticks (Some (mtime, content), d) (early @ failing @ (t, Unlinks, True) # later) =
      (None, d\<lparr>db_audit_log := db_audit_log d @ [?row], db_next_audit_id := db_next_audit_id d + 1\<rparr>)"
    using assms(3) failing unfolding ticks_def
    by (simp add: cleanup_keeps [OF assms(1)] kdf_cleanup_tick_def [of "(t, Unlinks, True)"] audit_system_total cleanup_none)
  then show ?thesis using kept by (intro conjI exI [of _ ?row]) simp_all
qed

theorem previous_salt_lives_a_day_witness:
  "fst (foldl (\<lambda>st tick. kdf_cleanup_tick tick st) (Some (0, ''old''), sample_db)
     [(60000000, Unlinks, True), (86400000000, RaisesOSError, True), (86460000000, Unlinks, True)]) = None"
  using previous_salt_lives_a_day [of "[(60000000, Unlinks, True)]" 0 "[(86400000000, RaisesOSError, True)]" 86460000000
      "''old''" sample_db "[]"]
  by (auto simp: KDF_SALT_PREVIOUS_GRACE_def)

section \<open>What the frontend handler serves\<close>

lemma spa_confined:
  assumes "spa_fallback fs full_path = SpaFile candidate"
  shows "prefix (spa_root fs) candidate" "spa_is_file fs candidate = Some True"
    "\<not> prefix ''api/'' full_path" "\<not> prefix ''internal/'' full_path"
  using assms by (auto simp: spa_fallback_def SPA_API_PREFIXES_def split: if_splits option.splits bool.splits)

text \<open>Resolving without symbolic links: empty and single-dot segments vanish, a double dot climbs.\<close>

definition path_segments :: "pystr \<Rightarrow> pystr list" where
  "path_segments p = filter (\<lambda>s. s \<noteq> [] \<and> s \<noteq> ''.'') (split_char CHR ''/'' p)"

definition climb :: "pystr list \<Rightarrow> pystr list \<Rightarrow> pystr list" where
  "climb base segs = foldl (\<lambda>b s. if s = ''..'' then butlast b else b @ [s]) base segs"

definition plain_resolve :: "pystr list \<Rightarrow> pystr \<Rightarrow> pystr list option" where
  "plain_resolve base p =
     (if char_of (0 :: nat) \<in> set p then None
      else Some (climb (if prefix ''/'' p then [] else base) (path_segments p)))"

lemma climb_plain: "''..'' \<notin> set segs \<Longrightarrow> climb base segs = base @ segs"
  unfolding climb_def by (induction segs arbitrary: base) auto

lemma climb_dots: "climb base (replicate n ''..'' @ segs) = climb (take (length base - n) base) segs"
proof (induction n arbitrary: base)
  case (Suc n)
  show ?case using Suc [of "butlast base"] by (simp add: climb_def butlast_conv_take min_def)
qed (simp add: climb_def)

text \<open>In a directory without symbolic links a request path of ordinary segments is answered with the file it names
  below the root, or with the shell when there is none; a path that first climbs out of the root is not found, whatever it
  names, and neither is an absolute one outside the root.\<close>

theorem spa_serves_tree:
  assumes "spa_resolve fs = plain_resolve (spa_root fs)" "length full_path \<le> SPA_MAX_PATH_LEN"
    "\<forall>p\<in>set SPA_API_PREFIXES. \<not> prefix p full_path" "char_of (0 :: nat) \<notin> set full_path"
    "path_segments full_path = replicate n ''..'' @ segs" "''..'' \<notin> set segs"
  shows "spa_fallback fs full_path =
    (let candidate = (if prefix ''/'' full_path then segs else take (length (spa_root fs) - n) (spa_root fs) @ segs)
     in if \<not> prefix (spa_root fs) candidate then SpaNotFound
        else if spa_is_file fs candidate = Some True then SpaFile candidate else SpaIndex)"
proof -
  let ?c = "if prefix ''/'' full_path then segs else take (length (spa_root fs) - n) (spa_root fs) @ segs"
  have "spa_resolve fs full_path = Some ?c"
    using assms(1,4-6) by (simp add: plain_resolve_def climb_dots climb_plain)
  then show ?thesis
    using assms(2,3) by (simp add: spa_fallback_def Let_def split: option.split bool.split)
qed

theorem spa_serves_tree_witness:
  "spa_fallback \<lparr>spa_root = [''app'', ''dist''], spa_resolve = plain_resolve [''app'', ''dist''],
      spa_is_file = (\<lambda>p. Some True)\<rparr> ''../../etc/passwd'' = SpaNotFound"
proof -
  have "path_segments ''../../etc/passwd'' = replicate 2 ''..'' @ [''etc'', ''passwd'']" by code_simp
  moreover have "\<forall>p\<in>set SPA_API_PREFIXES. \<not> prefix p ''../../etc/passwd''" "char_of (0 :: nat) \<notin> set ''../../etc/passwd''"
    by code_simp+
  ultimately show ?thesis
    using spa_serves_tree [of "\<lparr>spa_root = [''app'', ''dist''], spa_resolve = plain_resolve [''app'', ''dist''],
      spa_is_file = (\<lambda>p. Some True)\<rparr>" "''../../etc/passwd''" 2 "[''etc'', ''passwd'']"]
    by (simp add: SPA_MAX_PATH_LEN_def Let_def)
qed

end
