(* ===== verification/First_Use.thy ===== *)
theory First_Use
  imports Lifespan
begin

text \<open>
  The first start of the service and its first user, across four components: the boot creates the
  administrator (\<^verbatim>\<open>app/db/schema_init.py\<close>), the lifespan unlocks the keys (\<^verbatim>\<open>app/main.py\<close>), the login
  handler opens a session (\<^verbatim>\<open>app/api/auth.py\<close>, \<^verbatim>\<open>app/auth/sessions.py\<close>) and the dependencies of every other
  handler accept its cookie (\<^verbatim>\<open>app/auth/deps.py\<close>). The lemmas on the login handler hold in any state.
\<close>

section \<open>Logins that must succeed, and that must fail\<close>

lemma empty_limiter_allows:
  assumes "rl_by_ip l = []" "rl_by_username l = []" "0 < rl_limit l"
  shows "rd_allowed (fst (rl_check ufold ip name now l))"
proof -
  have "bucket (rl_by_ip (touch_buckets l ip n now)) ip = []" "bucket (rl_by_username (touch_buckets l ip n now)) n = []" for n
    using assms(1,2) by (simp_all add: touch_buckets_def bucket_def)
  then show ?thesis using assms(3) by (simp add: rl_check_def Let_def touch_buckets_def)
qed

abbreviation login_of :: "login_body_request \<Rightarrow> request \<Rightarrow> app \<Rightarrow> login_request" where
  "login_of body rq a \<equiv> \<lparr>lr_username = lb_username body, lr_password = lb_password body,
     lr_ip = get_client_ip a rq, lr_user_agent = rq_user_agent rq\<rparr>"

text \<open>The converse of \<open>login_Inr\<close>.\<close>

lemma login_complete:
  assumes "rd_allowed (fst (rl_check ufold (lr_ip rq) (normalize_username ufold (lr_username rq)) (le_check_at env) l))"
    "user_by_username d (normalize_username ufold (lr_username rq)) = Some u" "user_by_id d (us_id u) = Some u"
    "pv_ok (verify_password L (us_password_hash u) (lr_password rq))" "le_cookie env \<noteq> []"
    "\<forall>s\<in>set (db_sessions d). hs_token_hash s \<noteq> hmac_sha256 L (dk_session_token_mac_key (ss_keys sv)) (utf8_encode (le_cookie env))"
  shows "\<exists>out. lg_result (login L ufold sv env rq d l) = Inr out \<and> lo_cookie_value out = le_cookie env \<and>
    us_id (lo_user out) = us_id u \<and> us_username (lo_user out) = us_username u"
  using assms
  by (auto simp: login_def login_body_def compute_session_token_hash_def create_http_session_def Let_def split: prod.split)

lemma login_wrong_password:
  assumes "rd_allowed (fst (rl_check ufold (lr_ip rq) (normalize_username ufold (lr_username rq)) (le_check_at env) l))"
    "user_by_username d (normalize_username ufold (lr_username rq)) = Some u"
    "\<not> phc_verify L (us_password_hash u) (lr_password rq)"
  shows "lg_result (login L ufold sv env rq d l) = Inl InvalidCredentials"
  using assms by (auto simp: login_def login_body_def verify_password_def Let_def split: prod.split)

lemma api_login_result:
  assumes "require_unlocked_keys (ap_keys a) = Inr ks" "login_request_valid body"
    "lg_result (login L ufold (get_session_service ks) env (login_of body rq a) (ap_db a) (ap_limiter a)) = r"
  shows "r = Inr out \<Longrightarrow> \<exists>b. api_login L ufold env body rq a =
      (Inr (build_cookie_set_kwargs (lo_cookie_value out) (ap_cookie_secure a) SESSION_COOKIE_LIFETIME,
            summary_of (lo_user out), lo_needs_rehash out), b) \<and>
      ap_db b = lg_db (login L ufold (get_session_service ks) env (login_of body rq a) (ap_db a) (ap_limiter a)) \<and>
      ap_keys b = ap_keys a \<and> ap_cookie_secure b = ap_cookie_secure a"
    "r = Inl InvalidCredentials \<Longrightarrow> fst (api_login L ufold env body rq a) = Inl (http_exception EC_INVALID_CREDENTIALS 401)"
  using assms by (auto simp: api_login_def Let_def)

section \<open>Requests with a cookie\<close>

lemma api_me_cookie:
  assumes "require_unlocked_keys (ap_keys a) = Inr ks" "c \<noteq> []"
    "map_of (rq_cookies rq) (session_cookie_name (ap_cookie_secure a)) = Some c"
    "verify_cookie L (get_session_service ks) c now (ap_db a) = Inr (Some (user, session), d2)"
  shows "fst (api_me L rq now a) = Inr (summary_of user)"
  using assms
  by (auto simp: api_me_def with_session_def require_authenticated_def current_user_via_cookie_def
      current_user_via_bearer_def split: prod.split option.split)

lemma api_me_refused:
  assumes "require_unlocked_keys (ap_keys a) = Inr ks" "db_api_tokens (ap_db a) = []" "db_sessions (ap_db a) = []"
  shows "fst (api_me L rq now a) = Inl unauthorized"
proof -
  have "current_user_via_cookie L ks (ap_cookie_secure a) rq now (ap_db a) = Inr (None, ap_db a)"
    using assms(3)
    by (auto simp: current_user_via_cookie_def verify_cookie_def compute_session_token_hash_def session_by_hash_def
        one_or_none_def split: option.split)
  moreover have "current_user_via_bearer L ks rq now (ap_db a) = (None, ap_db a)"
    using assms(2)
    by (auto simp: current_user_via_bearer_def verify_bearer_def active_token_by_hash_def one_or_none_def
        split: option.split sum.split)
  ultimately show ?thesis
    using assms(1) by (simp add: api_me_def with_session_def require_authenticated_def)
qed

text \<open>Login and the first use of its cookie.\<close>

lemma login_opens_session:
  assumes "require_unlocked_keys (ap_keys a) = Inr ks" "login_request_valid body"
    "rd_allowed (fst (rl_check ufold (get_client_ip a rq) (normalize_username ufold (lb_username body)) (le_check_at env) (ap_limiter a)))"
    "user_by_username (ap_db a) (normalize_username ufold (lb_username body)) = Some u"
    "distinct (map us_id (db_users (ap_db a)))"
    "pv_ok (verify_password L (us_password_hash u) (lb_password body))" "le_cookie env \<noteq> []"
    "\<forall>s\<in>set (db_sessions (ap_db a)). hs_token_hash s \<noteq> hmac_sha256 L (dk_session_token_mac_key ks) (utf8_encode (le_cookie env))"
  shows "\<exists>ck um rehash b. api_login L ufold env body rq a = (Inr (ck, um, rehash), b) \<and>
    ck_key ck = session_cookie_name (ap_cookie_secure a) \<and> ck_value ck = Some (le_cookie env) \<and>
    um_id um = us_id u \<and> um_username um = us_username u \<and>
    (map_of (rq_cookies rq2) (session_cookie_name (ap_cookie_secure a)) = Some (le_cookie env) \<longrightarrow>
     now < stored_time (le_now env + SESSION_COOKIE_LIFETIME) \<longrightarrow>
       (\<exists>um2. fst (api_me L rq2 now b) = Inr um2 \<and> um_id um2 = us_id u))"
proof -
  let ?sv = "get_session_service ks"
  let ?r = "login L ufold ?sv env (login_of body rq a) (ap_db a) (ap_limiter a)"
  have keys: "ss_keys ?sv = ks" "ss_cookie_lifetime ?sv = SESSION_COOKIE_LIFETIME" by (simp_all add: get_session_service_def)
  have u: "u \<in> set (db_users (ap_db a))"
    using one_or_none_SomeD [OF assms(4) [unfolded user_by_username_def]] by simp
  then have "user_by_id (ap_db a) (us_id u) = Some u"
    using one_or_none_unique [OF assms(5)] by (simp add: user_by_id_def)
  then obtain out where out: "lg_result ?r = Inr out" "lo_cookie_value out = le_cookie env"
    "us_id (lo_user out) = us_id u" "us_username (lo_user out) = us_username u"
    using login_complete [of ufold "login_of body rq a" env "ap_limiter a" "ap_db a" u L ?sv] assms(3,4,6-8)
    by (auto simp: keys)
  obtain b where b: "api_login L ufold env body rq a =
      (Inr (build_cookie_set_kwargs (lo_cookie_value out) (ap_cookie_secure a) SESSION_COOKIE_LIFETIME,
            summary_of (lo_user out), lo_needs_rehash out), b)" "ap_db b = lg_db ?r" "ap_keys b = ap_keys a"
      "ap_cookie_secure b = ap_cookie_secure a"
    using api_login_result(1) [OF assms(1,2) refl out(1)] by blast
  have "\<exists>um2. fst (api_me L rq2 now b) = Inr um2 \<and> um_id um2 = us_id u"
    if me: "map_of (rq_cookies rq2) (session_cookie_name (ap_cookie_secure a)) = Some (le_cookie env)"
      "now < stored_time (le_now env + SESSION_COOKIE_LIFETIME)"
  proof -
    obtain user session d2 where v: "verify_cookie L ?sv (le_cookie env) now (lg_db ?r) = Inr (Some (user, session), d2)"
      "us_id user = us_id u"
      using session_roundtrip_result [OF out(1) assms(5) refl, of now] me(2) out(2,3) by (auto simp: keys)
    then show ?thesis
      using api_me_cookie [of b ks "le_cookie env" rq2 L now user session d2] assms(1,7) me(1) b(2-4)
      by (simp add: summary_of_def)
  qed
  then show ?thesis using b(1) out(2-4) by (auto simp: build_cookie_set_kwargs_def summary_of_def)
qed

section \<open>The first start\<close>

definition new_data_directory :: data_directory where
  "new_data_directory =
     \<lparr>dd_file = new_database_file, dd_salts = \<lparr>sf_salt = None, sf_previous = None, sf_new = None\<rparr>\<rparr>"

text \<open>The password the first boot settles on.\<close>

definition bootstrap_password :: "boot_env \<Rightarrow> app_settings \<Rightarrow> pystr" where
  "bootstrap_password env s = (case as_admin_password s of Some q \<Rightarrow> q | None \<Rightarrow> be_random_password env)"

lemma first_start_result:
  assumes "apply_pragmas (be_journal_mode (le_boot env)) = None" "validate_settings s = Inr t"
    "length (be_random_password (le_boot env)) = AUTOGEN_PASSWORD_LENGTH" "length (le_random_salt env) = KDF_SALT_LENGTH"
    "\<forall>p salt. phc_verify L (phc_hash L p salt) p" "kdf_lengths L" "be_crypto (le_boot env) = L" "ev_crypto (le_sv env) = L"
    "ev_db (le_sv env) ''supervisor_started'' = Commits"
  shows "\<exists>dir a u. lifespan_start env s new_data_directory = (dir, Inr a) \<and>
    sf_salt (dd_salts dir) = Some (le_random_salt env) \<and> df_db (dd_file dir) = ap_db a \<and>
    boot_keys L s (le_random_salt env) (ap_keys a) \<and> db_users (ap_db a) = [u] \<and> us_username u = ADMIN_USERNAME \<and>
    us_password_hash u = phc_hash L (bootstrap_password (le_boot env) s) (be_random_salt (le_boot env)) \<and>
    pv_ok (verify_password L (us_password_hash u) (bootstrap_password (le_boot env) s)) \<and> db_sessions (ap_db a) = [] \<and>
    db_api_tokens (ap_db a) = [] \<and>
    rl_by_ip (ap_limiter a) = [] \<and> rl_by_username (ap_limiter a) = [] \<and> rl_limit (ap_limiter a) = 5 \<and>
    ap_cookie_secure a = as_cookie_secure s"
proof -
  let ?p = "bootstrap_password (le_boot env) s"
  have "\<forall>p salt. phc_verify (be_crypto (le_boot env)) (phc_hash (be_crypto (le_boot env)) p salt) p"
    using assms(5,7) by simp
  then obtain es res f u r where boot: "initialize_schema (le_boot env) s new_database_file = (es, Inr (res, f))"
    "db_users (df_db f) = [u]" "us_username u = ADMIN_USERNAME" "us_password_hash u = phc_hash L ?p (be_random_salt (le_boot env))"
    "pv_ok (verify_password L (us_password_hash u) ?p)" "db_sessions (df_db f) = []"
    "db_api_tokens (df_db f) = []" "db_settings (df_db f) = Some r"
    using fresh_boot_admin [OF assms(1-3)] assms(7)
    by (force simp: bootstrap_password_def split: option.splits)
  have kdf: "kdf_lengths (ev_crypto (le_sv env))" using assms(6,8) by simp
  obtain d a log n where start: "start_services env s \<lparr>km_kdf_salt = le_random_salt env, km_state = LOCKED, km_keys = None\<rparr>
      (boot_registry es) (df_db f) = (d, Inr a)"
    "ap_db a = d" "d = (df_db f)\<lparr>db_audit_log := log, db_next_audit_id := n\<rparr>"
    "boot_keys (ev_crypto (le_sv env)) s (le_random_salt env) (ap_keys a)" "rl_limit (ap_limiter a) = 5"
    "ap_cookie_secure a = as_cookie_secure s" "rl_by_ip (ap_limiter a) = []" "rl_by_username (ap_limiter a) = []"
    using start_services_ready [OF assms(2,4) kdf boot(8) assms(9), of "boot_registry es"] by blast
  have "create_app_keys (le_random_salt env) (dd_salts new_data_directory) =
      (\<lparr>sf_salt = Some (le_random_salt env), sf_previous = None, sf_new = None\<rparr>,
       Inr \<lparr>km_kdf_salt = le_random_salt env, km_state = LOCKED, km_keys = None\<rparr>)"
    using assms(4)
    by (simp add: create_app_keys_def load_or_create_kdf_salt_def new_key_material_def new_data_directory_def)
  then have "lifespan_start env s new_data_directory =
      (\<lparr>dd_file = f\<lparr>df_db := d\<rparr>, dd_salts = \<lparr>sf_salt = Some (le_random_salt env), sf_previous = None, sf_new = None\<rparr>\<rparr>, Inr a)"
    using boot(1) start(1) by (simp add: lifespan_start_def new_data_directory_def)
  then show ?thesis using boot start assms(8) by auto
qed

text \<open>C11: The first start over an empty data directory, with valid settings that give the passphrase in the environment,
  ends with a service its administrator can use, provided the start is recorded in the audit log: no request is let in before
  the login, whatever cookie or bearer it carries. A login within the limits of the login form's lengths, with the
  configured or printed password under any spelling of the name that normalises to it, opens a session, and a request with
  the cookie of the answer is served as the administrator until the session expires. A password the stored hash does not
  accept is refused with 401.\<close>

theorem first_start_usable:
  assumes "apply_pragmas (be_journal_mode (le_boot env)) = None" "validate_settings s = Inr t"
    "length (be_random_password (le_boot env)) = AUTOGEN_PASSWORD_LENGTH" "length (le_random_salt env) = KDF_SALT_LENGTH"
    "\<forall>p salt. phc_verify L (phc_hash L p salt) p" "kdf_lengths L" "be_crypto (le_boot env) = L" "ev_crypto (le_sv env) = L"
    "ev_db (le_sv env) ''supervisor_started'' = Commits" "as_passphrase_source s = EnvSource"
    "login_request_valid body" "normalize_username ufold (lb_username body) = ADMIN_USERNAME" "le_cookie le \<noteq> []"
    "map_of (rq_cookies rq2) (session_cookie_name (as_cookie_secure s)) = Some (le_cookie le)"
  shows "\<exists>dir a. lifespan_start env s new_data_directory = (dir, Inr a) \<and>
    (\<forall>rq0. fst (api_me L rq0 now a) = Inl unauthorized) \<and>
    (lb_password body = bootstrap_password (le_boot env) s \<longrightarrow>
      (\<exists>ck um rehash b. api_login L ufold le body rq a = (Inr (ck, um, rehash), b) \<and>
        ck_value ck = Some (le_cookie le) \<and> ck_key ck = session_cookie_name (as_cookie_secure s) \<and>
        um_username um = ADMIN_USERNAME \<and>
        (now < stored_time (le_now le + SESSION_COOKIE_LIFETIME) \<longrightarrow>
          (\<exists>um2. fst (api_me L rq2 now b) = Inr um2 \<and> um_id um2 = um_id um)))) \<and>
    (\<not> phc_verify L (phc_hash L (bootstrap_password (le_boot env) s) (be_random_salt (le_boot env))) (lb_password body) \<longrightarrow>
      fst (api_login L ufold le body rq a) = Inl (http_exception EC_INVALID_CREDENTIALS 401))"
proof -
  obtain dir a u where st: "lifespan_start env s new_data_directory = (dir, Inr a)"
    "boot_keys L s (le_random_salt env) (ap_keys a)" "db_users (ap_db a) = [u]" "us_username u = ADMIN_USERNAME"
    "us_password_hash u = phc_hash L (bootstrap_password (le_boot env) s) (be_random_salt (le_boot env))"
    "pv_ok (verify_password L (us_password_hash u) (bootstrap_password (le_boot env) s))" "db_sessions (ap_db a) = []"
    "db_api_tokens (ap_db a) = []" "rl_by_ip (ap_limiter a) = []" "rl_by_username (ap_limiter a) = []" "rl_limit (ap_limiter a) = 5"
    "ap_cookie_secure a = as_cookie_secure s"
    using first_start_result [OF assms(1-9)] by blast
  obtain ks where ks: "require_unlocked_keys (ap_keys a) = Inr ks"
    using st(2) assms(10) by (auto simp: boot_keys_def require_unlocked_keys_def require_ready_def)
  have allowed: "rd_allowed (fst (rl_check ufold ip name t (ap_limiter a)))" for ip name t
    using empty_limiter_allows st(9-11) by simp
  have u: "user_by_username (ap_db a) (normalize_username ufold (lb_username body)) = Some u" "distinct (map us_id (db_users (ap_db a)))"
    using st(3,4) assms(12) by (simp_all add: user_by_username_def one_or_none_def)
  have no_sessions: "\<forall>s\<in>set (db_sessions (ap_db a)). hs_token_hash s \<noteq> th" for th using st(7) by simp
  note opened = login_opens_session [OF ks assms(11) allowed u _ assms(13) no_sessions]
  have "fst (api_login L ufold le body rq a) = Inl (http_exception EC_INVALID_CREDENTIALS 401)"
    if "\<not> phc_verify L (us_password_hash u) (lb_password body)"
    using api_login_result(2) [OF ks assms(11) refl] login_wrong_password [of ufold "login_of body rq a" le] allowed u(1) that by simp
  then show ?thesis
    using st(1,4-6,12) api_me_refused [OF ks st(8,7)] opened [of L rq rq2 now] assms(14) by auto
qed

text \<open>The sample start, with the printed password.\<close>

definition sample_first_login :: login_body_request where
  "sample_first_login = \<lparr>lb_username = ''admin'', lb_password = replicate 20 CHR ''p''\<rparr>"

definition sample_first_request :: request where
  "sample_first_request = sample_http_request\<lparr>rq_cookies := [(session_cookie_name (as_cookie_secure sample_settings), ''tok'')]\<rparr>"

theorem first_start_usable_witness:
  "\<exists>dir a ck um rehash b um2. lifespan_start sample_lifespan_env sample_settings new_data_directory = (dir, Inr a) \<and>
    fst (api_me toy_lib sample_first_request 100 a) = Inl unauthorized \<and>
    api_login toy_lib id (sample_login_env 0) sample_first_login sample_first_request a = (Inr (ck, um, rehash), b) \<and>
    fst (api_me toy_lib sample_first_request 100 b) = Inr um2 \<and> um_username um = ADMIN_USERNAME"
proof -
  have env: "length (be_random_password (le_boot sample_lifespan_env)) = AUTOGEN_PASSWORD_LENGTH"
    "length (le_random_salt sample_lifespan_env) = KDF_SALT_LENGTH" "be_crypto (le_boot sample_lifespan_env) = toy_lib"
    "ev_crypto (le_sv sample_lifespan_env) = toy_lib" "\<forall>p salt. phc_verify toy_lib (phc_hash toy_lib p salt) p"
    by (simp_all add: sample_lifespan_env_def sample_boot_env_def AUTOGEN_PASSWORD_LENGTH_def KDF_SALT_LENGTH_def
        sample_env_api_def sample_env_def toy_lib_def)
  have rq: "as_passphrase_source sample_settings = EnvSource" "login_request_valid sample_first_login"
    "normalize_username id (lb_username sample_first_login) = ADMIN_USERNAME" "le_cookie (sample_login_env 0) \<noteq> []"
    "map_of (rq_cookies sample_first_request) (session_cookie_name (as_cookie_secure sample_settings)) = Some (le_cookie (sample_login_env 0))"
    by (simp_all add: sample_settings_def default_settings_def login_request_valid_def sized_def sample_first_login_def
        ADMIN_USERNAME_def sample_login_env_def sample_first_request_def)
  have more: "lb_password sample_first_login = bootstrap_password (le_boot sample_lifespan_env) sample_settings"
    "(100 :: int) < stored_time (le_now (sample_login_env 0) + SESSION_COOKIE_LIFETIME)"
    by (simp_all add: sample_first_request_def sample_http_request_def sample_first_login_def bootstrap_password_def
        sample_settings_def default_settings_def sample_lifespan_env_def sample_boot_env_def sample_login_env_def
        SESSION_COOKIE_LIFETIME_def stored_time_def result_time_def bind_seconds_def)
  show ?thesis
    using first_start_usable [OF sample_lifespan(1) sample_settings_valid env(1,2,5) toy_lib_correct(2) env(3,4) sample_lifespan(6) rq, of 100]
      more by blast
qed

section \<open>A password too long to be typed\<close>

text \<open>The settings bound the administrator's password from below only, the login body also from above: over 1024
  characters the boot accepts a password that no login can ever present.\<close>

theorem overlong_admin_password:
  assumes "1024 < length p" "require_unlocked_keys (ap_keys a) = Inr ks"
  shows "validate_settings (sample_settings\<lparr>as_admin_password := Some p\<rparr>) = Inr (sample_settings\<lparr>as_admin_password := Some p\<rparr>) \<and>
    (lb_password body = p \<longrightarrow> fst (api_login L ufold le body rq a) = Inl validation_error)"
  using assms
  by (auto simp: api_login_def login_request_valid_def sized_def validate_settings_def sample_settings_def default_settings_def
      validate_passphrase_source_def validate_admin_password_length_def validate_reset_flag_pairing_def
      MIN_PASSPHRASE_LENGTH_def MIN_ADMIN_PASSWORD_LENGTH_def)

end
