(* ===== verification/Fake_Supervisor.thy ===== *)
theory Fake_Supervisor
  imports Supervisor
begin

text \<open>
  The test double of \<^verbatim>\<open>app/fanout/_testing.py\<close> that stands for the supervisor in the tests of the
  HTTP handlers, and how far it can be trusted: its run state and its refusals are those of the
  supervisor for every sequence of calls, as long as no start fails.
\<close>

section \<open>The double\<close>

datatype fake_argument = ArgText pystr | ArgSeconds rat

type_synonym fake_call = "pystr \<times> (pystr \<times> fake_argument) list"

record fake_supervisor =
  fk_run_state :: run_state
  fk_changed_at :: "datetime option"
  fk_targets :: "(pystr \<times> target) list"
  fk_bus :: "bus_event event_bus option"
  fk_heartbeat_ns :: int
  fk_stop_event :: bool
  fk_ready_event :: bool
  fk_calls :: "fake_call list"

text \<open>The clock readings of a call.\<close>

record fake_env =
  fe_now :: datetime
  fe_mns :: int

definition new_fake_supervisor :: "bus_event event_bus option \<Rightarrow> int \<Rightarrow> fake_supervisor" where
  "new_fake_supervisor b mns =
     \<lparr>fk_run_state = OFFLINE, fk_changed_at = None, fk_targets = [], fk_bus = b, fk_heartbeat_ns = mns,
      fk_stop_event = False, fk_ready_event = False, fk_calls = []\<rparr>"

definition journal :: "pystr \<Rightarrow> (pystr \<times> fake_argument) list \<Rightarrow> fake_supervisor \<Rightarrow> fake_supervisor" where
  "journal name args f = f\<lparr>fk_calls := fk_calls f @ [(name, args)]\<rparr>"

definition fake_put :: "fake_env \<Rightarrow> pystr option \<Rightarrow> bus_payload \<Rightarrow> fake_supervisor \<Rightarrow> fake_supervisor" where
  "fake_put env tid p f =
     (case fk_bus f of
        None \<Rightarrow> f
      | Some b \<Rightarrow> f\<lparr>fk_bus := Some (bus_put b \<lparr>be_at = fe_now env, be_monotonic_ns = fe_mns env,
            be_target_id = tid, be_payload = p\<rparr>)\<rparr>)"

definition transition_to :: "fake_env \<Rightarrow> run_state \<Rightarrow> pystr \<Rightarrow> fake_supervisor \<Rightarrow> fake_supervisor" where
  "transition_to env st c f =
     fake_put env None (RunStateChanged st (fk_run_state f) c)
       (f\<lparr>fk_run_state := st, fk_changed_at := Some (fe_now env), fk_heartbeat_ns := fe_mns env\<rparr>)"

text \<open>\<^verbatim>\<open>run\<close> up to its wait, \<^verbatim>\<open>stop\<close>, and whether \<^verbatim>\<open>wait_ready\<close> returns at once.\<close>

definition fake_run_begin :: "fake_env \<Rightarrow> bus_event event_bus \<Rightarrow> fake_supervisor \<Rightarrow> fake_supervisor" where
  "fake_run_begin env b f = f\<lparr>fk_bus := Some b, fk_heartbeat_ns := fe_mns env, fk_ready_event := True\<rparr>"

definition fake_stop :: "fake_supervisor \<Rightarrow> fake_supervisor" where
  "fake_stop f = f\<lparr>fk_stop_event := True\<rparr>"

definition fake_is_ready :: "fake_supervisor \<Rightarrow> bool" where
  "fake_is_ready f = fk_ready_event f"

section \<open>Run control\<close>

definition fake_start_run :: "fake_env \<Rightarrow> fake_supervisor \<Rightarrow> fake_supervisor \<times> run_error option" where
  "fake_start_run env f0 =
     (let f = journal ''start_run'' [] f0
      in if fk_run_state f \<noteq> OFFLINE
         then (f, Some (IllegalRunStateTransitionError (fk_run_state f) START_REQUESTED))
         else (transition_to env ARMED ''(fake) workers spawned''
                (transition_to env STARTING ''user pressed START'' f), None))"

definition fake_stop_run :: "fake_env \<Rightarrow> rat \<Rightarrow> pystr \<Rightarrow> fake_supervisor \<Rightarrow> fake_supervisor" where
  "fake_stop_run env grace reason f0 =
     (let f = journal ''stop_run'' [(''grace'', ArgSeconds grace), (''reason'', ArgText reason)] f0
      in if fk_run_state f = OFFLINE \<or> fk_run_state f = ERROR then f
         else transition_to env OFFLINE ''all workers drained''
                (transition_to env STOPPING (''stop requested ('' @ reason @ '')'') f))"

definition fake_enable_target :: "pystr \<Rightarrow> fake_supervisor \<Rightarrow> fake_supervisor" where
  "fake_enable_target tid = journal ''enable_target'' [(''target_id'', ArgText tid)]"

definition fake_disable_target :: "pystr \<Rightarrow> fake_supervisor \<Rightarrow> fake_supervisor" where
  "fake_disable_target tid = journal ''disable_target'' [(''target_id'', ArgText tid)]"

definition fake_reset_target_worker :: "pystr \<Rightarrow> worker_role \<Rightarrow> fake_supervisor \<Rightarrow> fake_supervisor" where
  "fake_reset_target_worker tid role =
     journal ''reset_target_worker'' [(''target_id'', ArgText tid), (''role'', ArgText (role_value role))]"

definition fake_publish_began :: "fake_env \<Rightarrow> fake_supervisor \<Rightarrow> fake_supervisor" where
  "fake_publish_began env f0 =
     (let f = journal ''notify_obs_publish_began'' [] f0
      in if fk_run_state f = ARMED then transition_to env LIVE ''OBS started publishing'' f else f)"

definition fake_publish_ended :: "fake_env \<Rightarrow> fake_supervisor \<Rightarrow> fake_supervisor" where
  "fake_publish_ended env f0 =
     (let f = journal ''notify_obs_publish_ended'' [] f0
      in if fk_run_state f = LIVE then transition_to env ARMED ''OBS stopped publishing'' f else f)"

section \<open>Reads and test helpers\<close>

definition fake_targets :: "fake_supervisor \<Rightarrow> target list" where
  "fake_targets f = map snd (fk_targets f)"

definition fake_heartbeat_age :: "int \<Rightarrow> fake_supervisor \<Rightarrow> timedelta" where
  "fake_heartbeat_age mns f = timedelta_of_seconds (of_int (mns - fk_heartbeat_ns f) / 10 ^ 9)"

definition fake_heartbeat_is_stale :: "int \<Rightarrow> fake_supervisor \<Rightarrow> bool" where
  "fake_heartbeat_is_stale mns f \<longleftrightarrow> fake_heartbeat_age mns f > HEARTBEAT_STALE_AFTER"

definition fake_recent_log_lines :: "pystr \<Rightarrow> worker_role \<Rightarrow> fake_supervisor \<Rightarrow> bytes list" where
  "fake_recent_log_lines tid role f = []"

definition add_target :: "target \<Rightarrow> fake_supervisor \<Rightarrow> fake_supervisor" where
  "add_target t f = f\<lparr>fk_targets := AList.update (tg_id t) t (fk_targets f)\<rparr>"

text \<open>The age is a whole number of microseconds; the product with the nanoseconds is exact for any age
  a double can hold without rounding, which is what the model assumes.\<close>

definition freeze_heartbeat :: "timedelta \<Rightarrow> int \<Rightarrow> fake_supervisor \<Rightarrow> fake_supervisor" where
  "freeze_heartbeat age mns f = f\<lparr>fk_heartbeat_ns := mns - age * 1000\<rparr>"

definition inject_target_snapshot ::
    "fake_env \<Rightarrow> pystr \<Rightarrow> target_ui_state \<Rightarrow> worker_snapshot list \<Rightarrow> fake_supervisor \<Rightarrow> fake_supervisor" where
  "inject_target_snapshot env tid ui snaps = fake_put env (Some tid) (TargetSnapshot tid ui snaps)"

section \<open>The double and the table\<close>

lemma transition_to_state [simp]:
  "fk_run_state (transition_to env t c f) = t" "fk_calls (transition_to env t c f) = fk_calls f"
  by (simp_all add: transition_to_def fake_put_def split: option.split)

lemma journal_frame [simp]:
  "fk_run_state (journal n a f) = fk_run_state f" "fk_calls (journal n a f) = fk_calls f @ [(n, a)]"
  by (simp_all add: journal_def)

text \<open>The handlers' calls, on the double and on the supervisor.\<close>

datatype run_call =
  CallStart | CallStop pystr | CallBegan | CallEnded | CallEnable pystr | CallDisable pystr | CallReset pystr worker_role

fun fake_do :: "fake_supervisor \<Rightarrow> run_call \<times> fake_env \<Rightarrow> fake_supervisor \<times> run_error option" where
  "fake_do f (CallStart, env) = fake_start_run env f"
| "fake_do f (CallStop reason, env) = (fake_stop_run env 5 reason f, None)"
| "fake_do f (CallBegan, env) = (fake_publish_began env f, None)"
| "fake_do f (CallEnded, env) = (fake_publish_ended env f, None)"
| "fake_do f (CallEnable tid, env) = (fake_enable_target tid f, None)"
| "fake_do f (CallDisable tid, env) = (fake_disable_target tid f, None)"
| "fake_do f (CallReset tid role, env) = (fake_reset_target_worker tid role f, None)"

text \<open>What a caller is refused with; every other failure of the supervisor is left out.\<close>

definition refusal :: "sv_error option \<Rightarrow> run_error option" where
  "refusal e = (case e of Some (SvIllegal r) \<Rightarrow> Some r | _ \<Rightarrow> None)"

fun real_do :: "supervisor \<Rightarrow> run_call \<times> sv_env \<Rightarrow> supervisor \<times> run_error option" where
  "real_do s (CallStart, env) = (fst (start_run env s), refusal (snd (start_run env s)))"
| "real_do s (CallStop reason, env) = (fst (stop_run env reason s), refusal (snd (stop_run env reason s)))"
| "real_do s (CallBegan, env) = (notify_obs_publish_began env s, None)"
| "real_do s (CallEnded, env) = (notify_obs_publish_ended env s, None)"
| "real_do s (CallEnable tid, env) = (fst (enable_target env tid s), refusal (snd (enable_target env tid s)))"
| "real_do s (CallDisable tid, env) = (disable_target env tid s, None)"
| "real_do s (CallReset tid role, env) = (reset_target_worker tid role s, None)"

fun fake_calls_run :: "fake_supervisor \<Rightarrow> (run_call \<times> fake_env) list \<Rightarrow> fake_supervisor \<times> run_error option list" where
  "fake_calls_run f [] = (f, [])"
| "fake_calls_run f (c # cs) =
     (case fake_do f c of (f1, r) \<Rightarrow> (case fake_calls_run f1 cs of (f2, rs) \<Rightarrow> (f2, r # rs)))"

fun real_calls_run :: "supervisor \<Rightarrow> (run_call \<times> sv_env) list \<Rightarrow> supervisor \<times> run_error option list" where
  "real_calls_run s [] = (s, [])"
| "real_calls_run s (c # cs) =
     (case real_do s c of (s1, r) \<Rightarrow> (case real_calls_run s1 cs of (s2, rs) \<Rightarrow> (s2, r # rs)))"

text \<open>No start that was not refused fails, and no signal of the ingest comes while one is under way.\<close>

fun starts_succeed :: "supervisor \<Rightarrow> (run_call \<times> sv_env) list \<Rightarrow> bool" where
  "starts_succeed s [] \<longleftrightarrow> True"
| "starts_succeed s ((c, env) # cs) \<longleftrightarrow>
     (c = CallStart \<and> sv_run_state s = OFFLINE \<longrightarrow>
        snd (start_run env s) = None \<and> ev_signals env ''run_started'' = []) \<and>
     starts_succeed (fst (real_do s (c, env))) cs"

fun call_name :: "run_call \<Rightarrow> pystr" where
  "call_name CallStart = ''start_run''"
| "call_name (CallStop reason) = ''stop_run''"
| "call_name CallBegan = ''notify_obs_publish_began''"
| "call_name CallEnded = ''notify_obs_publish_ended''"
| "call_name (CallEnable tid) = ''enable_target''"
| "call_name (CallDisable tid) = ''disable_target''"
| "call_name (CallReset tid role) = ''reset_target_worker''"

section \<open>Only starts are refused\<close>

lemma steps_refusal:
  "(\<And>f t. f \<in> set fs \<Longrightarrow> refusal (snd (f t)) = None) \<Longrightarrow> refusal (snd (steps fs s)) = None"
proof (induction fs arbitrary: s)
  case (Cons f fs)
  obtain t e where f: "f s = (t, e)" by fastforce
  then show ?case using Cons.prems [of f s] Cons.IH [of t] Cons.prems by (cases e) auto
qed (simp add: refusal_def)

lemma spawn_worker_refusal: "refusal (snd (spawn_worker env t dm key role s)) = None"
  by (auto simp: spawn_worker_def launch_guarded_def launch_worker_def refusal_def Let_def
      split: sum.splits prod.splits option.splits if_splits)

lemma enable_refusal: "refusal (snd (enable_target env tid s)) = None"
proof -
  have "refusal (snd (spawn_workers_for_target env t dm k u)) = None" for t dm k u
    unfolding spawn_workers_for_target_def by (rule steps_refusal) (auto simp: spawn_worker_refusal)
  moreover have "refusal (Some e) = None" if "reload_target env tid s = Inl e" for e
    using that
    by (auto simp: reload_target_def load_row_def refusal_def Let_def split: sum.splits option.splits if_splits
        opened_credential.splits)
  moreover have "refusal None = None" by (simp add: refusal_def)
  ultimately show ?thesis
    by (auto simp: enable_target_def enable_locked_def Let_def split: sum.splits option.splits)
qed

lemma tear_down_all_refusal: "refusal (snd (tear_down_all_workers env s)) = None"
  by (simp add: tear_down_all_workers_def refusal_def Let_def)

lemma stop_refusal: "refusal (snd (stop_run env reason s)) = None"
proof (cases "sv_run_state s = STARTING \<or> sv_run_state s = ARMED \<or> sv_run_state s = LIVE")
  case True
  from stop_run_parts [OF this, of env reason] show ?thesis using tear_down_all_refusal by fastforce
next
  case False
  then show ?thesis by (cases "sv_run_state s") (auto simp: stop_run_def refusal_def)
qed

section \<open>In step with the supervisor\<close>

lemma start_run_armed:
  assumes "start_run env s = (s', None)" "ev_signals env ''run_started'' = []"
  shows "sv_run_state s' = ARMED"
proof -
  define s1 where "s1 = publish_run_state env OFFLINE ''user pressed START'' (s\<lparr>sv_run_state := STARTING\<rparr>)"
  have "sv_run_state s = OFFLINE" using assms(1) by (simp add: start_run_def split: if_splits)
  then have s1: "sv_run_state s1 = STARTING" "start_body env s1 = (s', None)"
    using assms(1) by (auto simp: s1_def start_run_def set_run_state_def split: prod.splits option.splits)
  from start_body_state [OF this] show ?thesis using assms(2) by simp
qed

lemma stop_run_state:
  assumes "sv_run_state s = STARTING \<or> sv_run_state s = ARMED \<or> sv_run_state s = LIVE"
  shows "sv_run_state (fst (stop_run env r s)) = OFFLINE"
  using stop_run_parts [OF assms, of env r] stop_cleanup_result [of _ env r] by (metis fst_conv tear_down_all_run_state)

lemma enable_run_state [simp]: "sv_run_state (fst (enable_target env tid s)) = sv_run_state s"
  by (auto simp: enable_target_def enable_locked_def Let_def split: sum.split option.split)

text \<open>One call: the double and the supervisor agree before and after, and answer alike.\<close>

lemma fake_step:
  assumes "fk_run_state f = sv_run_state s" "sv_run_state s \<noteq> STOPPING"
    "c = CallStart \<and> sv_run_state s = OFFLINE \<longrightarrow> snd (start_run env s) = None \<and> ev_signals env ''run_started'' = []"
  shows "fk_run_state (fst (fake_do f (c, fe))) = sv_run_state (fst (real_do s (c, env)))"
    "snd (fake_do f (c, fe)) = snd (real_do s (c, env))" "sv_run_state (fst (real_do s (c, env))) \<noteq> STOPPING"
    "map fst (fk_calls (fst (fake_do f (c, fe)))) = map fst (fk_calls f) @ [call_name c]"
proof -
  have started: "sv_run_state (fst (start_run env s)) = ARMED" if "c = CallStart" "sv_run_state s = OFFLINE"
    using start_run_armed [of env s "fst (start_run env s)"] assms(3) that by (cases "start_run env s") simp
  have stopped: "sv_run_state (fst (stop_run env r s)) =
      (if sv_run_state s = OFFLINE \<or> sv_run_state s = ERROR then sv_run_state s else OFFLINE)" for r
    using stop_run_state [of s env r] assms(2) by (cases "sv_run_state s") (auto simp: stop_run_def)
  show "fk_run_state (fst (fake_do f (c, fe))) = sv_run_state (fst (real_do s (c, env)))"
    using assms(1,2) started stopped
    by (cases c) (auto simp: fake_start_run_def fake_stop_run_def fake_publish_began_def fake_publish_ended_def
        fake_enable_target_def fake_disable_target_def fake_reset_target_worker_def start_run_def Let_def
        notify_obs_publish_began_def notify_obs_publish_ended_def disable_target_def reset_target_worker_def)
  show "snd (fake_do f (c, fe)) = snd (real_do s (c, env))"
    using assms stop_refusal enable_refusal
    by (cases c) (auto simp: fake_start_run_def start_run_def refusal_def Let_def)
  show "sv_run_state (fst (real_do s (c, env))) \<noteq> STOPPING"
    using assms(2) started stopped
    by (cases c) (auto simp: start_run_def notify_obs_publish_began_def notify_obs_publish_ended_def disable_target_def
        reset_target_worker_def)
  show "map fst (fk_calls (fst (fake_do f (c, fe)))) = map fst (fk_calls f) @ [call_name c]"
    by (cases c) (auto simp: fake_start_run_def fake_stop_run_def fake_publish_began_def fake_publish_ended_def
        fake_enable_target_def fake_disable_target_def fake_reset_target_worker_def Let_def)
qed

text \<open>From any common state but STOPPING, however the calls follow one another, the double is in the run state of the
  supervisor, refuses the calls it refuses, with the same exception, and has written every call to its journal, as long
  as no start fails for another reason.\<close>

theorem fake_follows_supervisor:
  assumes "fk_run_state f = sv_run_state s" "sv_run_state s \<noteq> STOPPING" "starts_succeed s calls"
    "map fst fake_calls = map fst calls"
  shows "fk_run_state (fst (fake_calls_run f fake_calls)) = sv_run_state (fst (real_calls_run s calls)) \<and>
    snd (fake_calls_run f fake_calls) = snd (real_calls_run s calls) \<and>
    map fst (fk_calls (fst (fake_calls_run f fake_calls))) = map fst (fk_calls f) @ map (\<lambda>(c, env). call_name c) calls"
  using assms
proof (induction calls arbitrary: f s fake_calls)
  case (Cons call calls)
  obtain c env where c: "call = (c, env)" by (cases call)
  then obtain fe rest where fc: "fake_calls = (c, fe) # rest" "map fst rest = map fst calls" using Cons.prems(4) by auto
  have ok: "c = CallStart \<and> sv_run_state s = OFFLINE \<longrightarrow> snd (start_run env s) = None \<and> ev_signals env ''run_started'' = []"
    "starts_succeed (fst (real_do s (c, env))) calls" using Cons.prems(3) c by auto
  note st = fake_step(1,2,4) [OF Cons.prems(1,2) ok(1), of fe] fake_step(3) [OF Cons.prems(1,2) ok(1)]
  show ?case using Cons.IH [OF st(1,4) ok(2) fc(2)] st(2,3) by (simp add: c fc(1) case_prod_unfold)
qed simp

text \<open>In STOPPING, which a test can only put it into by hand, the double drains and goes OFFLINE; the supervisor leaves a
  stop under way alone. Its transitions do not ask the table, but none of the others contradicts it.\<close>

lemma fake_stop_while_stopping:
  assumes "fk_run_state f = STOPPING" "sv_run_state s = STOPPING"
  shows "fk_run_state (fake_stop_run fe 5 r f) = OFFLINE" "stop_run env r s = (s, None)"
  using assms by (simp_all add: fake_stop_run_def stop_run_def Let_def)

lemma fake_moves_follow_table:
  assumes "fk_run_state f \<noteq> STOPPING"
  shows "act_path (fk_run_state f) (fk_run_state (fst (fake_do f (c, fe))))"
proof -
  have "act_path OFFLINE ARMED" "act_path STARTING OFFLINE" "act_path ARMED OFFLINE" "act_path LIVE OFFLINE"
    using act_path_trans [OF act_path_step [of OFFLINE START_REQUESTED STARTING] act_path_step [of STARTING WORKERS_SPAWNED ARMED]]
      act_path_trans [OF act_path_step [of STARTING STOP_REQUESTED STOPPING] act_path_step [of STOPPING WORKERS_DRAINED OFFLINE]]
      act_path_trans [OF act_path_step [of ARMED STOP_REQUESTED STOPPING] act_path_step [of STOPPING WORKERS_DRAINED OFFLINE]]
      act_path_trans [OF act_path_step [of LIVE STOP_REQUESTED STOPPING] act_path_step [of STOPPING WORKERS_DRAINED OFFLINE]]
    by simp_all
  moreover have "act_path ARMED LIVE" "act_path LIVE ARMED"
    using act_path_step [of ARMED OBS_PUBLISH_BEGAN LIVE] act_path_step [of LIVE OBS_PUBLISH_ENDED ARMED] by simp_all
  ultimately show ?thesis
    using assms
    by (cases c; cases "fk_run_state f")
      (simp_all add: fake_start_run_def fake_stop_run_def fake_publish_began_def fake_publish_ended_def
        fake_enable_target_def fake_disable_target_def fake_reset_target_worker_def Let_def)
qed

text \<open>A frozen heartbeat shows the age it was frozen at.\<close>

lemma frozen_heartbeat_age: "fake_heartbeat_age mns (freeze_heartbeat age mns f) = timedelta_of_seconds (of_int age / 10 ^ 6)"
  by (simp add: fake_heartbeat_age_def freeze_heartbeat_def)

text \<open>A run on both, with the sample start.\<close>

theorem fake_follows_supervisor_witness:
  "snd (fake_calls_run (new_fake_supervisor None 0)
      [(CallStart, \<lparr>fe_now = 1, fe_mns = 1\<rparr>), (CallBegan, \<lparr>fe_now = 2, fe_mns = 2\<rparr>), (CallStart, \<lparr>fe_now = 3, fe_mns = 3\<rparr>)]) =
   snd (real_calls_run sample_sv [(CallStart, sample_env), (CallBegan, sample_env), (CallStart, sample_env)])"
proof -
  have "sv_run_state sample_sv = OFFLINE" by (simp add: sample_sv_def new_supervisor_def)
  moreover have "ev_signals sample_env ''run_started'' = []" by (simp add: sample_env_def)
  moreover have "snd (start_run sample_env sample_sv) = None" "sv_run_state (fst (start_run sample_env sample_sv)) = ARMED"
    using sample_start by (simp_all add: case_prod_unfold)
  ultimately show ?thesis
    using fake_follows_supervisor [of "new_fake_supervisor None 0" sample_sv
        "[(CallStart, sample_env), (CallBegan, sample_env), (CallStart, sample_env)]"
        "[(CallStart, \<lparr>fe_now = 1, fe_mns = 1\<rparr>), (CallBegan, \<lparr>fe_now = 2, fe_mns = 2\<rparr>), (CallStart, \<lparr>fe_now = 3, fe_mns = 3\<rparr>)]"]
    by (simp add: new_fake_supervisor_def notify_obs_publish_began_def)
qed

end
