(* ===== verification/Worker_Stop.thy ===== *)
theory Worker_Stop
  imports Ffmpeg_Worker
begin

text \<open>
  The whole of \<^verbatim>\<open>FFmpegWorker.stop\<close> (\<^verbatim>\<open>app/fanout/ffmpeg_worker.py\<close>) as the list of what it does and
  when: the signals to the child and the steps it takes on the worker, which are inputs of the step
  function of \<open>Ffmpeg_Worker\<close>. How fast the child and the lifecycle task react is the environment of
  the call. \<^verbatim>\<open>asyncio.wait_for\<close> is that of Python 3.12, the oldest version the project admits: at the
  deadline it cancels the awaited task and returns only once that task has ended, so the second,
  shorter wait of the source finds it done. Something that ends exactly at a deadline has ended in
  time; a cancelled lifecycle task ends with its cancellation.
\<close>

section \<open>The stop\<close>

definition HARD_KILL_GRACE :: rat where
  "HARD_KILL_GRACE = 2"

datatype stop_action = SetStopRequested | SendTerminate | SendKill | WakeReset | CancelLifecycle | CloseChannel

text \<open>Seconds from the signal, the wake or the cancellation until the child or the task has ended.\<close>

record stop_env =
  st_exit_after_term :: "rat option"
  st_exit_after_kill :: "rat option"
  st_lifecycle_ends :: "rat option"
  st_lifecycle_raises :: bool
  st_cancel_latency :: rat

definition wait_for :: "rat option \<Rightarrow> rat \<Rightarrow> rat \<times> bool" where
  "wait_for d timeout =
     (case d of
        None \<Rightarrow> (timeout, False)
      | Some t \<Rightarrow> if t \<le> timeout then (t, True) else (timeout, False))"

definition stop_child :: "stop_env \<Rightarrow> rat \<Rightarrow> (rat \<times> stop_action) list \<times> rat" where
  "stop_child env grace =
     (case wait_for (st_exit_after_term env) grace of
        (t, True) \<Rightarrow> ([(0, SendTerminate)], t)
      | (t, False) \<Rightarrow>
          ([(0, SendTerminate), (t, SendKill)], t + fst (wait_for (st_exit_after_kill env) HARD_KILL_GRACE)))"

text \<open>What the wait for the lifecycle does, how long it takes, and whether it raises.\<close>

definition stop_lifecycle :: "stop_env \<Rightarrow> (rat \<times> stop_action) list \<times> rat \<times> bool" where
  "stop_lifecycle env =
     (case wait_for (st_lifecycle_ends env) HARD_KILL_GRACE of
        (t, True) \<Rightarrow> ([], t, st_lifecycle_raises env)
      | (t, False) \<Rightarrow> ([(t, CancelLifecycle)], t + st_cancel_latency env, False))"

definition child_alive :: "ffmpeg_worker \<Rightarrow> bool" where
  "child_alive w \<longleftrightarrow> (case fw_process w of None \<Rightarrow> False | Some p \<Rightarrow> proc_returncode p = None)"

definition delayed :: "rat \<Rightarrow> (rat \<times> stop_action) list \<Rightarrow> (rat \<times> stop_action) list" where
  "delayed d acts = map (\<lambda>(t, a). (d + t, a)) acts"

text \<open>\<open>finished\<close>: there is no lifecycle task, or it is done, when the wait for the child is over.\<close>

definition stop_script :: "stop_env \<Rightarrow> rat \<Rightarrow> bool \<Rightarrow> ffmpeg_worker \<Rightarrow> (rat \<times> stop_action) list \<times> rat \<times> bool" where
  "stop_script env grace finished w =
     (let (signals, t1) = (if child_alive w then stop_child env grace else ([], 0));
          (acts, t2, raised) = (if finished then ([], 0, False) else stop_lifecycle env)
      in ((0, SetStopRequested) # signals @ (t1, WakeReset) # delayed t1 acts @
            (if raised then [] else [(t1 + t2, CloseChannel)]),
          t1 + t2, raised))"

text \<open>The steps on the worker among these actions.\<close>

fun action_input :: "stop_action \<Rightarrow> fw_input option" where
  "action_input SetStopRequested = Some StopRequest"
| "action_input SendTerminate = None"
| "action_input SendKill = None"
| "action_input WakeReset = Some StopWake"
| "action_input CancelLifecycle = Some StopCancel"
| "action_input CloseChannel = Some StopClose"

section \<open>How long it takes, and what it signals\<close>

definition stop_env_ok :: "stop_env \<Rightarrow> bool" where
  "stop_env_ok env \<longleftrightarrow> 0 \<le> st_cancel_latency env \<and>
     (\<forall>t. st_exit_after_term env = Some t \<or> st_exit_after_kill env = Some t \<or> st_lifecycle_ends env = Some t \<longrightarrow> 0 \<le> t)"

lemma wait_for_bounds:
  "fst (wait_for d timeout) \<le> timeout"
  "0 \<le> timeout \<Longrightarrow> (\<And>t. d = Some t \<Longrightarrow> 0 \<le> t) \<Longrightarrow> 0 \<le> fst (wait_for d timeout)"
  "snd (wait_for d timeout) \<longleftrightarrow> (\<exists>t\<le>timeout. d = Some t)"
  "\<not> snd (wait_for d timeout) \<Longrightarrow> fst (wait_for d timeout) = timeout"
  by (auto simp: wait_for_def split: option.splits if_splits)

text \<open>C12: A stop always returns, at the latest after the grace, two times the hard-kill grace and
  the time a cancelled lifecycle takes to end. A live child gets SIGTERM at once and SIGKILL exactly when it has not ended
  by the end of the grace, at that moment; without a live child nothing is signalled. Unless the lifecycle raised, closing
  the event channel is the last thing done, and the steps on the worker come in this order: request, wake, cancellation of
  a lifecycle that did not wind down, close.\<close>

theorem worker_stop_escalates:
  assumes "stop_env_ok env" "0 \<le> grace" "stop_script env grace finished w = (acts, t, raised)"
  shows "0 \<le> t \<and> t \<le> grace + 2 * HARD_KILL_GRACE + st_cancel_latency env \<and>
    filter (\<lambda>(u, a). action_input a = None) acts =
      (if \<not> child_alive w then []
       else if \<exists>d\<le>grace. st_exit_after_term env = Some d then [(0, SendTerminate)]
       else [(0, SendTerminate), (grace, SendKill)]) \<and>
    List.map_filter (action_input \<circ> snd) acts =
      [StopRequest, StopWake] @ (if \<not> finished \<and> \<not> (\<exists>d\<le>HARD_KILL_GRACE. st_lifecycle_ends env = Some d) then [StopCancel] else []) @
      (if raised then [] else [StopClose]) \<and>
    (\<not> raised \<longrightarrow> last acts = (t, CloseChannel))"
proof -
  obtain signals t1 where child: "(if child_alive w then stop_child env grace else ([], 0)) = (signals, t1)" by fastforce
  obtain steps t2 r where cycle: "(if finished then ([], 0, False) else stop_lifecycle env) = (steps, t2, r)"
    by (cases "if finished then ([], 0, False) else stop_lifecycle env") auto
  have acts: "acts = (0, SetStopRequested) # signals @ (t1, WakeReset) # delayed t1 steps @ (if raised then [] else [(t, CloseChannel)])"
    "t = t1 + t2" "raised = r"
    using assms(3) by (auto simp: stop_script_def child cycle Let_def)
  have nonneg: "st_exit_after_term env = Some u \<Longrightarrow> 0 \<le> u" "st_exit_after_kill env = Some u \<Longrightarrow> 0 \<le> u"
    "st_lifecycle_ends env = Some u \<Longrightarrow> 0 \<le> u" "0 \<le> st_cancel_latency env" for u
    using assms(1) by (auto simp: stop_env_ok_def)
  have g: "0 \<le> HARD_KILL_GRACE" by (simp add: HARD_KILL_GRACE_def)
  have kill: "0 \<le> fst (wait_for (st_exit_after_kill env) HARD_KILL_GRACE)" "fst (wait_for (st_exit_after_kill env) HARD_KILL_GRACE) \<le> HARD_KILL_GRACE"
    using wait_for_bounds(1,2) g nonneg(2) by blast+
  have term_nonneg: "0 \<le> fst (wait_for (st_exit_after_term env) grace)"
    using wait_for_bounds(2) assms(2) nonneg(1) by blast
  have t1: "0 \<le> t1" "t1 \<le> grace + HARD_KILL_GRACE"
    using child wait_for_bounds(1) [of "st_exit_after_term env" grace] term_nonneg kill g assms(2)
    by (auto simp: stop_child_def split: if_splits prod.splits bool.splits)
  have life: "0 \<le> fst (wait_for (st_lifecycle_ends env) HARD_KILL_GRACE)" "fst (wait_for (st_lifecycle_ends env) HARD_KILL_GRACE) \<le> HARD_KILL_GRACE"
    using wait_for_bounds(1,2) g nonneg(3) by blast+
  have t2: "0 \<le> t2" "t2 \<le> HARD_KILL_GRACE + st_cancel_latency env"
    using cycle life nonneg(4) g by (auto simp: stop_lifecycle_def split: if_splits prod.splits bool.splits)
  have signals: "signals = (if \<not> child_alive w then []
       else if \<exists>d\<le>grace. st_exit_after_term env = Some d then [(0, SendTerminate)] else [(0, SendTerminate), (grace, SendKill)])"
    using child wait_for_bounds(3,4) [of "st_exit_after_term env" grace]
    by (auto simp: stop_child_def split: if_splits prod.splits bool.splits)
  have steps: "map snd steps = (if \<not> finished \<and> \<not> (\<exists>d\<le>HARD_KILL_GRACE. st_lifecycle_ends env = Some d) then [CancelLifecycle] else [])"
    using cycle wait_for_bounds(3) [of "st_lifecycle_ends env" HARD_KILL_GRACE]
    by (auto simp: stop_lifecycle_def split: if_splits prod.splits bool.splits)
  have "0 \<le> t \<and> t \<le> grace + 2 * HARD_KILL_GRACE + st_cancel_latency env" using t1 t2 acts(2) by simp
  moreover have "steps = [] \<or> (\<exists>x. steps = [(x, CancelLifecycle)])"
    using steps by (cases steps) (auto split: if_splits)
  ultimately show ?thesis
    using steps unfolding acts(1,3) signals
    by (auto simp: delayed_def List.map_filter_def acts(3) split: if_splits)
qed

text \<open>The supervisor's comment bounds a stop by the grace and one hard-kill grace. A child that ignores SIGTERM and a
  lifecycle that does not wind down take it beyond.\<close>

definition stubborn :: stop_env where
  "stubborn = \<lparr>st_exit_after_term = None, st_exit_after_kill = Some 1, st_lifecycle_ends = None,
     st_lifecycle_raises = False, st_cancel_latency = 1 / 10\<rparr>"

lemma stop_exceeds_documented_bound:
  "child_alive w \<Longrightarrow> 0 \<le> grace \<Longrightarrow> fst (snd (stop_script stubborn grace False w)) > grace + HARD_KILL_GRACE"
  by (simp add: stop_script_def stop_child_def stop_lifecycle_def wait_for_def stubborn_def HARD_KILL_GRACE_def Let_def)

section \<open>Stopping while the spawn is in flight\<close>

text \<open>C13: A stop that arrives while the spawn is in flight sees no child and signals nothing. When
  the spawn then delivers one that outlives the wait, the stop returns without an error, the lifecycle cancelled and the
  channel closed, and the child is still running with nobody left to read its output, see its exit or end it.\<close>

theorem stop_during_spawn_orphans:
  assumes "fw_ok w" "fw_ctl w = Spawning" "st_lifecycle_ends env = None"
    "sorted [clk, n1, n2, n3, n4, n5]"
  shows "\<exists>acts t v. stop_script env grace False w = (acts, t, False) \<and>
    (\<forall>(u, a)\<in>set acts. a \<noteq> SendTerminate \<and> a \<noteq> SendKill) \<and>
    List.map_filter (action_input \<circ> snd) acts = [StopRequest, StopWake, StopCancel, StopClose] \<and>
    fw_run (w, clk) [(StopRequest, n1, m1), (StopWake, n2, m2), (SpawnDone (Spawned pid), n3, m3),
      (StopCancel, n4, m4), (StopClose, n5, m5)] = Some (v, n5) \<and>
    child_alive v \<and> fw_pid v = Some pid \<and> lifecycle_done v \<and> \<not> fw_channel_open v \<and>
    fw_step v (ProcessExit code) now mns = None \<and> fw_step v (StdoutData d) now mns = None \<and> fw_step v StallTick now mns = None"
proof -
  have alive: "\<not> child_alive w" using assms(1,2) by (auto simp: fw_ok_def child_alive_def)
  let ?v = "fw_stop_close (fw_stop_cancel (fw_spawn_result (fw_stop_wake (fw_stop_request w)) (Spawned pid) n3 m3))"
  have run: "fw_run (w, clk) [(StopRequest, n1, m1), (StopWake, n2, m2), (SpawnDone (Spawned pid), n3, m3),
      (StopCancel, n4, m4), (StopClose, n5, m5)] = Some (?v, n5)"
    using assms(2,4)
    by (simp add: fw_timed_def fw_step_def fw_stop_request_def fw_stop_wake_def fw_spawn_result_def fw_stop_cancel_def
        lifecycle_done_def)
  have v: "child_alive ?v" "fw_pid ?v = Some pid" "fw_ctl ?v = Cancelled" "\<not> fw_channel_open ?v"
    by (simp_all add: fw_stop_close_def fw_stop_cancel_def fw_spawn_result_def lifecycle_done_def child_alive_def fw_pid_def)
  have script: "stop_script env grace False w =
      ([(0, SetStopRequested), (0, WakeReset), (HARD_KILL_GRACE, CancelLifecycle),
        (HARD_KILL_GRACE + st_cancel_latency env, CloseChannel)], HARD_KILL_GRACE + st_cancel_latency env, False)"
    using alive assms(3) by (simp add: stop_script_def stop_lifecycle_def wait_for_def delayed_def Let_def)
  have dead: "lifecycle_done ?v" "fw_step ?v (ProcessExit code) now mns = None" "fw_step ?v (StdoutData d) now mns = None"
    "fw_step ?v StallTick now mns = None"
    using v(3) by (simp_all add: fw_step_def lifecycle_done_def)
  have actions: "\<forall>(u, a)\<in>set [(0 :: rat, SetStopRequested), (0, WakeReset), (HARD_KILL_GRACE, CancelLifecycle),
        (HARD_KILL_GRACE + st_cancel_latency env, CloseChannel)]. a \<noteq> SendTerminate \<and> a \<noteq> SendKill"
    "List.map_filter (action_input \<circ> snd) [(0 :: rat, SetStopRequested), (0, WakeReset), (HARD_KILL_GRACE, CancelLifecycle),
        (HARD_KILL_GRACE + st_cancel_latency env, CloseChannel)] = [StopRequest, StopWake, StopCancel, StopClose]"
    by (simp_all add: List.map_filter_def)
  show ?thesis using script actions run v(1,2,4) dead by blast
qed

text \<open>A worker whose spawn is in flight.\<close>

lemma sample_spawning:
  "\<exists>w0 w. new_ffmpeg_worker twitch_spec None 0 0 = Inr w0 \<and> fw_run (fw_start w0 0, 0) [(Resume 0, 1, 1)] = Some (w, 1) \<and>
    fw_ctl w = Spawning"
  by (simp add: new_ffmpeg_worker_def new_sink_def twitch_spec_def fw_start_def lifecycle_done_def fw_timed_def fw_step_def
      fw_resume_def fw_loop_top_def fw_set_state_def fw_emit_state_change_def fw_emit_def Let_def)

theorem stop_during_spawn_orphans_witness:
  "\<exists>w v. fw_ctl w = Spawning \<and> \<not> child_alive w \<and>
    fw_run (w, 1) [(StopRequest, 2, 2), (StopWake, 2, 2), (SpawnDone (Spawned 4711), 3, 3), (StopCancel, 5, 5), (StopClose, 5, 5)] =
      Some (v, 5) \<and> child_alive v \<and> lifecycle_done v"
proof -
  obtain w0 w where w: "new_ffmpeg_worker twitch_spec None 0 0 = Inr w0"
    "fw_run (fw_start w0 0, 0) [(Resume 0, 1, 1)] = Some (w, 1)" "fw_ctl w = Spawning"
    using sample_spawning by blast
  have ok: "fw_ok w" by (rule fw_run_ok [OF w(2) fw_new_ok [OF w(1)]])
  have lives: "st_lifecycle_ends stubborn = None" and times: "sorted [1 :: int, 2, 2, 3, 5, 5]" by (simp_all add: stubborn_def)
  show ?thesis
    using stop_during_spawn_orphans [OF ok w(3) lives times, where grace = 5 and ?m1.0 = 2 and ?m2.0 = 2 and ?m3.0 = 3
        and ?m4.0 = 5 and ?m5.0 = 5 and pid = 4711 and code = 0 and now = 6 and mns = 6 and d = "''x''"] w(3) ok
    by (fastforce simp: fw_ok_def child_alive_def)
qed

text \<open>The escalation on a worker with a child that ignores SIGTERM.\<close>

theorem worker_stop_escalates_witness:
  "\<exists>w acts t raised. stop_script stubborn 5 False w = (acts, t, raised) \<and> (5, SendKill) \<in> set acts \<and> t \<le> 91 / 10"
proof -
  obtain w0 w where w: "new_ffmpeg_worker twitch_spec None 0 0 = Inr w0"
    using sample_spawning by blast
  let ?w = "w0\<lparr>fw_process := Some \<lparr>proc_pid = 4711, proc_returncode = None\<rparr>\<rparr>"
  have alive: "child_alive ?w" by (simp add: child_alive_def)
  obtain acts t raised where script: "stop_script stubborn 5 False ?w = (acts, t, raised)" by (metis prod_cases3)
  have "stop_env_ok stubborn" "(0 :: rat) \<le> 5" by (simp_all add: stop_env_ok_def stubborn_def)
  note result = worker_stop_escalates [OF this script]
  have "filter (\<lambda>(u, a). action_input a = None) acts = [(0, SendTerminate), (5, SendKill)]"
    using result alive by (simp add: stubborn_def)
  then have "(5, SendKill) \<in> set (filter (\<lambda>(u, a). action_input a = None) acts)" by simp
  moreover have "t \<le> 91 / 10" using result by (simp add: stubborn_def HARD_KILL_GRACE_def)
  ultimately show ?thesis using script by (intro exI [of _ ?w] exI [of _ acts] exI [of _ t] exI [of _ raised]) simp
qed

end
