(* ===== verification/Json_Columns.thy ===== *)
theory Json_Columns
  imports Database Progress_Parser
begin

text \<open>
  The text of the JSON columns. \<open>Database\<close> keeps the values of \<^verbatim>\<open>settings_json\<close>, \<^verbatim>\<open>data_json\<close> and
  \<^verbatim>\<open>notes_json\<close> as trees; here is what the repositories write and read: \<^verbatim>\<open>json.dumps\<close> with its compact
  separators and ASCII escapes, \<^verbatim>\<open>json.loads\<close>, and the validators of the row objects in
  \<^verbatim>\<open>app/repositories/\<close>, with every way they refuse a value. Numbers with a fraction or an exponent, \<^verbatim>\<open>NaN\<close> and
  \<^verbatim>\<open>Infinity\<close>, and escapes of code points above 255 are not among the values of the model; loading them fails here. Printing and reading an integer of more than
  4300 digits raises, as in Python.
\<close>

section \<open>Printing\<close>

definition hex_digit :: "nat \<Rightarrow> char" where
  "hex_digit n = ''0123456789abcdef'' ! n"

definition escape_char :: "char \<Rightarrow> pystr" where
  "escape_char c =
     (let n = char_code c
      in if c = CHR ''\"'' then [CHR 0x5C, CHR ''\"'']
         else if n = 92 then [CHR 0x5C, CHR 0x5C]
         else if n = 10 then [CHR 0x5C, CHR ''n'']
         else if n = 13 then [CHR 0x5C, CHR ''r'']
         else if n = 9 then [CHR 0x5C, CHR ''t'']
         else if n = 8 then [CHR 0x5C, CHR ''b'']
         else if n = 12 then [CHR 0x5C, CHR ''f'']
         else if 32 \<le> n \<and> n < 127 then [c]
         else [CHR 0x5C, CHR ''u'', CHR ''0'', CHR ''0'', hex_digit (n div 16), hex_digit (n mod 16)])"

definition dumps_string :: "pystr \<Rightarrow> pystr" where
  "dumps_string s = CHR ''\"'' # concat (map escape_char s) @ [CHR ''\"'']"

fun join_comma :: "pystr list \<Rightarrow> pystr" where
  "join_comma [] = []"
| "join_comma [x] = x"
| "join_comma (x # xs) = x @ CHR '','' # join_comma xs"

fun dumps :: "json \<Rightarrow> pystr" where
  "dumps JNull = ''null''"
| "dumps (JBool b) = (if b then ''true'' else ''false'')"
| "dumps (JInt i) = show_int i"
| "dumps (JString s) = dumps_string s"
| "dumps (JArray vs) = CHR ''['' # join_comma (map dumps vs) @ '']''"
| "dumps (JObject kvs) = CHR ''{'' # join_comma (map (\<lambda>(k, v). dumps_string k @ CHR '':'' # dumps v) kvs) @ ''}''"

section \<open>Reading\<close>

definition json_space :: "char \<Rightarrow> bool" where
  "json_space c \<longleftrightarrow> c = CHR '' '' \<or> char_code c = 9 \<or> char_code c = 10 \<or> char_code c = 13"

definition skip_ws :: "pystr \<Rightarrow> pystr" where
  "skip_ws s = dropWhile json_space s"

definition hex_value :: "char \<Rightarrow> nat option" where
  "hex_value c =
     (let n = char_code c
      in if 48 \<le> n \<and> n \<le> 57 then Some (n - 48)
         else if 97 \<le> n \<and> n \<le> 102 then Some (n - 87)
         else if 65 \<le> n \<and> n \<le> 70 then Some (n - 55)
         else None)"

definition unicode_escape :: "char \<Rightarrow> char \<Rightarrow> char \<Rightarrow> char \<Rightarrow> char option" where
  "unicode_escape a b c d =
     (case (hex_value a, hex_value b, hex_value c, hex_value d) of
        (Some w, Some x, Some y, Some z) \<Rightarrow>
          (let n = ((w * 16 + x) * 16 + y) * 16 + z in if n < 256 then Some (char_of n) else None)
      | _ \<Rightarrow> None)"

definition simple_escape :: "char \<Rightarrow> char option" where
  "simple_escape c =
     (if c = CHR ''\"'' \<or> char_code c = 92 \<or> c = CHR ''/'' then Some c
      else if c = CHR ''n'' then Some (char_of (10 :: nat))
      else if c = CHR ''r'' then Some (char_of (13 :: nat))
      else if c = CHR ''t'' then Some (char_of (9 :: nat))
      else if c = CHR ''b'' then Some (char_of (8 :: nat))
      else if c = CHR ''f'' then Some (char_of (12 :: nat))
      else None)"

text \<open>After the opening quote: the string and what follows the closing one.\<close>

fun read_string :: "pystr \<Rightarrow> (pystr \<times> pystr) option" where
  "read_string [] = None"
| "read_string (c # r) =
     (if c = CHR ''\"'' then Some ([], r)
      else if char_code c < 32 then None
      else if char_code c \<noteq> 92 then map_option (\<lambda>(s, t). (c # s, t)) (read_string r)
      else (case r of
              [] \<Rightarrow> None
            | e # r1 \<Rightarrow>
               (if e = CHR ''u''
                then (case r1 of
                        w # x # y # z # r2 \<Rightarrow>
                          (case unicode_escape w x y z of
                             None \<Rightarrow> None
                           | Some u \<Rightarrow> map_option (\<lambda>(s, t). (u # s, t)) (read_string r2))
                      | _ \<Rightarrow> None)
                else (case simple_escape e of
                        None \<Rightarrow> None
                      | Some u \<Rightarrow> map_option (\<lambda>(s, t). (u # s, t)) (read_string r1)))))"

definition MAX_INT_DIGITS :: nat where
  "MAX_INT_DIGITS = 4300"

definition read_natural :: "pystr \<Rightarrow> (nat \<times> pystr) option" where
  "read_natural s =
     (case s of
        [] \<Rightarrow> None
      | c # r \<Rightarrow>
         (if c = CHR ''0'' then Some (0, r)
          else (let ds = takeWhile is_digit s
                in if ds = [] \<or> length ds > MAX_INT_DIGITS then None else Some (digits_value ds, dropWhile is_digit s))))"

definition read_number :: "pystr \<Rightarrow> (json \<times> pystr) option" where
  "read_number s =
     (case s of
        [] \<Rightarrow> None
      | c # r \<Rightarrow>
         (if c = CHR ''-'' then map_option (\<lambda>(n, t). (JInt (- int n), t)) (read_natural r)
          else map_option (\<lambda>(n, t). (JInt (int n), t)) (read_natural s)))"

definition read_literal :: "pystr \<Rightarrow> (json \<times> pystr) option" where
  "read_literal s =
     (if prefix ''null'' s then Some (JNull, drop 4 s)
      else if prefix ''true'' s then Some (JBool True, drop 4 s)
      else if prefix ''false'' s then Some (JBool False, drop 5 s)
      else read_number s)"

text \<open>The first argument bounds the number of calls; \<open>loads\<close> gives more than the text can need.\<close>

fun read_value :: "nat \<Rightarrow> pystr \<Rightarrow> (json \<times> pystr) option"
  and read_items :: "nat \<Rightarrow> pystr \<Rightarrow> (json list \<times> pystr) option"
  and read_members :: "nat \<Rightarrow> pystr \<Rightarrow> ((pystr \<times> json) list \<times> pystr) option" where
  "read_value 0 s = None"
| "read_value (Suc n) s =
     (case skip_ws s of
        [] \<Rightarrow> None
      | c # r \<Rightarrow>
         (if c = CHR ''\"'' then map_option (\<lambda>(x, t). (JString x, t)) (read_string r)
          else if c = CHR ''['' then
            (case skip_ws r of
               [] \<Rightarrow> None
             | d # r1 \<Rightarrow> if d = CHR '']'' then Some (JArray [], r1)
                 else map_option (\<lambda>(vs, t). (JArray vs, t)) (read_items n r))
          else if c = CHR ''{'' then
            (case skip_ws r of
               [] \<Rightarrow> None
             | d # r1 \<Rightarrow> if d = CHR ''}'' then Some (JObject [], r1)
                 else map_option (\<lambda>(kvs, t). (JObject (dict_of kvs), t)) (read_members n r))
          else read_literal (c # r)))"
| "read_items 0 s = None"
| "read_items (Suc n) s =
     (case read_value n s of
        None \<Rightarrow> None
      | Some (v, r) \<Rightarrow>
         (case skip_ws r of
            [] \<Rightarrow> None
          | d # r1 \<Rightarrow> if d = CHR '']'' then Some ([v], r1)
              else if d = CHR '','' then map_option (\<lambda>(vs, t). (v # vs, t)) (read_items n r1)
              else None))"
| "read_members 0 s = None"
| "read_members (Suc n) s =
     (case skip_ws s of
        [] \<Rightarrow> None
      | q # r \<Rightarrow>
         if q \<noteq> CHR ''\"'' then None
         else (case read_string r of
                 None \<Rightarrow> None
               | Some (k, r1) \<Rightarrow>
                  (case skip_ws r1 of
                     [] \<Rightarrow> None
                   | d # r2 \<Rightarrow>
                      if d \<noteq> CHR '':'' then None
                      else (case read_value n r2 of
                              None \<Rightarrow> None
                            | Some (v, r3) \<Rightarrow>
                               (case skip_ws r3 of
                                  [] \<Rightarrow> None
                                | e # r4 \<Rightarrow> if e = CHR ''}'' then Some ([(k, v)], r4)
                                    else if e = CHR '','' then map_option (\<lambda>(kvs, t). ((k, v) # kvs, t)) (read_members n r4)
                                    else None)))))"

definition loads :: "pystr \<Rightarrow> json option" where
  "loads s =
     (case read_value (2 * length s + 2) s of
        None \<Rightarrow> None
      | Some (v, r) \<Rightarrow> if skip_ws r = [] then Some v else None)"

section \<open>The validators of the row objects\<close>

datatype py_value = PyDict "(pystr \<times> json) list" | PyStr pystr | PyBool bool | PyInt int | PyOther pystr

datatype row_error = JSONDecodeError | NotAnObject pystr | WrongType pystr

definition decode_json :: "pystr \<Rightarrow> (pystr \<Rightarrow> pystr) \<Rightarrow> (py_value \<Rightarrow> pystr) \<Rightarrow> py_value \<Rightarrow> row_error + (pystr \<times> json) list" where
  "decode_json column wrong type_name value =
     (case value of
        PyDict d \<Rightarrow> Inr d
      | PyStr s \<Rightarrow>
         (case loads s of
            None \<Rightarrow> Inl JSONDecodeError
          | Some (JObject d) \<Rightarrow> Inr d
          | Some _ \<Rightarrow> Inl (NotAnObject (column @ '' must decode to a JSON object'')))
      | _ \<Rightarrow> Inl (WrongType (wrong (type_name value))))"

fun py_type_name :: "py_value \<Rightarrow> pystr" where
  "py_type_name (PyDict d) = ''dict''"
| "py_type_name (PyStr s) = ''str''"
| "py_type_name (PyBool b) = ''bool''"
| "py_type_name (PyInt i) = ''int''"
| "py_type_name (PyOther name) = name"

definition decode_settings_json :: "py_value \<Rightarrow> row_error + (pystr \<times> json) list" where
  "decode_settings_json =
     decode_json ''targets.settings_json'' (\<lambda>t. ''settings must be str or dict, got '' @ t) py_type_name"

definition decode_data_json :: "py_value \<Rightarrow> row_error + (pystr \<times> json) list" where
  "decode_data_json =
     decode_json ''audit_log.data_json'' (\<lambda>t. ''data must be str or dict, got '' @ t) py_type_name"

definition decode_notes_json :: "py_value \<Rightarrow> row_error + (pystr \<times> json) list" where
  "decode_notes_json =
     decode_json ''sessions_history.notes_json'' (\<lambda>t. ''notes must be str or dict, got '' @ t) py_type_name"

definition coerce_flag :: "pystr \<Rightarrow> py_value \<Rightarrow> row_error + bool" where
  "coerce_flag field value =
     (case value of
        PyBool b \<Rightarrow> Inr b
      | PyInt i \<Rightarrow> Inr (i \<noteq> 0)
      | _ \<Rightarrow> Inl (WrongType (field @ '' must be int or bool, got '' @ py_type_name value)))"

definition coerce_enabled :: "py_value \<Rightarrow> row_error + bool" where
  "coerce_enabled = coerce_flag ''enabled''"

definition coerce_bool :: "py_value \<Rightarrow> row_error + bool" where
  "coerce_bool = coerce_flag ''first_run_complete''"

text \<open>What the repositories write: a missing or empty dictionary is \<^verbatim>\<open>{}\<close>, a flag is 0 or 1.\<close>

definition json_column :: "(pystr \<times> json) list option \<Rightarrow> pystr" where
  "json_column d = dumps (JObject (case d of None \<Rightarrow> [] | Some kvs \<Rightarrow> kvs))"

definition flag_column :: "bool \<Rightarrow> int" where
  "flag_column b = (if b then 1 else 0)"

section \<open>Stored rows and row objects\<close>

text \<open>A row with its flag and JSON columns as SQLite holds them; the rows of \<open>Database\<close> are the row objects. A
  validation error of any column refuses the whole row.\<close>

record target_orm =
  torm_id :: pystr
  torm_type :: pystr
  torm_label :: pystr
  torm_url :: pystr
  torm_enabled :: int
  torm_settings_json :: pystr
  torm_created_at :: datetime
  torm_updated_at :: datetime

record audit_orm =
  aorm_id :: int
  aorm_at :: datetime
  aorm_event_type :: pystr
  aorm_actor :: "pystr option"
  aorm_target_id :: "pystr option"
  aorm_data_json :: pystr

record run_orm =
  rorm_id :: pystr
  rorm_started_at :: datetime
  rorm_ended_at :: "datetime option"
  rorm_end_reason :: "pystr option"
  rorm_notes_json :: pystr

definition target_from_orm :: "target_orm \<Rightarrow> row_error + target_row" where
  "target_from_orm row =
     (case coerce_enabled (PyInt (torm_enabled row)) of
        Inl e \<Rightarrow> Inl e
      | Inr enabled \<Rightarrow>
         (case decode_settings_json (PyStr (torm_settings_json row)) of
            Inl e \<Rightarrow> Inl e
          | Inr settings \<Rightarrow>
              Inr \<lparr>tr_id = torm_id row, tr_type = torm_type row, tr_label = torm_label row, tr_url = torm_url row,
                tr_enabled = enabled, tr_settings = settings, tr_created_at = torm_created_at row,
                tr_updated_at = torm_updated_at row\<rparr>))"

definition audit_from_orm :: "audit_orm \<Rightarrow> row_error + audit_row" where
  "audit_from_orm row =
     (case decode_data_json (PyStr (aorm_data_json row)) of
        Inl e \<Rightarrow> Inl e
      | Inr data \<Rightarrow>
          Inr \<lparr>al_id = aorm_id row, al_at = aorm_at row, al_event_type = aorm_event_type row, al_actor = aorm_actor row,
            al_target_id = aorm_target_id row, al_data = data\<rparr>)"

definition run_from_orm :: "run_orm \<Rightarrow> row_error + run_row" where
  "run_from_orm row =
     (case decode_notes_json (PyStr (rorm_notes_json row)) of
        Inl e \<Rightarrow> Inl e
      | Inr notes \<Rightarrow>
          Inr \<lparr>rh_id = rorm_id row, rh_started_at = rorm_started_at row, rh_ended_at = rorm_ended_at row,
            rh_end_reason = rorm_end_reason row, rh_notes = notes\<rparr>)"

text \<open>The rows as \<^verbatim>\<open>create\<close>, \<^verbatim>\<open>append\<close> and \<^verbatim>\<open>start\<close> build them.\<close>

definition new_target_orm :: "pystr \<Rightarrow> pystr \<Rightarrow> pystr \<Rightarrow> pystr \<Rightarrow> bool \<Rightarrow> (pystr \<times> json) list option \<Rightarrow> datetime \<Rightarrow> target_orm" where
  "new_target_orm new_id ty label url enabled settings now =
     \<lparr>torm_id = new_id, torm_type = ty, torm_label = label, torm_url = url, torm_enabled = flag_column enabled,
      torm_settings_json = json_column settings, torm_created_at = now, torm_updated_at = now\<rparr>"

definition new_audit_orm :: "int \<Rightarrow> datetime \<Rightarrow> pystr \<Rightarrow> pystr option \<Rightarrow> pystr option \<Rightarrow> (pystr \<times> json) list option \<Rightarrow> audit_orm" where
  "new_audit_orm new_id t event actor tid data =
     \<lparr>aorm_id = new_id, aorm_at = t, aorm_event_type = event, aorm_actor = actor, aorm_target_id = tid,
      aorm_data_json = json_column data\<rparr>"

definition new_run_orm :: "pystr \<Rightarrow> (pystr \<times> json) list option \<Rightarrow> datetime \<Rightarrow> run_orm" where
  "new_run_orm new_id notes now =
     \<lparr>rorm_id = new_id, rorm_started_at = now, rorm_ended_at = None, rorm_end_reason = None,
      rorm_notes_json = json_column notes\<rparr>"

section \<open>What is printed\<close>

text \<open>A value the columns can hold: every dictionary has distinct keys and every integer can be printed.\<close>

fun json_ok :: "json \<Rightarrow> bool" where
  "json_ok (JInt i) \<longleftrightarrow> length (show_nat (nat \<bar>i\<bar>)) \<le> MAX_INT_DIGITS"
| "json_ok (JArray vs) \<longleftrightarrow> (\<forall>v\<in>set vs. json_ok v)"
| "json_ok (JObject kvs) \<longleftrightarrow> distinct (map fst kvs) \<and> (\<forall>(k, v)\<in>set kvs. json_ok v)"
| "json_ok v \<longleftrightarrow> True"

definition plain_ascii :: "pystr \<Rightarrow> bool" where
  "plain_ascii s \<longleftrightarrow> (\<forall>c\<in>set s. 32 \<le> char_code c \<and> char_code c < 127)"

lemma plain_ascii_simps [simp]:
  "plain_ascii []" "plain_ascii (c # s) \<longleftrightarrow> 32 \<le> char_code c \<and> char_code c < 127 \<and> plain_ascii s"
  "plain_ascii (s @ t) \<longleftrightarrow> plain_ascii s \<and> plain_ascii t"
  by (auto simp: plain_ascii_def)

lemma hex_digits: "k < 16 \<Longrightarrow> hex_value (hex_digit k) = Some k \<and> 32 \<le> char_code (hex_digit k) \<and> char_code (hex_digit k) < 127"
proof -
  have "\<forall>k\<in>set [0..<16]. hex_value (hex_digit k) = Some k \<and> 32 \<le> char_code (hex_digit k) \<and> char_code (hex_digit k) < 127"
    by code_simp
  then show "k < 16 \<Longrightarrow> ?thesis" by simp
qed

lemma char_code_eq: "char_code c = n \<Longrightarrow> c = char_of n"
  by auto

lemma escape_plain: "plain_ascii (escape_char c)"
proof -
  have "char_code c div 16 < 16" "char_code c mod 16 < 16" using char_code_less [of c] by (simp_all add: div_less_iff_less_mult)
  note hex_digits [OF this(1)] hex_digits [OF this(2)]
  then show ?thesis by (simp add: escape_char_def Let_def) (simp add: char_code_def)
qed

lemma join_plain: "(\<And>x. x \<in> set xs \<Longrightarrow> plain_ascii x) \<Longrightarrow> plain_ascii (join_comma xs)"
  by (induction xs rule: join_comma.induct) (auto simp: char_code_def)

lemma decimal_digit: "m < 10 \<Longrightarrow> is_digit (char_of (48 + m)) \<and> digit_value (char_of (48 + m)) = m"
  by (simp add: is_digit_def digit_value_def Let_def)

lemma show_nat_digits: "show_nat n \<noteq> [] \<and> list_all is_digit (show_nat n) \<and> digits_value (show_nat n) = n"
proof (induction n rule: show_nat.induct)
  case (1 n)
  show ?case
  proof (cases "n < 10")
    case True
    then have "show_nat n = [char_of (48 + n)]" by (simp add: show_nat.simps)
    then show ?thesis using decimal_digit [OF True] by (simp add: digits_value_def)
  next
    case False
    then have "show_nat n = show_nat (n div 10) @ [char_of (48 + n mod 10)]" by (subst show_nat.simps) simp
    then show ?thesis using 1 [OF False] decimal_digit [of "n mod 10"] by (simp add: digits_value_def)
  qed
qed

lemma digit_plain: "list_all is_digit s \<Longrightarrow> plain_ascii s"
  by (induction s) (auto simp: is_digit_def char_code_def Let_def)

lemma show_nat_zero: "show_nat n = CHR ''0'' # t \<Longrightarrow> n = 0"
proof (induction n arbitrary: t rule: show_nat.induct)
  case (1 n)
  show ?case
  proof (cases "n < 10")
    case True
    then have "show_nat n = [char_of (48 + n)]" by (simp add: show_nat.simps)
    then have "char_of (48 + n) = CHR ''0''" using 1(2) by simp
    then have "char_code (char_of (48 + n)) = 48" by (simp add: char_code_def)
    then show ?thesis using True by simp
  next
    case False
    then have "show_nat n = show_nat (n div 10) @ [char_of (48 + n mod 10)]" by (subst show_nat.simps) simp
    moreover have "show_nat (n div 10) \<noteq> []" using show_nat_digits by blast
    ultimately obtain u where "show_nat (n div 10) = CHR ''0'' # u" using 1(2) by (cases "show_nat (n div 10)") auto
    then have "n div 10 = 0" using 1(1) False by simp
    then show ?thesis using False by simp
  qed
qed

theorem dumps_plain: "plain_ascii (dumps v)"
proof (induction v)
  case (JInt i)
  have "plain_ascii (show_nat n)" for n using digit_plain show_nat_digits by blast
  then show ?case by (simp add: show_int_def char_code_def)
next
  case (JArray vs)
  have "plain_ascii (join_comma (map dumps vs))" by (rule join_plain) (use JArray in auto)
  then show ?case by (simp add: char_code_def)
next
  case (JObject kvs)
  have str: "plain_ascii (dumps_string k)" for k
    by (auto simp: dumps_string_def char_code_def [of "CHR ''\"''"] plain_ascii_def [of "concat _"])
      (use escape_plain in \<open>auto simp: plain_ascii_def\<close>)
  have "plain_ascii (join_comma (map (\<lambda>(k, v). dumps_string k @ CHR '':'' # dumps v) kvs))"
    by (rule join_plain) (use JObject str in \<open>auto simp: char_code_def [of "CHR '':''"]\<close>)
  then show ?case by (simp add: char_code_def)
qed (use escape_plain in \<open>auto simp: dumps_string_def plain_ascii_def char_code_def\<close>)

section \<open>Reading back\<close>

declare read_value.simps [simp del]

lemma control_chars:
  "char_of (92 :: nat) = CHR 0x5C" "char_of (10 :: nat) = CHR 0x0A" "char_of (13 :: nat) = CHR 0x0D"
  "char_of (9 :: nat) = CHR 0x09" "char_of (8 :: nat) = CHR 0x08" "char_of (12 :: nat) = CHR 0x0C"
  by code_simp+

lemma read_escaped: "read_string (escape_char c @ t) = map_option (\<lambda>(s, r). (c # s, r)) (read_string t)"
proof -
  let ?n = "char_code c"
  have hex: "unicode_escape CHR ''0'' CHR ''0'' (hex_digit (?n div 16)) (hex_digit (?n mod 16)) = Some c"
  proof -
    have "?n div 16 < 16" "?n mod 16 < 16" using char_code_less [of c] by (simp_all add: div_less_iff_less_mult)
    note d = hex_digits [OF this(1)] hex_digits [OF this(2)]
    have "hex_value CHR ''0'' = Some 0" by code_simp
    then show ?thesis using d by (simp add: unicode_escape_def Let_def)
  qed
  consider (quote) "c = CHR ''\"''" | (slash) "?n = 92" | (nl) "?n = 10" | (cr) "?n = 13" | (tab) "?n = 9" | (bs) "?n = 8"
    | (ff) "?n = 12" | (plain) "c \<noteq> CHR ''\"''" "?n \<noteq> 92" "32 \<le> ?n" "?n < 127"
    | (other) "c \<noteq> CHR ''\"''" "?n \<notin> {92, 10, 13, 9, 8, 12}" "\<not> (32 \<le> ?n \<and> ?n < 127)"
    by auto
  then show ?thesis
  proof cases
    case quote
    then show ?thesis by (simp add: escape_char_def simple_escape_def char_code_def)
  next
    case plain
    then show ?thesis by (simp add: escape_char_def Let_def)
  next
    case other
    then have "escape_char c = [CHR 0x5C, CHR ''u'', CHR ''0'', CHR ''0'', hex_digit (?n div 16), hex_digit (?n mod 16)]"
      by (simp add: escape_char_def Let_def)
    then show ?thesis using hex by (simp add: char_code_def [of "CHR 0x5C"])
  qed (drule char_code_eq, simp add: control_chars, simp add: escape_char_def simple_escape_def control_chars Let_def char_code_def)+
qed

lemma read_dumps_string: "read_string (concat (map escape_char s) @ CHR ''\"'' # rest) = Some (s, rest)"
  by (induction s) (simp_all add: read_escaped)

text \<open>What may follow a printed value.\<close>

definition ends_value :: "pystr \<Rightarrow> bool" where
  "ends_value rest \<longleftrightarrow> rest = [] \<or> hd rest = CHR '','' \<or> hd rest = CHR '']'' \<or> hd rest = CHR ''}''"

lemma read_shown:
  assumes "length (show_nat n) \<le> MAX_INT_DIGITS" "ends_value rest"
  shows "read_natural (show_nat n @ rest) = Some (n, rest)"
proof -
  note d = show_nat_digits [of n]
  have stop: "takeWhile is_digit (show_nat n @ rest) = show_nat n" "dropWhile is_digit (show_nat n @ rest) = rest"
    using d assms(2) by (cases rest; auto simp: takeWhile_append2 dropWhile_append2 list_all_iff ends_value_def is_digit_def)+
  obtain c t where c: "show_nat n = c # t" using d by (cases "show_nat n") auto
  show ?thesis
  proof (cases "c = CHR ''0''")
    case True
    then have "n = 0" using show_nat_zero c by simp
    moreover have "char_of (48 :: nat) = CHR ''0''" by code_simp
    ultimately show ?thesis by (simp add: read_natural_def show_nat.simps)
  next
    case False
    then show ?thesis using stop c d assms(1) by (simp add: read_natural_def Let_def)
  qed
qed

text \<open>A printed value starts with a character that is neither white space nor the end of a container.\<close>

lemma dumps_head: "\<exists>c t. dumps v = c # t \<and> \<not> json_space c \<and> c \<noteq> CHR '']'' \<and> c \<noteq> CHR ''}''"
proof (cases v)
  case (JInt i)
  have "\<exists>c t. show_nat n = c # t \<and> is_digit c" for n using show_nat_digits [of n] by (cases "show_nat n") auto
  then obtain c t where "show_nat (nat i) = c # t" "is_digit c" by blast
  then show ?thesis using JInt by (auto simp: show_int_def is_digit_def json_space_def char_code_def Let_def)
qed (auto simp: dumps_string_def json_space_def char_code_def)

lemma skip_ws_dumps [simp]: "skip_ws (dumps v @ rest) = dumps v @ rest"
  using dumps_head [of v] by (auto simp: skip_ws_def)

lemma skip_ws_other [simp]: "\<not> json_space c \<Longrightarrow> skip_ws (c # s) = c # s"
  by (simp add: skip_ws_def)

lemma json_space_marks [simp]:
  "\<not> json_space CHR '',''" "\<not> json_space CHR '']''" "\<not> json_space CHR ''}''" "\<not> json_space CHR '':''"
  "\<not> json_space CHR ''\"''" "\<not> json_space CHR ''[''" "\<not> json_space CHR ''{''"
  by (simp_all add: json_space_def char_code_def)

lemma read_key:
  "skip_ws (dumps_string k @ rest) = dumps_string k @ rest"
  "\<exists>r. dumps_string k @ rest = CHR ''\"'' # r \<and> read_string r = Some (k, rest)"
  by (simp_all add: dumps_string_def read_dumps_string)

lemma read_int:
  assumes "length (show_nat (nat \<bar>i\<bar>)) \<le> MAX_INT_DIGITS" "ends_value rest"
  shows "read_value (Suc n) (show_int i @ rest) = Some (JInt i, rest)"
proof -
  obtain c t where c: "show_nat (nat \<bar>i\<bar>) = c # t" "is_digit c"
    using show_nat_digits [of "nat \<bar>i\<bar>"] by (cases "show_nat (nat \<bar>i\<bar>)") auto
  note natural = read_shown [OF assms]
  have d: "\<not> json_space c" "c \<noteq> CHR ''\"''" "c \<noteq> CHR ''[''" "c \<noteq> CHR ''{''" "c \<noteq> CHR ''-''" "c \<noteq> CHR ''n''" "c \<noteq> CHR ''t''" "c \<noteq> CHR ''f''"
    using c(2) by (auto simp: is_digit_def json_space_def char_code_def Let_def)
  show ?thesis
  proof (cases "i < 0")
    case True
    then have i: "show_int i = CHR ''-'' # show_nat (nat \<bar>i\<bar>)" by (simp add: show_int_def)
    have "\<not> json_space CHR ''-''" by (simp add: json_space_def char_code_def)
    then show ?thesis using natural True by (simp add: i read_value.simps read_literal_def read_number_def)
  next
    case False
    then have i: "show_int i = c # t" "int (nat \<bar>i\<bar>) = i" using c(1) by (simp_all add: show_int_def)
    have "read_value (Suc n) ((c # t) @ rest) = Some (JInt (int (nat \<bar>i\<bar>)), rest)"
      using natural d unfolding c(1) by (simp add: read_value.simps read_literal_def read_number_def)
    then show ?thesis unfolding i .
  qed
qed

lemma read_items_dumps:
  assumes "vs \<noteq> []" "2 * length (join_comma (map dumps vs)) + 2 \<le> n"
    "\<And>v rest m. v \<in> set vs \<Longrightarrow> ends_value rest \<Longrightarrow> 2 * length (dumps v) \<le> m \<Longrightarrow>
       read_value (Suc m) (dumps v @ rest) = Some (v, rest)"
  shows "read_items n (join_comma (map dumps vs) @ CHR '']'' # rest) = Some (vs, rest)"
  using assms
proof (induction vs arbitrary: n)
  case (Cons v vs)
  obtain m where n: "n = Suc (Suc m)" using Cons.prems(2) by (cases n; cases "n - 1") auto
  show ?case
  proof (cases vs)
    case Nil
    then have "read_value (Suc m) (dumps v @ CHR '']'' # rest) = Some (v, CHR '']'' # rest)"
      using Cons.prems(2) n by (intro Cons.prems(3)) (auto simp: ends_value_def)
    then show ?thesis using Nil n by simp
  next
    case (Cons w ws)
    then have j: "join_comma (map dumps (v # vs)) = dumps v @ CHR '','' # join_comma (map dumps vs)" by simp
    have "read_value (Suc m) (dumps v @ CHR '','' # join_comma (map dumps vs) @ CHR '']'' # rest) =
        Some (v, CHR '','' # join_comma (map dumps vs) @ CHR '']'' # rest)"
      using Cons.prems(2) n j by (intro Cons.prems(3)) (auto simp: ends_value_def)
    moreover have "read_items (Suc m) (join_comma (map dumps vs) @ CHR '']'' # rest) = Some (vs, rest)"
      using Cons.prems Cons n j by (intro Cons.IH) auto
    ultimately show ?thesis using n j by simp
  qed
qed simp

lemma read_members_dumps:
  assumes "kvs \<noteq> []" "2 * length (join_comma (map (\<lambda>(k, v). dumps_string k @ CHR '':'' # dumps v) kvs)) + 2 \<le> n"
    "\<And>k v rest m. (k, v) \<in> set kvs \<Longrightarrow> ends_value rest \<Longrightarrow> 2 * length (dumps v) \<le> m \<Longrightarrow>
       read_value (Suc m) (dumps v @ rest) = Some (v, rest)"
  shows "read_members n (join_comma (map (\<lambda>(k, v). dumps_string k @ CHR '':'' # dumps v) kvs) @ CHR ''}'' # rest) = Some (kvs, rest)"
  using assms
proof (induction kvs arbitrary: n)
  case (Cons kv kvs)
  let ?text = "\<lambda>kvs. join_comma (map (\<lambda>(k, v). dumps_string k @ CHR '':'' # dumps v) kvs)"
  obtain k v where kv: "kv = (k, v)" by (cases kv)
  obtain m where n: "n = Suc (Suc m)" using Cons.prems(2) by (cases n; cases "n - 1") auto
  show ?case
  proof (cases kvs)
    case Nil
    then have "read_value (Suc m) (dumps v @ CHR ''}'' # rest) = Some (v, CHR ''}'' # rest)"
      using Cons.prems(2) n kv by (intro Cons.prems(3) [of k]) (auto simp: ends_value_def)
    moreover obtain r where "dumps_string k @ CHR '':'' # dumps v @ CHR ''}'' # rest = CHR ''\"'' # r"
      "read_string r = Some (k, CHR '':'' # dumps v @ CHR ''}'' # rest)" using read_key(2) by blast
    ultimately show ?thesis using Nil n kv by simp
  next
    case (Cons x xs)
    then have j: "?text (kv # kvs) = dumps_string k @ CHR '':'' # dumps v @ CHR '','' # ?text kvs" by (simp add: kv)
    have "read_value (Suc m) (dumps v @ CHR '','' # ?text kvs @ CHR ''}'' # rest) = Some (v, CHR '','' # ?text kvs @ CHR ''}'' # rest)"
      using Cons.prems(2) n j kv by (intro Cons.prems(3) [of k]) (auto simp: ends_value_def)
    moreover have "read_members (Suc m) (?text kvs @ CHR ''}'' # rest) = Some (kvs, rest)"
      using Cons.prems Cons n j by (intro Cons.IH) auto
    moreover obtain r where "dumps_string k @ CHR '':'' # dumps v @ CHR '','' # ?text kvs @ CHR ''}'' # rest = CHR ''\"'' # r"
      "read_string r = Some (k, CHR '':'' # dumps v @ CHR '','' # ?text kvs @ CHR ''}'' # rest)" using read_key(2) by blast
    ultimately show ?thesis using n unfolding j by (simp add: kv)
  qed
qed simp

lemma read_dumps:
  "json_ok v \<Longrightarrow> ends_value rest \<Longrightarrow> 2 * length (dumps v) \<le> n \<Longrightarrow> read_value (Suc n) (dumps v @ rest) = Some (v, rest)"
proof (induction v arbitrary: rest n)
  case (JInt i)
  then show ?case by (simp add: read_int)
next
  case (JString s)
  then show ?case by (simp add: dumps_string_def read_dumps_string read_value.simps)
next
  case (JArray vs)
  show ?case
  proof (cases "vs = []")
    case False
    then obtain w ws where vs: "vs = w # ws" by (cases vs) auto
    obtain c t where c: "dumps w = c # t" "\<not> json_space c" "c \<noteq> CHR '']''" using dumps_head by blast
    have j: "\<exists>u. join_comma (map dumps vs) = c # u" using c(1) vs by (cases ws) auto
    have "read_items n (join_comma (map dumps vs) @ CHR '']'' # rest) = Some (vs, rest)"
      using JArray False by (intro read_items_dumps) auto
    then show ?thesis using j c(2,3) by (auto simp: read_value.simps)
  qed (simp add: read_value.simps)
next
  case (JObject kvs)
  show ?case
  proof (cases "kvs = []")
    case False
    let ?text = "join_comma (map (\<lambda>(k, v). dumps_string k @ CHR '':'' # dumps v) kvs)"
    have j: "\<exists>u. ?text = CHR ''\"'' # u" using False by (cases kvs rule: remdups_adj.cases) (auto simp: dumps_string_def)
    have size: "2 * length ?text + 2 \<le> n" using JObject.prems(3) by simp
    have read: "read_value (Suc m) (dumps v @ r) = Some (v, r)"
      if "(k, v) \<in> set kvs" "ends_value r" "2 * length (dumps v) \<le> m" for k v r m
      by (rule JObject.IH [of "(k, v)" v]) (use that JObject.prems(1) in \<open>auto simp: snds.simps\<close>)
    have "read_members n (?text @ CHR ''}'' # rest) = Some (kvs, rest)"
      by (rule read_members_dumps [OF False size read])
    then show ?thesis using j JObject.prems(1) by (auto simp: dict_of_distinct read_value.simps)
  qed (simp add: dict_of_distinct read_value.simps)
qed (auto simp: read_value.simps read_literal_def json_space_def char_code_def)

lemma loads_dumps: "json_ok v \<Longrightarrow> loads (dumps v) = Some v"
  using read_dumps [of v "[]" "2 * length (dumps v) + 1"] by (simp add: loads_def ends_value_def skip_ws_def)

text \<open>Whatever dictionary a repository writes into a JSON column, the text is one line of printable
  ASCII and the validator of the row object reads the same dictionary back; a flag column reads back as the flag.\<close>

theorem json_columns_roundtrip:
  assumes "json_ok (JObject (case d of None \<Rightarrow> [] | Some kvs \<Rightarrow> kvs))"
  shows "plain_ascii (json_column d) \<and>
    decode_settings_json (PyStr (json_column d)) = Inr (case d of None \<Rightarrow> [] | Some kvs \<Rightarrow> kvs) \<and>
    decode_data_json (PyStr (json_column d)) = Inr (case d of None \<Rightarrow> [] | Some kvs \<Rightarrow> kvs) \<and>
    decode_notes_json (PyStr (json_column d)) = Inr (case d of None \<Rightarrow> [] | Some kvs \<Rightarrow> kvs) \<and>
    coerce_enabled (PyInt (flag_column b)) = Inr b \<and> coerce_bool (PyInt (flag_column b)) = Inr b"
  using loads_dumps [OF assms] dumps_plain
  by (simp add: json_column_def decode_settings_json_def decode_data_json_def decode_notes_json_def decode_json_def
      coerce_enabled_def coerce_bool_def coerce_flag_def flag_column_def del: dumps.simps)

theorem json_columns_roundtrip_witness:
  "decode_settings_json (PyStr (json_column (Some [(''backup_enabled'', JBool True), (''note'', JString [CHR ''\"'', CHR 0x0A, CHR 0xE9])]))) =
    Inr [(''backup_enabled'', JBool True), (''note'', JString [CHR ''\"'', CHR 0x0A, CHR 0xE9])]"
  using json_columns_roundtrip [of "Some [(''backup_enabled'', JBool True), (''note'', JString [CHR ''\"'', CHR 0x0A, CHR 0xE9])]" True]
  by simp

text \<open>So the rows \<open>Database\<close> keeps are what the row objects of the stored rows say.\<close>

theorem new_rows_read_back:
  assumes "json_ok (JObject (case d of None \<Rightarrow> [] | Some kvs \<Rightarrow> kvs))"
  shows "create_target new_id ty label url enabled (case d of None \<Rightarrow> [] | Some kvs \<Rightarrow> kvs) now db = Inr (row, db') \<Longrightarrow>
      target_from_orm (new_target_orm new_id ty label url enabled d now) = Inr row"
    "append_audit event actor tid (case d of None \<Rightarrow> [] | Some kvs \<Rightarrow> kvs) t db = Inr (entry, db') \<Longrightarrow>
      audit_from_orm (new_audit_orm (db_next_audit_id db) t event actor tid d) = Inr entry"
    "history_start run_id (case d of None \<Rightarrow> [] | Some kvs \<Rightarrow> kvs) now db = Inr (run, db') \<Longrightarrow>
      run_from_orm (new_run_orm run_id d now) = Inr run"
  using json_columns_roundtrip [OF assms, of enabled]
  by (auto simp: new_target_orm_def target_from_orm_def new_audit_orm_def audit_from_orm_def new_run_orm_def run_from_orm_def
      create_target_def append_audit_def history_start_def Let_def split: if_splits)

text \<open>What the validators refuse: text that is no JSON, JSON that is no object, and values of other types.\<close>

lemma decode_refusals:
  "decode_settings_json (PyStr ''{\"a\":1,}'') = Inl JSONDecodeError"
  "decode_notes_json (PyStr '' [1, -20 , {}] '') = Inl (NotAnObject ''sessions_history.notes_json must decode to a JSON object'')"
  "decode_data_json (PyInt 3) = Inl (WrongType ''data must be str or dict, got int'')"
    "target_from_orm (new_target_orm ''t'' ''YOUTUBE'' ''l'' ''u'' True None 7 \<lparr>torm_settings_json := ''[]''\<rparr>) =
     Inl (NotAnObject ''targets.settings_json must decode to a JSON object'')"
  by code_simp+

lemma later_key_wins: "decode_settings_json (PyStr ''{\"a\":1,\"b\":null,\"a\":2}'') = Inr [(''a'', JInt 2), (''b'', JNull)]"
  by code_simp

end
