(* ===== verification/Bus_Wakeup.thy ===== *)
theory Bus_Wakeup
  imports Event_Bus
begin

text \<open>
  How an event put on the bus reaches the broadcaster: \<^verbatim>\<open>_notify_bus_soon\<close> and \<^verbatim>\<open>_spawn_notify_task\<close> of
  \<^verbatim>\<open>app/fanout/supervisor.py\<close>, \<^verbatim>\<open>notify\<close> and \<^verbatim>\<open>drain\<close> of \<^verbatim>\<open>app/fanout/event_bus.py\<close> on asyncio's queue
  of ready handles, which runs them first in, first out. A put schedules a callback, the callback starts a task,
  the task wakes the drainer if it is parked on the condition, and only then the drainer takes the buffer; between
  these handles other tasks run and put more events. The lock of the condition is never held where a task is
  suspended (\<^verbatim>\<open>wait\<close> gives it up, the other holders do not await), so acquiring it does not suspend; the same is
  true of the lock of the subscriber registry, so a batch is handed to \<^verbatim>\<open>ws_broadcaster\<close> in one turn.
\<close>

section \<open>The loop\<close>

text \<open>\<open>SpawnNotify\<close> is the callback, \<open>NotifyTask\<close> the task it creates (it runs inside the loop, so \<^verbatim>\<open>create_task\<close>
  does not raise there), \<open>DrainerTurn\<close> a turn of the drainer, \<open>OtherHandle\<close> a turn of any other task.\<close>

datatype handle = SpawnNotify | NotifyTask | DrainerTurn | OtherHandle

record 'e bus_loop =
  bl_bus :: "'e event_bus"
  bl_parked :: bool
  bl_delivered :: "'e list"
  bl_ready :: "handle list"

text \<open>The API starts the drainer as a task.\<close>

definition started_loop :: "'e event_bus \<Rightarrow> 'e bus_loop" where
  "started_loop b = \<lparr>bl_bus = b, bl_parked = False, bl_delivered = [], bl_ready = [DrainerTurn]\<rparr>"

definition call_soon :: "handle \<Rightarrow> 'e bus_loop \<Rightarrow> 'e bus_loop" where
  "call_soon h s = s\<lparr>bl_ready := bl_ready s @ [h]\<rparr>"

text \<open>Outside a running loop \<^verbatim>\<open>get_running_loop\<close> raises and nobody is notified.\<close>

definition notify_bus_soon :: "bool \<Rightarrow> 'e bus_loop \<Rightarrow> 'e bus_loop" where
  "notify_bus_soon running s = (if running then call_soon SpawnNotify s else s)"

definition put_event_on_loop :: "bool \<Rightarrow> 'e \<Rightarrow> 'e bus_loop \<Rightarrow> 'e bus_loop" where
  "put_event_on_loop running e s = notify_bus_soon running (s\<lparr>bl_bus := bus_put (bl_bus s) e\<rparr>)"

definition spawn_notify_task :: "'e bus_loop \<Rightarrow> 'e bus_loop" where
  "spawn_notify_task s = call_soon NotifyTask s"

text \<open>\<^verbatim>\<open>notify_all\<close> resolves the future of a parked waiter, which schedules its task.\<close>

definition bus_notify :: "'e bus_loop \<Rightarrow> 'e bus_loop" where
  "bus_notify s = (if bl_parked s then call_soon DrainerTurn (s\<lparr>bl_parked := False\<rparr>) else s)"

text \<open>A turn of \<^verbatim>\<open>drain\<close>: an empty buffer parks it; a full one is taken and handed on, and the next round of the
  loop finds the buffer empty, for nothing else has run in between.\<close>

definition drainer_turn :: "'e bus_loop \<Rightarrow> 'e bus_loop" where
  "drainer_turn s =
     (case bus_drain (bl_bus s) of
        None \<Rightarrow> s\<lparr>bl_parked := True\<rparr>
      | Some (batch, b) \<Rightarrow> s\<lparr>bl_bus := b, bl_delivered := bl_delivered s @ batch, bl_parked := True\<rparr>)"

fun run_handle :: "handle \<Rightarrow> 'e bus_loop \<Rightarrow> 'e bus_loop" where
  "run_handle SpawnNotify s = spawn_notify_task s"
| "run_handle NotifyTask s = bus_notify s"
| "run_handle DrainerTurn s = drainer_turn s"
| "run_handle OtherHandle s = s"

text \<open>\<open>RunNext\<close> runs the oldest handle. What the other handles do to the bus are the steps \<open>Emit\<close>, which may come
  anywhere; with an empty queue the loop sleeps.\<close>

datatype 'e loop_step = Emit bool 'e | Schedule | RunNext

fun loop_do :: "'e bus_loop \<Rightarrow> 'e loop_step \<Rightarrow> 'e bus_loop" where
  "loop_do s (Emit running e) = put_event_on_loop running e s"
| "loop_do s Schedule = call_soon OtherHandle s"
| "loop_do s RunNext = (case bl_ready s of [] \<Rightarrow> s | h # r \<Rightarrow> run_handle h (s\<lparr>bl_ready := r\<rparr>))"

definition loop_run :: "'e loop_step list \<Rightarrow> 'e bus_loop \<Rightarrow> 'e bus_loop" where
  "loop_run ops s = foldl loop_do s ops"

text \<open>One iteration of the event loop runs every handle that is ready when it starts.\<close>

definition runs_of :: "'e loop_step list \<Rightarrow> nat" where
  "runs_of ops = length (filter (\<lambda>x. x = RunNext) ops)"

definition iteration :: "'e loop_step list \<Rightarrow> 'e bus_loop \<Rightarrow> bool" where
  "iteration ops s \<longleftrightarrow> runs_of ops = length (bl_ready s)"

fun on_loop :: "'e loop_step \<Rightarrow> bool" where
  "on_loop (Emit running e) = running"
| "on_loop x = True"

fun emits_of :: "'e loop_step list \<Rightarrow> 'e list" where
  "emits_of [] = []"
| "emits_of (Emit running e # ops) = e # emits_of ops"
| "emits_of (x # ops) = emits_of ops"

lemmas loop_defs = call_soon_def notify_bus_soon_def put_event_on_loop_def spawn_notify_task_def bus_notify_def drainer_turn_def

lemma loop_run_simps [simp]:
  "loop_run [] s = s" "loop_run (x # ops) s = loop_run ops (loop_do s x)"
  "loop_run (ops1 @ ops2) s = loop_run ops2 (loop_run ops1 s)"
  by (simp_all add: loop_run_def)

lemma emits_of_append [simp]: "emits_of (xs @ ys) = emits_of xs @ emits_of ys"
  by (induction xs rule: emits_of.induct) simp_all

section \<open>Nothing is lost on the way\<close>

text \<open>An event has left the buffer when it was delivered or counted as dropped.\<close>

definition gone :: "'e bus_loop \<Rightarrow> int" where
  "gone s = int (length (bl_delivered s)) + dropped_total (bl_bus s)"

definition put_count :: "'e bus_loop \<Rightarrow> int" where
  "put_count s = gone s + int (length (bus_buf (bl_bus s)))"

text \<open>The drainer runs, or is parked; and while it is parked a non-empty buffer has a wake-up on its way.\<close>

definition wake_inv :: "'e bus_loop \<Rightarrow> bool" where
  "wake_inv s \<longleftrightarrow> bus_inv (bl_bus s) \<and> (bl_parked s \<or> DrainerTurn \<in> set (bl_ready s)) \<and>
     (bus_buf (bl_bus s) = [] \<or> {SpawnNotify, NotifyTask, DrainerTurn} \<inter> set (bl_ready s) \<noteq> {})"

lemma bus_put_counts:
  assumes "bus_inv b"
  shows "dropped_total (bus_put b e) + int (length (bus_buf (bus_put b e))) = dropped_total b + int (length (bus_buf b)) + 1"
    "dropped_total b \<le> dropped_total (bus_put b e)"
  using assms by (cases "int (length (bus_buf b)) < bus_capacity b"; cases "bus_buf b"; simp add: bus_put_room bus_put_full bus_inv_def)+

lemma bus_drain_inv: "bus_inv b \<Longrightarrow> bus_drain b = Some (batch, b') \<Longrightarrow>
    bus_inv b' \<and> bus_buf b' = [] \<and> batch = bus_buf b \<and> dropped_total b' = dropped_total b"
  by (auto simp: bus_drain_def bus_inv_def split: if_splits)

lemma run_handle_inv:
  assumes "wake_inv s" "bl_ready s = h # r"
  shows "wake_inv (run_handle h (s\<lparr>bl_ready := r\<rparr>))"
  using assms
  by (cases h) (auto simp: wake_inv_def loop_defs bus_drain_def bus_inv_def split: option.splits if_splits)

lemma loop_do_inv: "wake_inv s \<Longrightarrow> on_loop x \<Longrightarrow> wake_inv (loop_do s x)"
proof (cases x)
  case RunNext
  then show "wake_inv s \<Longrightarrow> wake_inv (loop_do s x)" using run_handle_inv by (auto split: list.splits)
qed (auto simp: wake_inv_def loop_defs bus_inv_put)

lemma started_inv: "bus_inv b \<Longrightarrow> wake_inv (started_loop b)"
  by (simp add: wake_inv_def started_loop_def)

lemma loop_run_inv: "wake_inv s \<Longrightarrow> list_all on_loop ops \<Longrightarrow> wake_inv (loop_run ops s)"
  by (induction ops arbitrary: s) (simp_all add: loop_do_inv)

lemma put_count_do:
  "bus_inv (bl_bus s) \<Longrightarrow> put_count (loop_do s x) = put_count s + int (length (emits_of [x])) \<and> gone s \<le> gone (loop_do s x)"
proof (cases x)
  case (Emit running e)
  then show "bus_inv (bl_bus s) \<Longrightarrow> ?thesis"
    using bus_put_counts [of "bl_bus s" e] by (simp add: put_count_def gone_def loop_defs)
next
  case RunNext
  have "put_count (run_handle h (s\<lparr>bl_ready := r\<rparr>)) = put_count s \<and> gone s \<le> gone (run_handle h (s\<lparr>bl_ready := r\<rparr>))" for h r
    by (cases h) (auto simp: put_count_def gone_def loop_defs bus_drain_def split: option.splits if_splits)
  then show ?thesis using RunNext by (simp split: list.splits)
qed (simp add: put_count_def gone_def loop_defs)

section \<open>How long a wake-up takes\<close>

text \<open>The stages on the way: the events put so far are gone, or a handle that leads to it is in the queue.\<close>

fun stage :: "nat \<Rightarrow> int \<Rightarrow> 'e bus_loop \<Rightarrow> bool" where
  "stage 0 p s \<longleftrightarrow> p \<le> gone s"
| "stage (Suc 0) p s \<longleftrightarrow> stage 0 p s \<or> DrainerTurn \<in> set (bl_ready s)"
| "stage (Suc (Suc 0)) p s \<longleftrightarrow> stage (Suc 0) p s \<or> NotifyTask \<in> set (bl_ready s)"
| "stage n p s \<longleftrightarrow> stage (Suc (Suc 0)) p s \<or> SpawnNotify \<in> set (bl_ready s)"

fun stage_handle :: "nat \<Rightarrow> handle" where
  "stage_handle 0 = DrainerTurn"
| "stage_handle (Suc 0) = NotifyTask"
| "stage_handle n = SpawnNotify"

lemma stage_Suc: "n < 3 \<Longrightarrow> stage (Suc n) p s \<longleftrightarrow> stage n p s \<or> stage_handle n \<in> set (bl_ready s)"
  by (auto simp: numeral_3_eq_3 less_Suc_eq)

text \<open>Running the handle of a stage reaches the stage below it.\<close>

lemma stage_reached:
  assumes "n < 3" "wake_inv s" "p \<le> put_count s" "bl_ready s = stage_handle n # r"
  shows "stage n p (run_handle (stage_handle n) (s\<lparr>bl_ready := r\<rparr>))"
proof -
  consider "n = 0" | "n = Suc 0" | "n = Suc (Suc 0)" using assms(1) by linarith
  then show ?thesis
  proof cases
    case 1
    then show ?thesis using assms(3) by (auto simp: put_count_def gone_def loop_defs bus_drain_def split: if_splits)
  next
    case 2
    then show ?thesis using assms(2,4) by (auto simp: wake_inv_def loop_defs)
  qed (simp add: loop_defs)
qed

lemma stage_kept_do:
  assumes "n \<le> 3" "wake_inv s" "on_loop x" "p \<le> put_count s" "stage n p s"
  shows "stage n p (loop_do s x)"
  using assms(1,5)
proof (induction n)
  case 0
  then show ?case using put_count_do [of s x] assms(2) by (auto simp: wake_inv_def)
next
  case (Suc n)
  then have n: "n < 3" by simp
  consider (below) "stage n p s" | (queued) "\<not> stage n p s" "stage_handle n \<in> set (bl_ready s)"
    using Suc.prems stage_Suc [OF n] by blast
  then show ?case
  proof cases
    case below
    then show ?thesis using Suc.IH n by (simp add: stage_Suc [OF n])
  next
    case queued
    have "stage n p (loop_do s x) \<or> stage_handle n \<in> set (bl_ready (loop_do s x))"
    proof (cases x)
      case RunNext
      obtain h r where r: "bl_ready s = h # r" using queued(2) by (cases "bl_ready s") auto
      have later: "set r \<subseteq> set (bl_ready (run_handle h (s\<lparr>bl_ready := r\<rparr>)))"
        by (cases h) (auto simp: loop_defs split: option.splits)
      show ?thesis
        using stage_reached [OF n assms(2,4), of r] later queued(2) r RunNext by (cases "h = stage_handle n") auto
    qed (use queued in \<open>simp_all add: loop_defs\<close>)
    then show ?thesis using stage_Suc [OF n] by blast
  qed
qed

lemma stage_kept:
  assumes "n \<le> 3" "wake_inv s" "list_all on_loop ops" "p \<le> put_count s" "stage n p s"
  shows "stage n p (loop_run ops s) \<and> p \<le> put_count (loop_run ops s)"
  using assms(2-)
proof (induction ops arbitrary: s)
  case (Cons x ops)
  have "p \<le> put_count (loop_do s x)" using put_count_do [of s x] Cons.prems by (auto simp: wake_inv_def)
  then show ?case using Cons stage_kept_do [OF assms(1), of s x p] by (simp add: loop_do_inv)
qed simp

text \<open>First in, first out: after as many runs as there were handles ahead of it, a handle is at the head.\<close>

lemma fifo_reaches:
  assumes "h \<in> set (bl_ready s)" "iteration ops s"
  shows "\<exists>ops1 ops2 r. ops = ops1 @ RunNext # ops2 \<and> bl_ready (loop_run ops1 s) = h # r"
proof -
  obtain us vs where "bl_ready s = us @ h # vs" using assms(1) split_list by fast
  moreover have "length us < runs_of ops" using assms(2) calculation by (simp add: iteration_def)
  ultimately show ?thesis
  proof (induction ops arbitrary: s us vs)
    case Nil
    then show ?case by (simp add: runs_of_def)
  next
    case (Cons x ops)
    have step: ?case if q: "bl_ready (loop_do s x) = us' @ h # vs'" "length us' < runs_of ops" for us' vs'
    proof -
      obtain ops1 ops2 r where "ops = ops1 @ RunNext # ops2" "bl_ready (loop_run ops1 (loop_do s x)) = h # r"
        using Cons.IH [of "loop_do s x" us' vs'] q by blast
      then have "x # ops = (x # ops1) @ RunNext # ops2" "bl_ready (loop_run (x # ops1) s) = h # r" by simp_all
      then show ?thesis by blast
    qed
    show ?case
    proof (cases x)
      case RunNext
      show ?thesis
      proof (cases us)
        case Nil
        then show ?thesis using Cons.prems(1) RunNext by (intro exI [of _ "[]"] exI [of _ ops] exI [of _ vs]) simp
      next
        case (Cons u us')
        have "\<exists>new. bl_ready (run_handle u (s\<lparr>bl_ready := us' @ h # vs\<rparr>)) = (us' @ h # vs) @ new"
          by (cases u) (auto simp: loop_defs split: option.splits)
        then obtain new where "bl_ready (loop_do s x) = us' @ h # (vs @ new)"
          using Cons.prems(1) RunNext Cons by auto
        moreover have "length us' < runs_of ops" using Cons.prems(2) RunNext Cons by (simp add: runs_of_def)
        ultimately show ?thesis by (rule step)
      qed
    next
      case (Emit running e)
      show ?thesis
        by (rule step [of us "vs @ (if running then [SpawnNotify] else [])"]) (use Cons.prems Emit in \<open>simp_all add: loop_defs runs_of_def\<close>)
    next
      case Schedule
      show ?thesis
        by (rule step [of us "vs @ [OtherHandle]"]) (use Cons.prems Schedule in \<open>simp_all add: loop_defs runs_of_def\<close>)
    qed
  qed
qed

lemma stage_descends:
  assumes n: "n < 3" and inv: "wake_inv s" and ops: "list_all on_loop ops" "iteration ops s"
    and p: "p \<le> put_count s" and st: "stage (Suc n) p s"
  shows "stage n p (loop_run ops s)"
proof -
  consider (below) "stage n p s" | (queued) "stage_handle n \<in> set (bl_ready s)" using st stage_Suc [OF n] by blast
  then show ?thesis
  proof cases
    case below
    then show ?thesis using stage_kept n inv ops(1) p by (metis less_imp_le_nat)
  next
    case queued
    obtain ops1 ops2 r where o: "ops = ops1 @ RunNext # ops2" "bl_ready (loop_run ops1 s) = stage_handle n # r"
      using fifo_reaches [OF queued ops(2)] by blast
    let ?s1 = "loop_run ops1 s"
    have all: "list_all on_loop ops1" "list_all on_loop ops2" using ops(1) o(1) by simp_all
    have inv1: "wake_inv ?s1" using loop_run_inv inv all(1) by blast
    have p1: "p \<le> put_count ?s1" using stage_kept [OF _ inv all(1) p st] n by simp
    have "stage n p (loop_do ?s1 RunNext)" using stage_reached [OF n inv1 p1 o(2)] o(2) by simp
    moreover have "p \<le> put_count (loop_do ?s1 RunNext)" using put_count_do [of ?s1 RunNext] inv1 p1 by (simp add: wake_inv_def)
    moreover have "wake_inv (loop_do ?s1 RunNext)" using loop_do_inv [OF inv1, of RunNext] by simp
    ultimately show ?thesis using n all(2) o(1) by (simp add: stage_kept)
  qed
qed

lemma stage_start: "wake_inv s \<Longrightarrow> stage 3 (put_count s) s"
  by (auto simp: numeral_3_eq_3 wake_inv_def put_count_def)

text \<open>C16: However the other tasks of the loop interleave and whatever they emit, every event
  that was on the bus is delivered to the broadcaster or counted as dropped within three iterations of the event loop;
  at every moment the events delivered and dropped and those still in the buffer account for all that were put.\<close>

theorem events_reach_broadcaster:
  assumes "new_event_bus cap = Inr b" "list_all on_loop (before @ first @ second @ third)"
    "s = loop_run before (started_loop b)"
    "iteration first s" "iteration second (loop_run first s)" "iteration third (loop_run (first @ second) s)"
    "s' = loop_run (first @ second @ third) s"
  shows "int (length (emits_of before)) \<le> int (length (bl_delivered s')) + dropped_total (bl_bus s') \<and>
    int (length (emits_of (before @ first @ second @ third))) =
      int (length (bl_delivered s')) + dropped_total (bl_bus s') + int (length (bus_buf (bl_bus s')))"
proof -
  have b: "bus_inv b" "put_count (started_loop b) = 0"
    using assms(1) by (auto simp: new_event_bus_def bus_inv_def put_count_def gone_def started_loop_def split: if_splits)
  have counts: "put_count (loop_run ops (started_loop b)) = int (length (emits_of ops))" if "list_all on_loop ops" for ops
    using that
  proof (induction ops rule: rev_induct)
    case (snoc x ops)
    have "wake_inv (loop_run ops (started_loop b))" using snoc.prems by (simp add: loop_run_inv started_inv b(1))
    then show ?case using snoc put_count_do [of "loop_run ops (started_loop b)" x] by (simp add: wake_inv_def)
  qed (simp add: b)
  let ?p = "put_count s"
  have inv: "wake_inv s" using assms(2,3) by (simp add: loop_run_inv started_inv b(1))
  have inv1: "wake_inv (loop_run first s)" and inv2: "wake_inv (loop_run second (loop_run first s))"
    using assms(2) inv by (simp_all add: loop_run_inv)
  have p1: "?p \<le> put_count (loop_run first s)" using stage_kept [OF _ inv _ _ stage_start [OF inv]] assms(2) by simp
  have s1: "stage 2 ?p (loop_run first s)"
    using stage_descends [of 2 s first ?p] inv assms(2,4) stage_start [OF inv] by (simp add: numeral_3_eq_3 numeral_2_eq_2)
  have p2: "?p \<le> put_count (loop_run second (loop_run first s))" using stage_kept [OF _ inv1 _ p1 s1] assms(2) by simp
  have s2: "stage 1 ?p (loop_run second (loop_run first s))"
    using stage_descends [of 1 "loop_run first s" second ?p] inv1 assms(2,5) p1 s1 by (simp add: numeral_2_eq_2)
  have "stage 0 ?p s'"
    using stage_descends [of 0 "loop_run second (loop_run first s)" third ?p] inv2 assms(2,6,7) p2 s2 by simp
  then show ?thesis
    using counts [of before] counts [of "before @ first @ second @ third"] assms(2,3,7) by (simp add: gone_def put_count_def)
qed

theorem events_reach_broadcaster_witness:
  "\<exists>s'. s' = loop_run [RunNext, RunNext, Schedule, RunNext, RunNext, RunNext, RunNext, Emit True 3]
        (loop_run [RunNext, Emit True (1::nat), Emit True 2] (started_loop \<lparr>bus_buf = [], bus_capacity = 2, dropped_total = 0\<rparr>)) \<and>
     bl_delivered s' = [1, 2] \<and> bus_buf (bl_bus s') = [3] \<and>
     int (length (emits_of [RunNext, Emit True (1::nat), Emit True 2])) \<le> int (length (bl_delivered s')) + dropped_total (bl_bus s')"
  using events_reach_broadcaster [of 2 "\<lparr>bus_buf = [], bus_capacity = 2, dropped_total = 0\<rparr>" "[RunNext, Emit True (1::nat), Emit True 2]"
      "[RunNext, RunNext]" "[Schedule, RunNext, RunNext]" "[RunNext, RunNext, Emit True 3]", OF _ _ refl _ _ _ refl]
  by (simp add: new_event_bus_def started_loop_def iteration_def runs_of_def loop_defs bus_put_def bus_drain_def deque_append_def
      tail_slice_def Let_def)

section \<open>A put outside the loop\<close>

text \<open>Where no loop runs the notification is skipped: a parked drainer stays parked and the event waits for the next
  put from the loop. (Every caller in the supervisor is a coroutine.)\<close>

lemma outside_put_waits:
  assumes "bl_parked s" "bl_ready s = []"
  shows "loop_run (Emit False e # replicate n RunNext) s = s\<lparr>bl_bus := bus_put (bl_bus s) e\<rparr>"
  using assms by (induction n) (simp_all add: loop_defs)

end
