(* ===== verification/Integrity.thy ===== *)
theory Integrity
  imports Schema_Init Targets_Api
begin

text \<open>
  The constraints of \<^verbatim>\<open>app/db/schema.sql\<close> as an invariant of the tables, kept by every statement of the
  repositories, by the boot and by every operation of the supervisor. A step is one repository call; the relation has
  one rule per call, with the arguments free.
\<close>

section \<open>What the schema demands\<close>

definition keys_ok :: "database \<Rightarrow> bool" where
  "keys_ok d \<longleftrightarrow>
     distinct (map us_id (db_users d)) \<and> distinct (map us_username (db_users d)) \<and>
     distinct (map hs_token_hash (db_sessions d)) \<and>
     distinct (map at_id (db_api_tokens d)) \<and> distinct (map at_token_hash (db_api_tokens d)) \<and>
     distinct (map tr_id (db_targets d)) \<and>
     distinct (map cr_id (db_credentials d)) \<and> distinct (map cr_target_id (db_credentials d)) \<and>
     distinct (map rh_id (db_history d))"

definition references_ok :: "database \<Rightarrow> bool" where
  "references_ok d \<longleftrightarrow>
     hs_user_id ` set (db_sessions d) \<subseteq> us_id ` set (db_users d) \<and>
     at_user_id ` set (db_api_tokens d) \<subseteq> us_id ` set (db_users d) \<and>
     cr_target_id ` set (db_credentials d) \<subseteq> tr_id ` set (db_targets d) \<and>
     (\<forall>a\<in>set (db_audit_log d). \<forall>i. al_target_id a = Some i \<longrightarrow> i \<in> tr_id ` set (db_targets d))"

text \<open>A run is open, or closed at a time for one of the known reasons.\<close>

definition run_row_ok :: "run_row \<Rightarrow> bool" where
  "run_row_ok r \<longleftrightarrow>
     (rh_ended_at r = None \<and> rh_end_reason r = None) \<or>
     (rh_ended_at r \<noteq> None \<and> rh_end_reason r \<in> Some ` set VALID_END_REASONS)"

definition db_ok :: "database \<Rightarrow> bool" where
  "db_ok d \<longleftrightarrow> keys_ok d \<and> references_ok d \<and> audit_ok d \<and> (\<forall>r\<in>set (db_history d). run_row_ok r)"

inductive db_step :: "database \<Rightarrow> database \<Rightarrow> bool" where
  create_user: "create_user i name phc t d = Inr (row, d') \<Longrightarrow> db_step d d'"
| password: "db_step d (update_password_hash uid phc d)"
| last_login: "db_step d (touch_last_login uid t d)"
| create_session: "create_http_session th uid ex ua ip t d = Inr (row, d') \<Longrightarrow> db_step d d'"
| last_seen: "db_step d (touch_last_seen th t d)"
| delete_session: "db_step d (delete_session th d)"
| delete_user_sessions: "db_step d (snd (delete_all_for_user uid d))"
| delete_expired: "db_step d (snd (delete_expired t d))"
| delete_all_sessions: "db_step d (snd (delete_all_sessions d))"
| create_token: "create_api_token i uid th label t d = Inr (row, d') \<Longrightarrow> db_step d d'"
| last_used: "db_step d (touch_last_used i t d)"
| revoke: "db_step d (snd (revoke_token i t d))"
| delete_all_tokens: "db_step d (snd (delete_all_api_tokens d))"
| create_target: "create_target i ty label url en settings t d = Inr (row, d') \<Longrightarrow> db_step d d'"
| update_target: "db_step d (snd (update_target i label url en settings t d))"
| delete_target: "db_step d (snd (delete_target i d))"
| upsert: "upsert_credential i c d = Inr (row, d') \<Longrightarrow> db_step d d'"
| delete_credential: "db_step d (snd (delete_credential_for_target i d))"
| rewrap: "db_step d (rewrap_credential i ct nonce salt d)"
| audit: "append_audit event actor i data t d = Inr (row, d') \<Longrightarrow> db_step d d'"
| run_started: "history_start i notes t d = Inr (row, d') \<Longrightarrow> db_step d d'"
| run_ended: "history_end i reason t patch d = Inr (result, d') \<Longrightarrow> db_step d d'"
| settings_written: "settings_update first idle keep t d = Inr (row, d') \<Longrightarrow> db_step d d'"
| key_rotated: "rotate_ingest_key k grace t d = Inr (row, d') \<Longrightarrow> db_step d d'"
| seeded: "seed_initial_rows env phc source last4 d = Inr d' \<Longrightarrow> db_step d d'"
| reset: "reset_admin_password env phc last4 d = Inr d' \<Longrightarrow> db_step d d'"
| recovered: "recover_row env r d = Inr d' \<Longrightarrow> db_step d d'"

section \<open>Every step keeps it\<close>

lemma map_update_where: "(\<And>r. p r \<Longrightarrow> h (g r) = h r) \<Longrightarrow> map h (update_where p g rows) = map h rows"
  by (simp add: update_where_def)

lemma image_update_where: "(\<And>r. p r \<Longrightarrow> h (g r) = h r) \<Longrightarrow> h ` set (update_where p g rows) = h ` set rows"
  using map_update_where [of p h g rows] by (metis set_map)

lemma image_delete_where: "h ` set (delete_where p rows) \<subseteq> h ` set rows"
  by auto

lemma ball_update_where [simp]:
  "(\<forall>x\<in>set (update_where p g rows). Q x) \<longleftrightarrow> (\<forall>x\<in>set rows. Q (if p x then g x else x))"
  by (auto simp: update_where_def)

lemma user_by_id_None [simp]: "user_by_id d i = None \<longleftrightarrow> i \<notin> us_id ` set (db_users d)"
  by (auto simp: user_by_id_def one_or_none_None)

lemma user_by_id_mem: "user_by_id d i = Some u \<Longrightarrow> i \<in> us_id ` set (db_users d)"
  using user_by_id_None [of d i] by force

lemma target_by_id_None [simp]: "target_by_id d i = None \<longleftrightarrow> i \<notin> tr_id ` set (db_targets d)"
  by (auto simp: target_by_id_def one_or_none_None)

lemma target_by_id_mem: "target_by_id d i = Some t \<Longrightarrow> i \<in> tr_id ` set (db_targets d)"
  using target_by_id_None [of d i] by force

lemmas table_simps = map_update_where image_update_where Database.distinct_delete

lemmas user_ops = create_user_def update_password_hash_def touch_last_login_def
lemmas session_ops = create_http_session_def touch_last_seen_def delete_session_def delete_all_for_user_def
  delete_expired_def delete_all_sessions_def
lemmas token_ops = create_api_token_def touch_last_used_def revoke_token_def delete_all_api_tokens_def
lemmas target_ops = create_target_def update_target_def delete_target_def
lemmas credential_ops = upsert_credential_def delete_credential_for_target_def rewrap_credential_def
  replace_credential_def
lemmas history_ops = history_start_def history_end_def
lemmas settings_ops = settings_update_def rotate_ingest_key_def
lemmas boot_ops = seed_initial_rows_def reset_admin_password_def recover_row_def audit_system_total
lemmas table_ops = user_ops session_ops token_ops target_ops credential_ops history_ops settings_ops boot_ops
  append_audit_def

lemma users_step:
  "db_step d d' \<Longrightarrow> distinct (map us_id (db_users d)) \<and> distinct (map us_username (db_users d)) \<Longrightarrow>
    distinct (map us_id (db_users d')) \<and> distinct (map us_username (db_users d')) \<and>
    us_id ` set (db_users d) \<subseteq> us_id ` set (db_users d')"
  by (induction rule: db_step.induct)
    (auto simp: table_ops table_simps Let_def user_by_username_def one_or_none_None split: if_splits option.splits sum.splits, force+)

lemma sessions_step:
  "db_step d d' \<Longrightarrow> distinct (map hs_token_hash (db_sessions d)) \<Longrightarrow> distinct (map hs_token_hash (db_sessions d'))"
  by (induction rule: db_step.induct) (auto simp: table_ops table_simps Let_def split: if_splits option.splits sum.splits)

lemma tokens_step:
  "db_step d d' \<Longrightarrow> distinct (map at_id (db_api_tokens d)) \<and> distinct (map at_token_hash (db_api_tokens d)) \<Longrightarrow>
    distinct (map at_id (db_api_tokens d')) \<and> distinct (map at_token_hash (db_api_tokens d'))"
  by (induction rule: db_step.induct) (auto simp: table_ops table_simps Let_def split: if_splits option.splits sum.splits)

lemma targets_step:
  "db_step d d' \<Longrightarrow> distinct (map tr_id (db_targets d)) \<Longrightarrow> distinct (map tr_id (db_targets d'))"
  by (induction rule: db_step.induct) (auto simp: table_ops table_simps Let_def split: if_splits option.splits sum.splits)

lemma credentials_step:
  "db_step d d' \<Longrightarrow> distinct (map cr_id (db_credentials d)) \<and> distinct (map cr_target_id (db_credentials d)) \<Longrightarrow>
    distinct (map cr_id (db_credentials d')) \<and> distinct (map cr_target_id (db_credentials d'))"
  by (induction rule: db_step.induct)
    (auto simp: table_ops table_simps credential_of_def set_delete_where Let_def split: if_splits option.splits sum.splits)

lemma history_step:
  "db_step d d' \<Longrightarrow> distinct (map rh_id (db_history d)) \<and> (\<forall>r\<in>set (db_history d). run_row_ok r) \<Longrightarrow>
    distinct (map rh_id (db_history d')) \<and> (\<forall>r\<in>set (db_history d'). run_row_ok r)"
  by (induction rule: db_step.induct)
    (auto simp: table_ops table_simps Let_def run_row_ok_def VALID_END_REASONS_def split: if_splits option.splits sum.splits)

lemma session_owners_step:
  "db_step d d' \<Longrightarrow> hs_user_id ` set (db_sessions d) \<subseteq> us_id ` set (db_users d) \<Longrightarrow>
    hs_user_id ` set (db_sessions d') \<subseteq> us_id ` set (db_users d')"
  by (induction rule: db_step.induct) (auto simp: table_ops table_simps Let_def dest: user_by_id_mem split: if_splits option.splits sum.splits, blast+)

lemma token_owners_step:
  "db_step d d' \<Longrightarrow> at_user_id ` set (db_api_tokens d) \<subseteq> us_id ` set (db_users d) \<Longrightarrow>
    at_user_id ` set (db_api_tokens d') \<subseteq> us_id ` set (db_users d')"
  by (induction rule: db_step.induct) (auto simp: table_ops table_simps Let_def dest: user_by_id_mem split: if_splits option.splits sum.splits, blast+)

lemma credential_targets_step:
  "db_step d d' \<Longrightarrow> cr_target_id ` set (db_credentials d) \<subseteq> tr_id ` set (db_targets d) \<Longrightarrow>
    cr_target_id ` set (db_credentials d') \<subseteq> tr_id ` set (db_targets d')"
  by (induction rule: db_step.induct) (auto simp: table_ops table_simps Let_def dest: target_by_id_mem split: if_splits option.splits sum.splits, blast+)

lemma audit_targets_step:
  "db_step d d' \<Longrightarrow> \<forall>a\<in>set (db_audit_log d). \<forall>i. al_target_id a = Some i \<longrightarrow> i \<in> tr_id ` set (db_targets d) \<Longrightarrow>
    \<forall>a\<in>set (db_audit_log d'). \<forall>i. al_target_id a = Some i \<longrightarrow> i \<in> tr_id ` set (db_targets d')"
  by (induction rule: db_step.induct) (auto simp: table_ops table_simps Let_def dest: target_by_id_mem split: if_splits option.splits sum.splits)

lemma audit_ids_step: "db_step d d' \<Longrightarrow> audit_ok d \<Longrightarrow> audit_ok d'"
  by (induction rule: db_step.induct)
    (auto simp: table_ops table_simps audit_ok_def Let_def sorted_wrt_append split: if_splits option.splits sum.splits, force+)

lemma db_ok_step:
  assumes st: "db_step d d'" and ok: "db_ok d"
  shows "db_ok d'"
proof -
  have d: "keys_ok d" "references_ok d" "audit_ok d" "\<forall>r\<in>set (db_history d). run_row_ok r"
    using ok by (simp_all add: db_ok_def)
  have "distinct (map us_id (db_users d')) \<and> distinct (map us_username (db_users d')) \<and>
      us_id ` set (db_users d) \<subseteq> us_id ` set (db_users d')"
    by (rule users_step [OF st]) (use d(1) in \<open>simp add: keys_ok_def\<close>)
  moreover have "distinct (map hs_token_hash (db_sessions d'))"
    by (rule sessions_step [OF st]) (use d(1) in \<open>simp add: keys_ok_def\<close>)
  moreover have "distinct (map at_id (db_api_tokens d')) \<and> distinct (map at_token_hash (db_api_tokens d'))"
    by (rule tokens_step [OF st]) (use d(1) in \<open>simp add: keys_ok_def\<close>)
  moreover have "distinct (map tr_id (db_targets d'))"
    by (rule targets_step [OF st]) (use d(1) in \<open>simp add: keys_ok_def\<close>)
  moreover have "distinct (map cr_id (db_credentials d')) \<and> distinct (map cr_target_id (db_credentials d'))"
    by (rule credentials_step [OF st]) (use d(1) in \<open>simp add: keys_ok_def\<close>)
  moreover have hist: "distinct (map rh_id (db_history d')) \<and> (\<forall>r\<in>set (db_history d'). run_row_ok r)"
    by (rule history_step [OF st]) (use d(1,4) in \<open>simp add: keys_ok_def\<close>)
  ultimately have "keys_ok d'" by (simp add: keys_ok_def)
  moreover have "references_ok d'"
    unfolding references_ok_def
    by (intro conjI session_owners_step [OF st] token_owners_step [OF st] credential_targets_step [OF st]
        audit_targets_step [OF st]) (use d(2) in \<open>simp_all add: references_ok_def\<close>)
  moreover have "audit_ok d'" by (rule audit_ids_step [OF st d(3)])
  ultimately show ?thesis using hist by (simp add: db_ok_def)
qed

lemma db_ok_steps: "db_step\<^sup>*\<^sup>* d d' \<Longrightarrow> db_ok d \<Longrightarrow> db_ok d'"
  by (induction rule: rtranclp_induct) (auto intro: db_ok_step)

section \<open>Components that write the tables\<close>

abbreviation db_steps :: "database \<Rightarrow> database \<Rightarrow> bool" where
  "db_steps \<equiv> db_step\<^sup>*\<^sup>*"

fun all_allowed :: "('s \<Rightarrow> 'a \<Rightarrow> bool) \<Rightarrow> ('s \<Rightarrow> 'a \<Rightarrow> 's) \<Rightarrow> 's \<Rightarrow> 'a list \<Rightarrow> bool" where
  "all_allowed allowed run1 s [] \<longleftrightarrow> True"
| "all_allowed allowed run1 s (x # xs) \<longleftrightarrow> allowed s x \<and> all_allowed allowed run1 (run1 s x) xs"

text \<open>What a component promises that holds the tables and changes them by its operations: every allowed operation
  is a sequence of repository calls. Its clients get the constraints for whole runs.\<close>

locale table_writer =
  fixes tables :: "'s \<Rightarrow> database"
    and run1 :: "'s \<Rightarrow> 'a \<Rightarrow> 's"
    and allowed :: "'s \<Rightarrow> 'a \<Rightarrow> bool"
  assumes operation_writes: "allowed s x \<Longrightarrow> db_steps (tables s) (tables (run1 s x))"
begin

lemma run_writes: "all_allowed allowed run1 s xs \<Longrightarrow> db_steps (tables s) (tables (foldl run1 s xs))"
proof (induction xs arbitrary: s)
  case (Cons x xs)
  then show ?case using operation_writes [of s x] Cons.IH [of "run1 s x"] by (auto intro: rtranclp_trans)
qed simp

lemma run_keeps: "all_allowed allowed run1 s xs \<Longrightarrow> db_ok (tables s) \<Longrightarrow> db_ok (tables (foldl run1 s xs))"
  using db_ok_steps run_writes by blast

end

section \<open>The boot only takes steps\<close>

lemma one_step: "db_step d d' \<Longrightarrow> db_steps d d'"
  by (rule r_into_rtranclp)

lemma step_then: "db_step d d' \<Longrightarrow> db_steps d' d'' \<Longrightarrow> db_steps d d''"
  by (rule converse_rtranclp_into_rtranclp)

lemma call_steps:
  "seed_initial_rows benv phc source last4 d = Inr d' \<Longrightarrow> db_steps d d'"
  "reset_admin_password benv phc last4 d = Inr d' \<Longrightarrow> db_steps d d'"
  "append_audit event actor tid data t d = Inr (arow, d') \<Longrightarrow> db_steps d d'"
  "history_start i notes t d = Inr (hrow, d') \<Longrightarrow> db_steps d d'"
  "history_end i reason t patch d = Inr (result, d') \<Longrightarrow> db_steps d d'"
  by (rule one_step, erule db_step.intros)+

lemma recover_rows_path: "recover_rows env rs d = Inr d' \<Longrightarrow> db_steps d d'"
  by (induction rs arbitrary: d) (auto split: sum.splits intro: step_then db_step.recovered)

lemma executescript_effects:
  "executescript xs f = (es, r) \<Longrightarrow>
    (\<forall>g. WriteFile g \<in> set es \<longrightarrow> df_db g = df_db f) \<and> (\<forall>g. r = Inr g \<longrightarrow> df_db g = df_db f)"
proof (induction xs arbitrary: f es r)
  case (Cons x xs)
  obtain es1 r1 where e: "executescript xs (f\<lparr>df_objects := df_objects f @ [x]\<rparr>) = (es1, r1)" by fastforce
  show ?case using Cons.prems Cons.IH [OF e] e by (auto simp: Let_def split: if_splits)
qed auto

lemma sync_effects:
  assumes "sync_bootstrap_schema env f = (es, r)"
  shows "(\<forall>g. WriteFile g \<in> set es \<longrightarrow> df_db g = df_db f) \<and> (\<forall>b g. r = Inr (b, g) \<longrightarrow> df_db g = df_db f)"
proof -
  obtain es1 r1 where e: "executescript SCHEMA_OBJECTS f = (es1, r1)" by fastforce
  show ?thesis using assms executescript_effects [OF e] e
    by (cases r1) (auto simp: sync_bootstrap_schema_def Let_def split: option.splits if_splits)
qed

lemma password_effects: "WriteFile g \<notin> set (fst (resolve_bootstrap_password env s))"
  by (auto simp: resolve_bootstrap_password_def Let_def split: option.split sum.split)

lemma boot_admin_effects:
  assumes "boot_admin env s fresh f = (es, r)"
  shows "(\<forall>g. WriteFile g \<in> set es \<longrightarrow> db_steps (df_db f) (df_db g)) \<and>
    (\<forall>src g. r = Inr (src, g) \<longrightarrow> db_steps (df_db f) (df_db g))"
proof -
  obtain es1 r1 where e: "resolve_bootstrap_password env s = (es1, r1)" by fastforce
  then have "WriteFile g \<notin> set es1" for g using password_effects [of g env s] by simp
  then show ?thesis using assms e
    by (cases r1) (auto simp: boot_admin_def Let_def call_steps split: if_splits option.splits sum.splits)
qed

lemma initialize_writes:
  assumes "WriteFile g \<in> set (fst (initialize_schema env s f))"
  shows "db_steps (df_db f) (df_db g)"
proof -
  obtain es1 r1 where 1: "sync_bootstrap_schema env f = (es1, r1)" by fastforce
  show ?thesis
  proof (cases r1)
    case (Inl e)
    then show ?thesis using assms 1 sync_effects [OF 1] by (simp add: initialize_schema_def)
  next
    case (Inr p)
    obtain fresh f1 where p: "p = (fresh, f1)" by (cases p)
    have f1: "df_db f1 = df_db f" using sync_effects [OF 1] Inr p by simp
    obtain es2 r2 where 2: "boot_admin env s fresh f1 = (es2, r2)" by fastforce
    note admin = boot_admin_effects [OF 2, unfolded f1]
    have "db_steps (df_db f) d" if "r2 = Inr (src, f2)" "recover_interrupted_sessions env (df_db f2) = Inr (ids, d)" for src f2 ids d
    proof -
      have "db_steps (df_db f2) d"
        using that(2) by (auto simp: recover_interrupted_sessions_def Let_def intro: recover_rows_path split: sum.splits)
      then show ?thesis using admin that(1) by (auto intro: rtranclp_trans)
    qed
    then show ?thesis using assms 1 2 Inr p sync_effects [OF 1] admin
      by (auto simp: initialize_schema_def Let_def split: sum.splits prod.splits)
  qed
qed

interpretation boots: table_writer df_db attempt_boot "\<lambda>f a. True"
proof
  fix f :: database_file and a :: boot_attempt
  let ?es = "fst (initialize_schema (ba_env a) (ba_settings a) f)"
  have "db_steps (df_db f) (df_db (file_after f es))" if "set es \<subseteq> set ?es" for es
    by (rule file_after_invariant [where P = "\<lambda>g. db_steps (df_db f) (df_db g)"]) (use initialize_writes that in auto)
  then show "db_steps (df_db f) (df_db (attempt_boot f a))"
    by (auto simp: attempt_boot_def Let_def split: option.splits dest: in_set_takeD)
qed

lemma boots_allowed [simp]: "all_allowed (\<lambda>f a. True) attempt_boot f as"
  by (induction as arbitrary: f) simp_all

section \<open>The supervisor only takes steps\<close>

lemma audit_path: "db_steps (sv_db s) (sv_db (fst (sv_audit env e t x s)))"
  by (auto simp: sv_audit_def intro: call_steps split: sum.split prod.split)

lemma audit_path_from: "sv_db s = d \<Longrightarrow> db_steps d (sv_db (fst (sv_audit env e t x s)))"
  using audit_path [of s] by simp

lemma steps_db_steps:
  "(\<And>f t. f \<in> set fs \<Longrightarrow> db_steps (sv_db t) (sv_db (fst (f t)))) \<Longrightarrow> db_steps (sv_db s) (sv_db (fst (steps fs s)))"
  by (rule steps_invariant [where P = "\<lambda>t. db_steps (sv_db s) (sv_db t)"]) (auto intro: rtranclp_trans)

lemma open_run_path: "db_steps (sv_db s) (sv_db (fst (open_run_session env s)))"
  by (auto simp: open_run_session_def intro: call_steps split: sum.split prod.split)

lemma close_run_path: "db_steps (sv_db s) (sv_db (fst (close_run_session env r s)))"
  by (auto simp: close_run_session_def Let_def intro: call_steps split: option.split sum.split prod.split)

lemma delete_credentials_path: "db_steps d (snd (delete_credentials ids d))"
proof -
  let ?f = "\<lambda>(cleared, d) i. case delete_credential_for_target i d of
      (True, d') \<Rightarrow> (cleared @ [i], d') | (False, d') \<Rightarrow> (cleared, d')"
  have one: "snd (?f x i) = snd (delete_credential_for_target i (snd x))" for x i
    by (cases x) (auto split: prod.split bool.split)
  have "db_steps (snd x) (snd (foldl ?f x ids))" for x
  proof (induction ids arbitrary: x)
    case (Cons i ids)
    have "db_step (snd x) (snd (?f x i))" unfolding one by (rule db_step.delete_credential)
    then show ?case using Cons [of "?f x i"] by (simp add: converse_rtranclp_into_rtranclp)
  qed simp
  from this [of "([], d)"] show ?thesis by (simp add: delete_credentials_def)
qed

lemma wipe_path: "db_steps (sv_db s) (sv_db (fst (wipe_per_session_credentials env s)))"
proof (cases "delete_credentials (per_session_ids s) (sv_db s)")
  case (Pair cleared d)
  have "db_steps (sv_db s) d" using delete_credentials_path [of "sv_db s" "per_session_ids s"] Pair by simp
  moreover have "db_steps (sv_db t) (sv_db (fst (steps (map (\<lambda>i. sv_audit env ''vk_session_credential_cleared'' (Some i) []) cleared) t)))" for t
    by (rule steps_db_steps) (auto intro: audit_path)
  from this [of "s\<lparr>sv_db := d\<rparr>"] have "db_steps d (sv_db (fst (steps (map (\<lambda>i. sv_audit env ''vk_session_credential_cleared'' (Some i) []) cleared) (s\<lparr>sv_db := d\<rparr>))))"
    by simp
  ultimately have "db_steps (sv_db s) (sv_db (fst (steps (map (\<lambda>i. sv_audit env ''vk_session_credential_cleared'' (Some i) []) cleared) (s\<lparr>sv_db := d\<rparr>))))"
    by (rule rtranclp_trans)
  then show ?thesis using Pair by (simp add: wipe_per_session_credentials_def)
qed

lemma flush_path: "db_steps (sv_db s) (sv_db (flush_failures env is s))"
proof (induction "is" arbitrary: s)
  case (Cons i "is")
  let ?t = "fst (sv_audit env ''credential_decrypt_failed'' (Some i)
    [(''reason'', JString ''aead_authentication_failed_or_kek_mismatch'')] (s\<lparr>sv_decrypt_failures := is\<rparr>))"
  have "db_steps (sv_db s) (sv_db ?t)" using audit_path [of "s\<lparr>sv_decrypt_failures := is\<rparr>"] by simp
  then show ?case using Cons [of ?t] by (auto intro: rtranclp_trans)
qed simp

lemma load_db: "sv_db (fst (load_runnable_targets env s)) = sv_db s"
  by (simp add: load_runnable_targets_def split: sum.split prod.split)

lemma load_and_spawn_path: "db_steps (sv_db s) (sv_db (fst (load_and_spawn env s)))"
proof (cases "load_runnable_targets env s")
  case (Pair s1 r)
  then have "sv_db s1 = sv_db s" using load_db [of env s] by simp
  then show ?thesis using Pair flush_path [of s1 env "sv_decrypt_failures s1"]
    by (cases r) (simp_all add: load_and_spawn_def Let_def start_pairs_frame)
qed

lemma tear_down_all_db: "sv_db (fst (tear_down_all_workers env s)) = sv_db s"
  by (simp add: tear_down_all_workers_def Let_def)

lemma handle_event_path: "db_steps (sv_db s) (sv_db (handle_worker_event env i e s))"
  by (auto simp: handle_worker_event_def publish_target_snapshot_def Let_def intro!: audit_path_from split: option.split prod.split)

lemma set_run_state_db: "set_run_state env a c s = (t, e) \<Longrightarrow> sv_db t = sv_db s"
  using set_run_state_frame(1) [of env a c s] by simp

lemma run_started_path: "db_steps (sv_db s) (sv_db (fst (run_started_audit env s)))"
  unfolding run_started_audit_def
  by (rule audit_path [of "obs_signals env ''run_started'' s", unfolded obs_signals_frame(1)])

lemma start_run_db: "db_steps (sv_db s) (sv_db (fst (start_run env s)))"
proof -
  let ?s1 = "fst (set_run_state env START_REQUESTED ''user pressed START'' s)"
  have body: "db_steps (sv_db t) (sv_db (fst (start_body env t)))" for t
    unfolding start_body_def
    by (rule steps_db_steps) (auto intro: open_run_path load_and_spawn_path run_started_path)
  have rollback: "db_steps (sv_db t) (sv_db (fst (start_rollback env t)))" for t
    unfolding start_rollback_def by (rule steps_db_steps) (auto intro: close_run_path simp: tear_down_all_db)
  have "db_steps (sv_db s) (sv_db (fst (start_body env ?s1)))"
    "db_steps (sv_db s) (sv_db (fst (start_rollback env (fst (start_body env ?s1)))))"
    using body [of ?s1] rollback [of "fst (start_body env ?s1)"] by (auto intro: rtranclp_trans)
  then show ?thesis by (auto simp: start_run_def dest: set_run_state_db split: prod.splits option.splits)
qed

lemma stop_run_db: "db_steps (sv_db s) (sv_db (fst (stop_run env r s)))"
proof -
  let ?s1 = "fst (set_run_state env STOP_REQUESTED (''stop requested ('' @ r @ '')'') s)"
  have cleanup: "db_steps (sv_db t) (sv_db (fst (stop_cleanup env r t)))" for t
    unfolding stop_cleanup_def by (rule steps_db_steps) (auto intro: wipe_path close_run_path audit_path)
  from cleanup [of "fst (tear_down_all_workers env ?s1)"]
  have "db_steps (sv_db s) (sv_db (fst (stop_cleanup env r (fst (tear_down_all_workers env ?s1)))))"
    by (simp add: tear_down_all_db)
  then show ?thesis by (auto simp: stop_run_def dest: set_run_state_db split: prod.splits option.splits)
qed

lemma enable_locked_db: "sv_db (fst (enable_locked env tid s)) = sv_db s"
proof -
  have "sv_db (fst (spawn_workers_for_target env t dm k u)) = sv_db u" for t dm k u
    unfolding spawn_workers_for_target_def
    by (rule steps_invariant [where P = "\<lambda>v. sv_db v = sv_db u"]) (use spawn_worker_frame in auto)
  then show ?thesis by (auto simp: enable_locked_def Let_def split: sum.split option.split)
qed

lemma run_begin_db: "db_steps (sv_db s) (sv_db (fst (run_begin env b s)))"
proof (cases "sv_audit env ''supervisor_started'' None [(''build_at'', JString (ev_isoformat env (ev_now env)))]
    (update_heartbeat env (s\<lparr>sv_bus := Some b\<rparr>))")
  case (Pair s1 e)
  have "db_steps (sv_db s) (sv_db s1)"
    using audit_path [of "update_heartbeat env (s\<lparr>sv_bus := Some b\<rparr>)" env "''supervisor_started''" None
        "[(''build_at'', JString (ev_isoformat env (ev_now env)))]"] Pair
    by (simp add: update_heartbeat_def)
  then show ?thesis using Pair by (simp add: run_begin_def split: option.split)
qed

text \<open>What the HTTP handlers write between two operations is any sequence of repository calls.\<close>

definition writes_ok :: "supervisor \<Rightarrow> sv_op \<times> sv_env \<Rightarrow> bool" where
  "writes_ok s x \<longleftrightarrow> (case fst x of DatabaseWrite d \<Rightarrow> db_steps (sv_db s) d | _ \<Rightarrow> True)"

lemma sv_do_db:
  assumes "writes_ok s (opn, env)"
  shows "db_steps (sv_db s) (sv_db (sv_do s (opn, env)))"
proof (cases opn)
  case (DisableTarget tid)
  then show ?thesis by simp
next
  case (WorkerEvent i e)
  then show ?thesis using handle_event_path [of "update_heartbeat env s" env i e]
    by (simp add: worker_event_pump_def update_heartbeat_def)
next
  case (DatabaseWrite d)
  then show ?thesis using assms by (simp add: writes_ok_def)
qed (auto simp: start_run_db stop_run_db sv_stop_def enable_locked_db reset_target_worker_def worker_input_def
    update_heartbeat_def run_begin_db run_end_def drop_alert_tick_def bus_drain_step_def host_stats_tick_def
    notify_obs_publish_began_def notify_obs_publish_ended_def Let_def split: option.split sum.split)

interpretation runs: table_writer sv_db sv_do writes_ok
proof
  fix s x
  assume "writes_ok s x"
  then show "db_steps (sv_db s) (sv_db (sv_do s x))" using sv_do_db by (cases x) simp
qed

lemma empty_database_ok: "db_ok empty_database"
  by (simp add: db_ok_def keys_ok_def references_ok_def audit_ok_def empty_database_def)

text \<open>C6: Whatever boots there were, each cut short anywhere or completed, whatever the supervisor then does and the
  handlers write, and whatever boots follow, the tables keep the constraints of the schema: unique keys, references that
  exist, growing audit ids, and runs that are either open or closed for a known reason.\<close>

theorem data_stays_well_formed:
  assumes "sv_db sv = df_db (foldl attempt_boot new_database_file before)" "all_allowed writes_ok sv_do sv ops"
    "df_db g = sv_db (sv_run sv ops)"
  shows "db_ok (df_db (foldl attempt_boot new_database_file before)) \<and> db_ok (sv_db (sv_run sv ops)) \<and>
    db_ok (df_db (foldl attempt_boot g later))"
proof -
  have "db_ok (df_db new_database_file)" using empty_database_ok by (simp add: new_database_file_def)
  then have before: "db_ok (df_db (foldl attempt_boot new_database_file before))" by (rule boots.run_keeps [rotated]) simp
  then have run: "db_ok (sv_db (sv_run sv ops))"
    unfolding sv_run_def by (intro runs.run_keeps assms(2)) (simp add: assms(1))
  then have "db_ok (df_db g)" by (simp add: assms(3))
  then have "db_ok (df_db (foldl attempt_boot g later))" by (rule boots.run_keeps [rotated]) simp
  then show ?thesis using before run by blast
qed

definition sample_attempt :: "nat option \<Rightarrow> boot_attempt" where
  "sample_attempt k = \<lparr>ba_env = sample_boot_env, ba_settings = sample_settings, ba_survives = k\<rparr>"

definition sample_life :: supervisor where
  "sample_life = sv_run (new_supervisor (df_db (attempt_boot new_database_file (sample_attempt None))) sample_keys [] [] 0)
     [(StartRun, sample_env), (StopRun ''user_stop'', sample_env)]"

theorem data_stays_well_formed_witness:
  "db_ok (df_db (foldl attempt_boot (unseeded_file\<lparr>df_db := sv_db sample_life\<rparr>) [sample_attempt (Some 1), sample_attempt None]))"
  using data_stays_well_formed [of "new_supervisor (df_db (attempt_boot new_database_file (sample_attempt None))) sample_keys [] [] 0"
      "[sample_attempt None]" "[(StartRun, sample_env), (StopRun ''user_stop'', sample_env)]"
      "unseeded_file\<lparr>df_db := sv_db sample_life\<rparr>" "[sample_attempt (Some 1), sample_attempt None]"]
  by (simp add: new_supervisor_def writes_ok_def sample_life_def)

end
