(* ===== verification/Spec2Isabelle.thy ===== *)
theory Spec2Isabelle
  imports Ws_Api Host_Stats First_Use Fake_Supervisor Worker_Stop Json_Columns Bus_Wakeup Integrity
begin

text \<open>
  Restream_Plus takes one RTMP stream from OBS and sends it on to several platforms, one ffmpeg process per target and
  role. This library models the control plane, the Python package \<^verbatim>\<open>src/app/\<close>: one process with an HTTP and
  WebSocket API, a supervisor of the ffmpeg workers, and an SQLite file.

  \<^bold>\<open>How the parts interact.\<close> A handler of \<^verbatim>\<open>app/api/\<close> authenticates the request (cookie session or bearer token under
  the unlocked keys), reads and writes the tables through the repositories, and calls the supervisor. The supervisor
  moves the run state along its table, opens stored stream keys with the key service, registers them for redaction,
  starts one worker per target and role and listens to their events. A worker runs ffmpeg in a loop, parses its progress,
  redacts its error lines, and decides with backoff and a circuit breaker when to try again. What the supervisor
  learns it puts on a bounded event bus, from which the broadcaster fills the queues of the WebSocket clients.

  \<^bold>\<open>Conventions.\<close> Records are the classes and rows of the code, datatypes its enums and tagged unions. An exception
  is the \<open>Inl\<close> side of a sum or an error option; an operation on an object is a function from its state to the new
  state and the result. Python integers are \<open>int\<close>, floats are exact rationals except where the code depends on the
  overflow (\<open>Backoff\<close>), strings are lists of characters with code points below 256, bytes likewise. Times are whole
  microseconds, as \<^verbatim>\<open>datetime\<close> keeps them, or nanoseconds of the monotonic clock. A dictionary is an association
  list in insertion order. Clocks, random values, the outcome of a transaction and everything the operating system or a
  library answers are arguments, mostly fields of an environment record; cryptographic primitives are the fields of
  \<open>crypto_lib\<close>, and what is assumed of them are the named hypotheses \<open>aead_correct\<close> and \<open>kdf_lengths\<close>. asyncio
  switches tasks only at an await, so a coroutine is cut at its suspension points and an interleaving is a list of steps.

  \<^bold>\<open>Domain.\<close> \<open>Run_State\<close> (\<^verbatim>\<open>domain/run_state.py\<close>), \<open>Worker_State\<close> (\<^verbatim>\<open>worker_state.py\<close>), \<open>Circuit_Breaker\<close>,
  \<open>Target_Model\<close> (targets, types, credential lifetimes, health). The transition tables are shown to agree with their
  readers, LIVE and FAILED_OPEN to have the histories they need, the breaker to answer like a complete log of failures.

  \<^bold>\<open>Fan-out.\<close> \<open>Worker_Contract\<close> (URLs and argument vector), \<open>Backoff\<close>, \<open>Progress_Parser\<close>, \<open>Redaction\<close>,
  \<open>Ffmpeg_Worker\<close> (the life of a worker as a step machine), \<open>Worker_Stop\<close> (its stop with signals and times),
  \<open>Event_Bus\<close>, \<open>Bus_Wakeup\<close> (how a put wakes the drainer on the event loop), \<open>Supervisor\<close>, \<open>Fake_Supervisor\<close> (the double of \<^verbatim>\<open>fanout/_testing.py\<close>), \<open>Host_Stats\<close>. Shown: the
  parser does not depend on where the stream is cut and reads back what ffmpeg prints; the error sink ends, is bounded and
  lets no output URL through; a worker's events replay as a run of its state machine; a stop returns in bounded time and
  kills exactly the child that ignores SIGTERM; an event reaches the broadcaster within three
  iterations of the loop; the double answers like the supervisor while no start fails and no signal comes inside one; what starting,
  stopping, failing, enabling and disabling do to workers, secrets and credentials, on every path; bookkeeping invariants
  hold after any sequence of operations; each operation performs only its own actions of the run-state table. The locked
  methods of the supervisor are one step each; the two signals of the ingest take no lock, and what comes of them while a
  start awaits its last audit row or the teardown of its workers is part of its environment (\<open>ev_signals\<close>).

  \<^bold>\<open>Storage and keys.\<close> \<open>Database\<close> (tables, column types, every repository), \<open>Json_Columns\<close> (the text of the
  JSON columns and the row validators: what is written reads back), \<open>Crypto\<close> (AES-GCM wrapper, key
  derivation, passwords, key service), \<open>Credential_Registry\<close> (log redaction), \<open>Schema_Init\<close> (first boot, version
  check, password reset, crash recovery; a boot is the list of its lasting effects, so it can die after any of them),
  \<open>Integrity\<close> (the constraints of \<^verbatim>\<open>schema.sql\<close> as an invariant of every repository call, lifted to boots and
  supervisor operations), \<open>Configuration\<close> (settings and their validators).

  \<^bold>\<open>Authentication.\<close> \<open>Rate_Limit\<close>, \<open>Client_Ip\<close> (who a request is counted under), \<open>Login_Sessions\<close>, \<open>Api_Tokens\<close>,
  \<open>Reprompts\<close>, \<open>Auth_Deps\<close> (the dependencies of the handlers and the mapping of errors). Shown: the limiter refines a
  log of failures and bounds password guesses, a client cannot forge its address, cookies and tokens are accepted exactly
  from issue to expiry or revocation, a grant is used at most once, and an authenticated request has a live credential.

  \<^bold>\<open>API.\<close> \<open>Auth_Api\<close>, \<open>Targets_Api\<close>, \<open>Security_Api\<close> (rotation of the passphrase with its files and failure points),
  \<open>Settings_Api\<close> (settings, tokens, run history), \<open>Control_Api\<close> (start and stop, publish callbacks of nginx, the gate in
  front of a locked service, health), \<open>Ws_Api\<close> (admission, queues, broadcaster and forwarding loop interleaved),
  \<open>Lifespan\<close> (\<^verbatim>\<open>main.py\<close>: start over a data directory, shutdown, periodic ticks, the frontend's files), \<open>First_Use\<close>
  (from an empty directory through the boot and the login to the first authenticated request). Shown: rotation
  keeps every stream key readable, also after a restart; a failed rotation changes nothing, the failures of the rename and of the last audit row
  apart; a reveal returns what was stored; a deletion removes the target, its credential and the workers listed for it;
  history pages are complete; a socket client never silently misses an event.

  \<^bold>\<open>Interfaces.\<close> \<open>Interfaces\<close> states as locales what several components share: \<open>step_machine\<close> (runs of a partial step
  function; both state tables and the worker), \<open>sliding_window\<close> (a window pruned from the left agrees with the full log;
  breaker and limiter), \<open>keyed_store\<close> (lookup after insert and delete; credentials and grants). \<open>Integrity\<close> adds
  \<open>table_writer\<close> (operations that are repository calls keep the constraints; boots and supervisor). \<open>Prelude\<close> holds the
  string, list and UTF-8 functions of Python the model needs, with their lemmas.

  \<^bold>\<open>Termination and bounds.\<close> Every function is total; loops over text and buffers recurse on what is left of it, with a
  measure where that is not structural. No fuel is used: endless loops of the code are step relations or single ticks,
  and a run of them is a list of steps of any length.

  \<^bold>\<open>Where the code differs from what it says.\<close> Some theorems state a behaviour that is surely not meant: a first boot
  that dies between schema and seed is never made up for (\<open>interrupted_first_boot_stuck\<close>), an old ingest key never
  expires (\<open>old_ingest_key_never_expires\<close>), no operation leads out of ERROR (\<open>error_is_permanent\<close>), a rename that fails
  during a rotation loses the new salt (\<open>failed_rename_loses_salt\<close>), a rotation whose last audit row fails is complete and
  answered with 500 (\<open>unaudited_rotation_complete\<close>), a wipe of single-use keys that fails is passed over
  (\<open>stop_run_wipes\<close>), secrets in dictionary keys are logged (\<open>dict_keys_not_redacted\<close>), a new stream key or URL does not reach running
  workers (\<open>new_key_not_applied\<close>, \<open>patched_url_not_applied\<close>), the history cursor skips runs of the same second
  (\<open>same_second_run_lost\<close>), a password reset logs nobody out (\<open>password_reset_effect\<close>), a stop during a spawn leaves
  the new ffmpeg running (\<open>stop_during_spawn_orphans\<close>).

  \<^bold>\<open>Not modelled.\<close> The call that creates a child process (\<^verbatim>\<open>fanout/process.py\<close>), the configuration of
  SQLAlchemy, structlog and uvicorn, router mounting, the s6 notification, reading the environment and the JSON coding of HTTP bodies (pydantic), the React frontend, nginx and the container image. SQLite transactions are atomic; a commit
  that fails is part of the environment where the code reacts to it.
\<close>

end
